(* ===== verification/Nb_Prelude.thy ===== *)
theory Nb_Prelude
  imports Main "HOL-Library.Word" "HOL-Library.List_Lexorder" "HOL-Library.Char_ord"
    "HOL-Library.Code_Target_Nat"
begin

text \<open>
  Shared vocabulary of the development: the byte and node-identifier types, Rust's
  \<open>Result\<close> as a sum with its \<open>?\<close> operator, the saturating and checked operations on
  unsigned 64-bit values that the sources call, big-endian encodings, and the lemmas about
  lists and results that the component theories use through \<open>simp\<close>.

  Terms, log indices and membership generations are \<open>u64\<close> in the sources. They are \<open>nat\<close>
  here; where the code calls \<open>saturating_add\<close>, \<open>saturating_sub\<close> or \<open>checked_add\<close> the
  bound \<open>2 ^ 64 - 1\<close> is written out.
\<close>

section \<open>Types\<close>

type_synonym u8 = "8 word"
type_synonym bytes = "u8 list"
type_synonym nodeid = string

named_theorems result_simps \<open>inversion rules for results\<close>

section \<open>Results and the question-mark operator\<close>

definition rbind :: "'e + 'a \<Rightarrow> ('a \<Rightarrow> 'e + 'b) \<Rightarrow> 'e + 'b" where
  "rbind r f = (case r of Inl e \<Rightarrow> Inl e | Inr a \<Rightarrow> f a)"

definition require :: "bool \<Rightarrow> 'e \<Rightarrow> 'e + unit" where
  "require b e = (if b then Inr () else Inl e)"

definition map_err :: "('e \<Rightarrow> 'f) \<Rightarrow> 'e + 'a \<Rightarrow> 'f + 'a" where
  "map_err f r = (case r of Inl e \<Rightarrow> Inl (f e) | Inr a \<Rightarrow> Inr a)"

definition is_ok :: "'e + 'a \<Rightarrow> bool" where
  "is_ok r = (case r of Inl _ \<Rightarrow> False | Inr _ \<Rightarrow> True)"

definition ok_or :: "'a option \<Rightarrow> 'e \<Rightarrow> 'e + 'a" where
  "ok_or x e = (case x of None \<Rightarrow> Inl e | Some a \<Rightarrow> Inr a)"

section \<open>Unsigned 64-bit arithmetic on natural numbers\<close>

definition u64_max :: nat where
  "u64_max = 2 ^ 64 - 1"

definition sat_add :: "nat \<Rightarrow> nat \<Rightarrow> nat" where
  "sat_add a b = min (a + b) u64_max"

definition checked_add :: "nat \<Rightarrow> nat \<Rightarrow> nat option" where
  "checked_add a b = (if a + b \<le> u64_max then Some (a + b) else None)"

section \<open>Byte strings\<close>

text \<open>A string is the sequence of its UTF-8 bytes, one \<open>char\<close> per byte.\<close>

definition str_bytes :: "string \<Rightarrow> bytes" where
  "str_bytes s = map (\<lambda>c. of_nat (of_char c)) s"

definition bytes_str :: "bytes \<Rightarrow> string" where
  "bytes_str bs = map (\<lambda>b. char_of (unat b)) bs"

definition starts_with :: "'a list \<Rightarrow> 'a list \<Rightarrow> bool" where
  "starts_with xs pre \<longleftrightarrow> take (length pre) xs = pre"

definition be_bytes :: "nat \<Rightarrow> nat \<Rightarrow> bytes" where
  "be_bytes k n = map (\<lambda>i. of_nat (n div 256 ^ i)) (rev [0..<k])"

definition be_value :: "bytes \<Rightarrow> nat" where
  "be_value bs = foldl (\<lambda>a b. a * 256 + unat b) 0 bs"

section \<open>Lemmas\<close>

lemma rbind_simps [simp]: "rbind (Inr a) f = f a" "rbind (Inl e) f = Inl e"
  by (simp_all add: rbind_def)

lemma rbind_Inr_iff [result_simps]:
  "rbind r f = Inr y \<longleftrightarrow> (\<exists>x. r = Inr x \<and> f x = Inr y)"
  by (cases r) auto

lemma rbind_Inl_iff [result_simps]:
  "rbind r f = Inl e \<longleftrightarrow> r = Inl e \<or> (\<exists>x. r = Inr x \<and> f x = Inl e)"
  by (cases r) auto

lemma require_Inr_iff [result_simps]: "require b e = Inr u \<longleftrightarrow> b"
  by (simp add: require_def)

lemma require_Inl_iff [result_simps]: "require b e = Inl e' \<longleftrightarrow> \<not> b \<and> e' = e"
  by (auto simp: require_def)

lemma map_err_simps [simp]:
  "map_err f (Inr a) = Inr a" "map_err f (Inl e) = Inl (f e)"
  by (simp_all add: map_err_def)

lemma map_err_Inr_iff [result_simps]: "map_err f r = Inr a \<longleftrightarrow> r = Inr a"
  by (cases r) auto

lemma ok_or_simps [simp]: "ok_or (Some a) e = Inr a" "ok_or None e = Inl e"
  by (simp_all add: ok_or_def)

lemma ok_or_Inr_iff [result_simps]: "ok_or x e = Inr a \<longleftrightarrow> x = Some a"
  by (cases x) auto

lemma is_ok_simps [simp]: "is_ok (Inr a)" "\<not> is_ok (Inl e)"
  by (simp_all add: is_ok_def)

lemma is_ok_iff: "is_ok r \<longleftrightarrow> (\<exists>a. r = Inr a)"
  by (cases r) auto

lemma checked_add_Some_iff [result_simps]:
  "checked_add a b = Some c \<longleftrightarrow> c = a + b \<and> a + b \<le> u64_max"
  by (auto simp: checked_add_def)

lemma sat_add_eq: "a + b \<le> u64_max \<Longrightarrow> sat_add a b = a + b"
  by (simp add: sat_add_def)

lemma sat_add_le: "sat_add a b \<le> a + b"
  by (simp add: sat_add_def)

lemma starts_with_append [simp]: "starts_with (pre @ xs) pre"
  by (simp add: starts_with_def)

lemma starts_with_Nil [simp]: "starts_with xs []"
  by (simp add: starts_with_def)

lemma starts_with_iff: "starts_with xs pre \<longleftrightarrow> (\<exists>ys. xs = pre @ ys)"
  by (metis append_take_drop_id starts_with_append starts_with_def)

lemma not_starts_with_Nil [simp]: "pre \<noteq> [] \<Longrightarrow> \<not> starts_with [] pre"
  by (simp add: starts_with_def)

lemma length_be_bytes [simp]: "length (be_bytes k n) = k"
  by (simp add: be_bytes_def)

lemma be_value_append: "be_value (xs @ [b]) = be_value xs * 256 + unat b"
  by (simp add: be_value_def)

lemma be_bytes_Suc: "be_bytes (Suc k) n = be_bytes k (n div 256) @ [of_nat n]"
proof -
  have "[0..<Suc k] = 0 # map Suc [0..<k]"
    by (simp add: upt_conv_Cons map_Suc_upt del: upt_Suc)
  then have "rev [0..<Suc k] = map Suc (rev [0..<k]) @ [0]"
    by (simp add: rev_map del: upt_Suc)
  then show ?thesis
    by (simp add: be_bytes_def div_mult2_eq comp_def del: upt_Suc)
qed

lemma be_bytes_code [code]:
  "be_bytes k n = (if k = 0 then [] else be_bytes (k - 1) (n div 256) @ [of_nat (n mod 256)])"
proof (cases k)
  case (Suc j)
  have "(of_nat n :: u8) = of_nat (n mod 256)" by (simp add: word_unat_eq_iff unat_of_nat)
  then show ?thesis using Suc by (simp add: be_bytes_Suc)
qed (simp add: be_bytes_def)

lemma be_value_be_bytes: "be_value (be_bytes k n) = n mod 256 ^ k"
proof (induction k arbitrary: n)
  case 0
  then show ?case by (simp add: be_bytes_def be_value_def)
next
  case (Suc k)
  have "unat (of_nat n :: u8) = n mod 256"
    by (simp add: unat_of_nat)
  moreover have "n div 256 mod 256 ^ k * 256 + n mod 256 = n mod (256 * 256 ^ k)"
    by (simp add: mod_mult2_eq mult.commute)
  ultimately show ?case
    by (simp add: be_bytes_Suc be_value_append Suc.IH)
qed

lemma be_value_be_bytes_id [simp]: "n < 256 ^ k \<Longrightarrow> be_value (be_bytes k n) = n"
  by (simp add: be_value_be_bytes)

lemma be_value_less: "be_value bs < 256 ^ length bs"
proof (induction bs rule: rev_induct)
  case Nil
  then show ?case by (simp add: be_value_def)
next
  case (snoc b bs)
  have "unat b < 256" using unsigned_less [of b, where 'a = nat] by simp
  moreover have "be_value bs * 256 + 256 \<le> 256 ^ length bs * 256"
    using snoc by (metis Suc_leI add.commute mult_Suc mult_le_mono1)
  ultimately show ?case
    by (simp add: be_value_append mult.commute)
qed

lemma of_char_less_256: "of_char c < (256 :: nat)"
  by (cases c) (simp only: of_char_def char.sel horner_sum_simps of_bool_def; simp)

lemma bytes_str_str_bytes [simp]: "bytes_str (str_bytes s) = s"
  using of_char_less_256
  by (simp add: bytes_str_def str_bytes_def comp_def unat_of_nat)

lemma str_bytes_bytes_str [simp]: "str_bytes (bytes_str b) = b"
  using unsigned_less [where 'a = nat and 'b = 8]
  by (simp add: bytes_str_def str_bytes_def comp_def)

lemma length_str_bytes [simp]: "length (str_bytes s) = length s" "length (bytes_str b) = length b"
  by (simp_all add: str_bytes_def bytes_str_def)

text \<open>Big-endian encodings of one width are ordered like the numbers they encode.\<close>

lemma append_less_append:
  "length xs = length ys \<Longrightarrow>
   xs @ us < ys @ vs \<longleftrightarrow> xs < ys \<or> xs = ys \<and> us < (vs :: 'a::linorder list)"
  by (induction xs ys rule: list_induct2) auto

lemma append_less_append_same [simp]: "xs @ us < xs @ vs \<longleftrightarrow> us < (vs :: 'a::linorder list)"
  by (induction xs) auto

lemma be_bytes_eq_iff: "a < 256 ^ k \<Longrightarrow> b < 256 ^ k \<Longrightarrow> be_bytes k a = be_bytes k b \<longleftrightarrow> a = b"
  by (metis be_value_be_bytes_id)

lemma be_bytes_less_iff: "a < 256 ^ k \<Longrightarrow> b < 256 ^ k \<Longrightarrow> be_bytes k a < be_bytes k b \<longleftrightarrow> a < b"
proof (induction k arbitrary: a b)
  case (Suc k)
  have d: "a div 256 < 256 ^ k" "b div 256 < 256 ^ k"
    using Suc.prems by (simp_all add: less_mult_imp_div_less mult.commute)
  have w: "(of_nat a :: u8) < of_nat b \<longleftrightarrow> a mod 256 < b mod 256"
    by (simp add: word_less_nat_alt unat_of_nat)
  have "a = 256 * (a div 256) + a mod 256" "b = 256 * (b div 256) + b mod 256"
    "a mod 256 < 256" "b mod 256 < 256" by simp_all
  then have "a < b \<longleftrightarrow> a div 256 < b div 256 \<or> a div 256 = b div 256 \<and> a mod 256 < b mod 256"
    by linarith
  then show ?case
    using d by (simp add: be_bytes_Suc append_less_append Suc.IH [OF d] be_bytes_eq_iff [OF d] w)
qed (simp add: be_bytes_def)

lemma byte_mod: "(of_nat (n mod 256) :: 8 word) = of_nat n"
  by (simp add: word_of_nat_eq_iff take_bit_eq_mod)

lemma be_bytes_4:
  "be_bytes 4 n = [of_nat (n div 16777216 mod 256), of_nat (n div 65536 mod 256),
     of_nat (n div 256 mod 256), of_nat (n mod 256)]"
  by (simp add: be_bytes_def upt_rec byte_mod)

lemma be_bytes_8:
  "be_bytes 8 n = [of_nat (n div 72057594037927936 mod 256), of_nat (n div 281474976710656 mod 256),
     of_nat (n div 1099511627776 mod 256), of_nat (n div 4294967296 mod 256),
     of_nat (n div 16777216 mod 256), of_nat (n div 65536 mod 256), of_nat (n div 256 mod 256),
     of_nat (n mod 256)]"
  by (simp add: be_bytes_def upt_rec byte_mod)

text \<open>The checks over \<open>windows(2)\<close> that a list is strictly increasing in a key.\<close>

lemma windows_strict:
  "list_all (\<lambda>(a, b). \<not> f b \<le> (f a :: 'b::linorder)) (zip xs (tl xs)) \<longleftrightarrow>
   sorted_wrt (\<lambda>a b. f a < f b) xs"
proof (induction xs)
  case (Cons x xs)
  then show ?case by (cases xs) (auto simp: not_le intro: less_trans)
qed simp

lemma strict_sort_key_id:
  "sorted_wrt (\<lambda>a b. f a < (f b :: 'b::linorder)) xs \<Longrightarrow> sort_key f xs = xs"
  by (rule sort_key_id_if_sorted) (auto simp: sorted_wrt_map elim: sorted_wrt_mono_rel [rotated])

end
