(* ===== verification/Membership.thy ===== *)
theory Membership
  imports Nb_Prelude
begin

text \<open>
  The versioned cluster membership of \<open>consensus/membership.rs\<close>, the administrative
  intents of \<open>consensus/rpc.rs\<close> and the transition function by which \<open>consensus/raft.rs\<close>
  applies an intent to a configuration.

  A \<open>BTreeSet\<close> of node identifiers is a set; that it is finite is the predicate
  \<open>finite_membership\<close>, which the constructors establish and every transition keeps. An
  error message of the source is a constructor of \<open>membership_error\<close>.

  The lemmas show that every transition yields a validated configuration of the next
  generation, that quorums of one configuration and of adjacent configurations overlap, that
  learners never count, and that a removed identity stays removed.
\<close>

section \<open>Data\<close>

record joint_config =
  old_voters :: "nodeid set"
  new_voters :: "nodeid set"

record cluster_membership =
  format_version :: nat
  generation :: nat
  config_index :: nat
  voters :: "nodeid set"
  learners :: "nodeid set"
  joint :: "joint_config option"
  removed :: "nodeid set"

datatype membership_change =
    AddNode nodeid
  | AddLearner nodeid
  | PromoteLearner nodeid
  | RemoveNode nodeid
  | FinalizeJoint

datatype membership_error =
    UnsupportedFormat nat
  | ZeroGeneration
  | NoVoters
  | VoterIsLearner
  | RemovedActive
  | EmptyJointSet
  | JointOldMismatch
  | JointTombstoned
  | JointLearner
  | NoSeedVoter
  | SeedIsLocal
  | RemovedReuse nodeid
  | AlreadyPresent nodeid
  | NotLearner nodeid
  | NotActive nodeid
  | LastVoter
  | NotJoint
  | AlreadyJoint
  | GenerationOverflow

definition MEMBERSHIP_FORMAT_VERSION :: nat where
  "MEMBERSHIP_FORMAT_VERSION = 1"

section \<open>Operations\<close>

definition validate :: "cluster_membership \<Rightarrow> membership_error + unit" where
  "validate m =
     (if format_version m \<noteq> MEMBERSHIP_FORMAT_VERSION
      then Inl (UnsupportedFormat (format_version m))
      else if generation m = 0 then Inl ZeroGeneration
      else if voters m = {} then Inl NoVoters
      else if voters m \<inter> learners m \<noteq> {} then Inl VoterIsLearner
      else if voters m \<inter> removed m \<noteq> {} \<or> learners m \<inter> removed m \<noteq> {} then Inl RemovedActive
      else case joint m of
        None \<Rightarrow> Inr ()
      | Some j \<Rightarrow>
          if old_voters j = {} \<or> new_voters j = {} then Inl EmptyJointSet
          else if old_voters j \<noteq> voters m then Inl JointOldMismatch
          else if old_voters j \<inter> removed m \<noteq> {} \<or> new_voters j \<inter> removed m \<noteq> {}
          then Inl JointTombstoned
          else if (old_voters j \<union> new_voters j) \<inter> learners m \<noteq> {} then Inl JointLearner
          else Inr ())"

definition bootstrap :: "nodeid \<Rightarrow> nodeid list \<Rightarrow> cluster_membership" where
  "bootstrap local_id peers =
     \<lparr>format_version = MEMBERSHIP_FORMAT_VERSION, generation = 1, config_index = 0,
      voters = insert local_id (set peers), learners = {}, joint = None, removed = {}\<rparr>"

definition bootstrap_learner ::
  "nodeid \<Rightarrow> nodeid list \<Rightarrow> membership_error + cluster_membership" where
  "bootstrap_learner local_id seeds =
     (let vs = set seeds in
      if vs = {} then Inl NoSeedVoter
      else if local_id \<in> vs then Inl SeedIsLocal
      else
        let config =
          \<lparr>format_version = MEMBERSHIP_FORMAT_VERSION, generation = 1, config_index = 0,
           voters = vs, learners = {}, joint = None, removed = {}\<rparr>
        in rbind (validate config) (\<lambda>_. Inr config))"

definition is_joint :: "cluster_membership \<Rightarrow> bool" where
  "is_joint m \<longleftrightarrow> joint m \<noteq> None"

definition is_voter :: "cluster_membership \<Rightarrow> nodeid \<Rightarrow> bool" where
  "is_voter m nid =
     (case joint m of
        Some j \<Rightarrow> nid \<in> old_voters j \<or> nid \<in> new_voters j
      | None \<Rightarrow> nid \<in> voters m)"

definition is_stable_voter :: "cluster_membership \<Rightarrow> nodeid \<Rightarrow> bool" where
  "is_stable_voter m nid \<longleftrightarrow> joint m = None \<and> nid \<in> voters m"

definition is_learner :: "cluster_membership \<Rightarrow> nodeid \<Rightarrow> bool" where
  "is_learner m nid \<longleftrightarrow> nid \<in> learners m"

definition is_removed :: "cluster_membership \<Rightarrow> nodeid \<Rightarrow> bool" where
  "is_removed m nid \<longleftrightarrow> nid \<in> removed m"

definition replication_targets :: "cluster_membership \<Rightarrow> nodeid set" where
  "replication_targets m =
     (case joint m of
        Some j \<Rightarrow> learners m \<union> old_voters j \<union> new_voters j
      | None \<Rightarrow> learners m \<union> voters m)"

definition election_targets :: "cluster_membership \<Rightarrow> nodeid set" where
  "election_targets m =
     (case joint m of
        Some j \<Rightarrow> old_voters j \<union> new_voters j
      | None \<Rightarrow> voters m)"

definition majority :: "nodeid set \<Rightarrow> nat" where
  "majority s = card s div 2 + 1"

definition votes_in :: "nodeid set \<Rightarrow> nodeid set \<Rightarrow> nat" where
  "votes_in s votes = card (s \<inter> votes)"

definition has_vote_quorum :: "cluster_membership \<Rightarrow> nodeid set \<Rightarrow> bool" where
  "has_vote_quorum m votes =
     (case joint m of
        Some j \<Rightarrow>
          votes_in (old_voters j) votes \<ge> majority (old_voters j) \<and>
          votes_in (new_voters j) votes \<ge> majority (new_voters j)
      | None \<Rightarrow> votes_in (voters m) votes \<ge> majority (voters m))"

text \<open>
  The source collects the voters of the match map whose acknowledged index is high enough.
  The model filters the voters instead of the map's entries, which is the same set
  (\<open>replicated_set_eq\<close> below) and can be evaluated.
\<close>

definition replicated_set ::
  "cluster_membership \<Rightarrow> nodeid \<Rightarrow> (nodeid \<rightharpoonup> nat) \<Rightarrow> nat \<Rightarrow> nodeid set" where
  "replicated_set m local_id matches index =
     (if is_voter m local_id then {local_id} else {}) \<union>
     Set.filter (\<lambda>nid. case matches nid of Some k \<Rightarrow> index \<le> k | None \<Rightarrow> False)
       (election_targets m)"

definition has_match_quorum ::
  "cluster_membership \<Rightarrow> nodeid \<Rightarrow> (nodeid \<rightharpoonup> nat) \<Rightarrow> nat \<Rightarrow> bool" where
  "has_match_quorum m local_id matches index =
     has_vote_quorum m (replicated_set m local_id matches index)"

definition require_stable :: "cluster_membership \<Rightarrow> membership_error + unit" where
  "require_stable m =
     rbind (validate m) (\<lambda>_. if joint m \<noteq> None then Inl AlreadyJoint else Inr ())"

definition next_generation :: "cluster_membership \<Rightarrow> membership_error + nat" where
  "next_generation m = ok_or (checked_add (generation m) 1) GenerationOverflow"

definition add_learner ::
  "cluster_membership \<Rightarrow> nodeid \<Rightarrow> nat \<Rightarrow> membership_error + cluster_membership" where
  "add_learner m nid index =
     rbind (require_stable m) (\<lambda>_.
     if is_removed m nid then Inl (RemovedReuse nid)
     else if nid \<in> voters m \<or> nid \<in> learners m then Inl (AlreadyPresent nid)
     else rbind (next_generation m) (\<lambda>g.
       let next = m\<lparr>generation := g, config_index := index, learners := insert nid (learners m)\<rparr>
       in rbind (validate next) (\<lambda>_. Inr next)))"

definition begin_promotion ::
  "cluster_membership \<Rightarrow> nodeid \<Rightarrow> nat \<Rightarrow> membership_error + cluster_membership" where
  "begin_promotion m nid index =
     rbind (require_stable m) (\<lambda>_.
     if nid \<notin> learners m then Inl (NotLearner nid)
     else rbind (next_generation m) (\<lambda>g.
       let next = m\<lparr>generation := g, config_index := index, learners := learners m - {nid},
             joint := Some \<lparr>old_voters = voters m, new_voters = insert nid (voters m)\<rparr>\<rparr>
       in rbind (validate next) (\<lambda>_. Inr next)))"

definition begin_removal ::
  "cluster_membership \<Rightarrow> nodeid \<Rightarrow> nat \<Rightarrow> membership_error + cluster_membership" where
  "begin_removal m nid index =
     rbind (require_stable m) (\<lambda>_.
     if nid \<in> learners m then
       rbind (next_generation m) (\<lambda>g.
         let next = m\<lparr>generation := g, config_index := index, learners := learners m - {nid},
               removed := insert nid (removed m)\<rparr>
         in rbind (validate next) (\<lambda>_. Inr next))
     else if nid \<notin> voters m then Inl (NotActive nid)
     else if card (voters m) \<le> 1 then Inl LastVoter
     else
       rbind (next_generation m) (\<lambda>g.
         let next = m\<lparr>generation := g, config_index := index,
               joint := Some \<lparr>old_voters = voters m, new_voters = voters m - {nid}\<rparr>\<rparr>
         in rbind (validate next) (\<lambda>_. Inr next)))"

definition finalize_joint ::
  "cluster_membership \<Rightarrow> nat \<Rightarrow> membership_error + cluster_membership" where
  "finalize_joint m index =
     rbind (ok_or (joint m) NotJoint) (\<lambda>j.
     rbind (next_generation m) (\<lambda>g.
       let next = m\<lparr>generation := g, config_index := index, voters := new_voters j,
             removed := removed m \<union> (old_voters j - new_voters j), joint := None\<rparr>
       in rbind (validate next) (\<lambda>_. Inr next)))"

fun transition_membership ::
  "cluster_membership \<Rightarrow> membership_change \<Rightarrow> nat \<Rightarrow> membership_error + cluster_membership"
where
  "transition_membership base (AddNode nid) index = add_learner base nid index"
| "transition_membership base (AddLearner nid) index = add_learner base nid index"
| "transition_membership base (PromoteLearner nid) index = begin_promotion base nid index"
| "transition_membership base (RemoveNode nid) index = begin_removal base nid index"
| "transition_membership base FinalizeJoint index = finalize_joint base index"

text \<open>A sequence of intents, each with the log index of its entry, applied in order.\<close>

fun run_transitions ::
  "cluster_membership \<Rightarrow> (membership_change \<times> nat) list \<Rightarrow> membership_error + cluster_membership"
where
  "run_transitions m [] = Inr m"
| "run_transitions m ((ch, i) # cs) =
     rbind (transition_membership m ch i) (\<lambda>m'. run_transitions m' cs)"

section \<open>Well-formedness\<close>

definition finite_membership :: "cluster_membership \<Rightarrow> bool" where
  "finite_membership m \<longleftrightarrow>
     finite (voters m) \<and> finite (learners m) \<and> finite (removed m) \<and>
     (case joint m of None \<Rightarrow> True | Some j \<Rightarrow> finite (old_voters j) \<and> finite (new_voters j))"

definition membership_ok :: "cluster_membership \<Rightarrow> bool" where
  "membership_ok m \<longleftrightarrow> finite_membership m \<and> validate m = Inr ()"

section \<open>Validation and transitions\<close>

lemma validate_ok_iff:
  "validate m = Inr u \<longleftrightarrow>
     format_version m = MEMBERSHIP_FORMAT_VERSION \<and> generation m \<noteq> 0 \<and> voters m \<noteq> {} \<and>
     voters m \<inter> learners m = {} \<and> voters m \<inter> removed m = {} \<and> learners m \<inter> removed m = {} \<and>
     (case joint m of
        None \<Rightarrow> True
      | Some j \<Rightarrow> new_voters j \<noteq> {} \<and> old_voters j = voters m \<and> new_voters j \<inter> removed m = {} \<and>
          new_voters j \<inter> learners m = {})"
  unfolding validate_def
  by (cases "joint m") (auto simp: Int_Un_distrib2 split: if_splits)

lemma require_stable_ok_iff [result_simps]:
  "require_stable m = Inr u \<longleftrightarrow> validate m = Inr () \<and> joint m = None"
  by (auto simp: require_stable_def result_simps)

lemma next_generation_ok_iff [result_simps]:
  "next_generation m = Inr g \<longleftrightarrow> g = generation m + 1 \<and> generation m < u64_max"
  by (auto simp: next_generation_def result_simps)

lemma validate_add_learner:
  "validate m = Inr u \<Longrightarrow> joint m = None \<Longrightarrow> nid \<notin> removed m \<Longrightarrow> nid \<notin> voters m \<Longrightarrow>
   validate (m\<lparr>generation := Suc g, config_index := i, learners := insert nid (learners m)\<rparr>) = Inr ()"
  by (simp add: validate_ok_iff)

lemma validate_begin_promotion:
  "validate m = Inr u \<Longrightarrow> joint m = None \<Longrightarrow> nid \<in> learners m \<Longrightarrow>
   validate (m\<lparr>generation := Suc g, config_index := i, learners := learners m - {nid},
     joint := Some \<lparr>old_voters = voters m, new_voters = insert nid (voters m)\<rparr>\<rparr>) = Inr ()"
  by (simp add: validate_ok_iff) blast

lemma validate_remove_learner:
  "validate m = Inr u \<Longrightarrow> joint m = None \<Longrightarrow> nid \<in> learners m \<Longrightarrow>
   validate (m\<lparr>generation := Suc g, config_index := i, learners := learners m - {nid},
     removed := insert nid (removed m)\<rparr>) = Inr ()"
  by (simp add: validate_ok_iff) blast

lemma validate_begin_removal:
  assumes "validate m = Inr u" "joint m = None" "1 < card (voters m)"
  shows "validate (m\<lparr>generation := Suc g, config_index := i,
     joint := Some \<lparr>old_voters = voters m, new_voters = voters m - {nid}\<rparr>\<rparr>) = Inr ()"
proof -
  have "voters m - {nid} \<noteq> {}"
    using assms(3) card_mono [of "{nid}" "voters m"] by auto
  with assms(1,2) show ?thesis
    by (simp add: validate_ok_iff) blast
qed

lemma add_learner_ok_iff:
  "add_learner m nid index = Inr m' \<longleftrightarrow>
     validate m = Inr () \<and> joint m = None \<and> generation m < u64_max \<and>
     nid \<notin> removed m \<and> nid \<notin> voters m \<and> nid \<notin> learners m \<and>
     m' = m\<lparr>generation := generation m + 1, config_index := index,
             learners := insert nid (learners m)\<rparr>"
  by (auto simp: add_learner_def is_removed_def Let_def result_simps validate_add_learner)

lemma begin_promotion_ok_iff:
  "begin_promotion m nid index = Inr m' \<longleftrightarrow>
     validate m = Inr () \<and> joint m = None \<and> generation m < u64_max \<and> nid \<in> learners m \<and>
     m' = m\<lparr>generation := generation m + 1, config_index := index,
             learners := learners m - {nid},
             joint := Some \<lparr>old_voters = voters m, new_voters = insert nid (voters m)\<rparr>\<rparr>"
  by (auto simp: begin_promotion_def Let_def result_simps validate_begin_promotion)

lemma begin_removal_ok_iff:
  "begin_removal m nid index = Inr m' \<longleftrightarrow>
     validate m = Inr () \<and> joint m = None \<and> generation m < u64_max \<and>
     (if nid \<in> learners m then
        m' = m\<lparr>generation := generation m + 1, config_index := index,
                learners := learners m - {nid}, removed := insert nid (removed m)\<rparr>
      else nid \<in> voters m \<and> 1 < card (voters m) \<and>
        m' = m\<lparr>generation := generation m + 1, config_index := index,
                joint := Some \<lparr>old_voters = voters m, new_voters = voters m - {nid}\<rparr>\<rparr>)"
  by (auto simp: begin_removal_def Let_def result_simps validate_remove_learner
      validate_begin_removal)

lemma finalize_joint_ok_iff:
  "finalize_joint m index = Inr m' \<longleftrightarrow>
     (\<exists>j. joint m = Some j \<and> generation m < u64_max \<and>
        m' = m\<lparr>generation := generation m + 1, config_index := index, voters := new_voters j,
                removed := removed m \<union> (old_voters j - new_voters j), joint := None\<rparr> \<and>
        validate m' = Inr ())"
  by (auto simp: finalize_joint_def Let_def result_simps)

lemmas transition_ok_iffs =
  add_learner_ok_iff begin_promotion_ok_iff begin_removal_ok_iff finalize_joint_ok_iff

lemma finite_transition:
  assumes "transition_membership m ch i = Inr m'" "finite_membership m"
  shows "finite_membership m'"
  using assms
  by (cases ch)
    (auto simp: transition_ok_iffs finite_membership_def split: if_splits option.splits)

lemma transition_shape:
  assumes "transition_membership m ch i = Inr m'"
  shows "validate m' = Inr () \<and> generation m' = Suc (generation m) \<and> config_index m' = i \<and>
    removed m \<subseteq> removed m'"
  using assms
  by (cases ch)
    (auto simp: transition_ok_iffs validate_add_learner validate_begin_promotion
      validate_remove_learner validate_begin_removal split: if_splits)

lemma run_transitions_shape:
  assumes "run_transitions m cs = Inr m'" "validate m = Inr ()"
  shows "validate m' = Inr () \<and> generation m' = generation m + length cs \<and> removed m \<subseteq> removed m'"
  using assms
proof (induction cs arbitrary: m)
  case Nil
  then show ?case by simp
next
  case (Cons c cs)
  obtain ch i where c: "c = (ch, i)" by (cases c)
  from Cons.prems(1) obtain m1 where
    m1: "transition_membership m ch i = Inr m1" "run_transitions m1 cs = Inr m'"
    by (auto simp: c result_simps)
  from transition_shape [OF m1(1)] have
    s: "validate m1 = Inr ()" "generation m1 = Suc (generation m)" "removed m \<subseteq> removed m1"
    by simp_all
  from Cons.IH [OF m1(2) s(1)] s show ?case by auto
qed

lemma valid_removed_inactive:
  assumes "validate m = Inr ()" "nid \<in> removed m"
  shows "\<not> is_voter m nid \<and> \<not> is_learner m nid \<and> nid \<notin> replication_targets m"
  using assms
  by (auto simp: validate_ok_iff is_voter_def is_learner_def replication_targets_def
      split: option.splits)

lemma is_voter_election_target: "is_voter m nid \<longleftrightarrow> nid \<in> election_targets m"
  by (simp add: is_voter_def election_targets_def split: option.split)

lemma replicated_set_eq:
  "replicated_set m local_id matches index =
     {nid. is_voter m nid \<and> (nid = local_id \<or> (\<exists>k. matches nid = Some k \<and> index \<le> k))}"
  by (auto simp: replicated_set_def is_voter_election_target split: option.splits)

section \<open>Quorums\<close>

text \<open>
  What the consensus protocol needs of a family of configurations: two quorums of one
  configuration share an elector, and only the electors' votes matter.
\<close>

locale quorum_family =
  fixes config_ok :: "'c \<Rightarrow> bool"
    and electorate :: "'c \<Rightarrow> 'n set"
    and quorum :: "'c \<Rightarrow> 'n set \<Rightarrow> bool"
  assumes overlap: "config_ok c \<Longrightarrow> quorum c q \<Longrightarrow> quorum c q' \<Longrightarrow> electorate c \<inter> q \<inter> q' \<noteq> {}"
    and electors_only: "quorum c q \<longleftrightarrow> quorum c (electorate c \<inter> q)"
    and upward: "config_ok c \<Longrightarrow> quorum c q \<Longrightarrow> q \<subseteq> q' \<Longrightarrow> quorum c q'"
begin

lemma nonempty: "config_ok c \<Longrightarrow> quorum c q \<Longrightarrow> electorate c \<inter> q \<noteq> {}"
  using overlap [of c q q] by auto

lemma unique_winner:
  assumes "config_ok c" "quorum c q" "quorum c q'"
    and "\<And>v. v \<in> electorate c \<Longrightarrow> v \<in> q \<Longrightarrow> ballot v = Some a"
    and "\<And>v. v \<in> electorate c \<Longrightarrow> v \<in> q' \<Longrightarrow> ballot v = Some b"
  shows "a = b"
proof -
  from overlap [OF assms(1-3)] obtain v where "v \<in> electorate c" "v \<in> q" "v \<in> q'"
    by auto
  then have "ballot v = Some a" and "ballot v = Some b"
    using assms(4,5) by blast+
  then show ?thesis by simp
qed

end

lemma majority_overlap:
  assumes "finite s" "votes_in s q \<ge> majority s" "votes_in s q' \<ge> majority s"
  shows "s \<inter> q \<inter> q' \<noteq> {}"
proof
  assume "s \<inter> q \<inter> q' = {}"
  then have "card ((s \<inter> q) \<union> (s \<inter> q')) = card (s \<inter> q) + card (s \<inter> q')"
    using assms(1) by (intro card_Un_disjoint) auto
  moreover have "card ((s \<inter> q) \<union> (s \<inter> q')) \<le> card s"
    using assms(1) by (intro card_mono) auto
  ultimately have "card (s \<inter> q) + card (s \<inter> q') \<le> card s" by simp
  then show False
    using assms(2,3) by (simp add: votes_in_def majority_def)
qed

lemma votes_in_mono: "finite s \<Longrightarrow> q \<subseteq> q' \<Longrightarrow> votes_in s q \<le> votes_in s q'"
  unfolding votes_in_def by (intro card_mono) auto

lemma votes_in_restrict: "s \<subseteq> t \<Longrightarrow> votes_in s (t \<inter> q) = votes_in s q"
  unfolding votes_in_def by (metis Int_absorb2 Int_assoc Int_commute)

lemma quorum_old:
  "has_vote_quorum m q \<Longrightarrow> joint m = Some j \<Longrightarrow> votes_in (old_voters j) q \<ge> majority (old_voters j)"
  by (simp add: has_vote_quorum_def)

lemma quorum_new:
  "has_vote_quorum m q \<Longrightarrow> joint m = Some j \<Longrightarrow> votes_in (new_voters j) q \<ge> majority (new_voters j)"
  by (simp add: has_vote_quorum_def)

lemma quorum_stable:
  "has_vote_quorum m q \<Longrightarrow> joint m = None \<Longrightarrow> votes_in (voters m) q \<ge> majority (voters m)"
  by (simp add: has_vote_quorum_def)

lemma has_vote_quorum_overlap:
  assumes "finite_membership m" "has_vote_quorum m q" "has_vote_quorum m q'"
  shows "election_targets m \<inter> q \<inter> q' \<noteq> {}"
proof (cases "joint m")
  case None
  with assms show ?thesis
    using majority_overlap [of "voters m" q q']
    by (auto simp: finite_membership_def election_targets_def dest: quorum_stable)
next
  case (Some j)
  with assms show ?thesis
    using majority_overlap [of "old_voters j" q q']
    by (auto simp: finite_membership_def election_targets_def dest: quorum_old)
qed

lemma has_vote_quorum_electors:
  "has_vote_quorum m q \<longleftrightarrow> has_vote_quorum m (election_targets m \<inter> q)"
  by (auto simp: has_vote_quorum_def election_targets_def votes_in_restrict split: option.splits)

lemma has_vote_quorum_mono:
  assumes "finite_membership m" "has_vote_quorum m q" "q \<subseteq> q'"
  shows "has_vote_quorum m q'"
proof (cases "joint m")
  case None
  with assms show ?thesis
    using votes_in_mono [of "voters m" q q']
    by (auto simp: finite_membership_def has_vote_quorum_def)
next
  case (Some j)
  with assms show ?thesis
    using votes_in_mono [of "old_voters j" q q'] votes_in_mono [of "new_voters j" q q']
    by (auto simp: finite_membership_def has_vote_quorum_def)
qed

interpretation cluster_quorum: quorum_family finite_membership election_targets has_vote_quorum
proof (unfold_locales, goal_cases)
  case (1 c q q')
  then show ?case by (rule has_vote_quorum_overlap)
next
  case (2 c q)
  show ?case by (rule has_vote_quorum_electors)
next
  case (3 c q q')
  then show ?case by (rule has_vote_quorum_mono)
qed

lemma voters_transition:
  assumes "transition_membership m ch i = Inr m'"
  shows "(joint m \<noteq> None \<and> joint m' = None \<and> voters m' = new_voters (the (joint m))) \<or>
    (joint m = None \<and> joint m' = None \<and> voters m' = voters m) \<or>
    (joint m = None \<and> joint m' \<noteq> None \<and> old_voters (the (joint m')) = voters m)"
  using assms
  by (cases ch) (auto simp: transition_ok_iffs split: if_splits)

lemma adjacent_overlap:
  assumes step: "transition_membership m ch i = Inr m'" and fin: "finite_membership m"
    and q: "has_vote_quorum m q" and q': "has_vote_quorum m' q'"
  shows "q \<inter> q' \<noteq> {}"
proof -
  from voters_transition [OF step] consider
      (final) j where "joint m = Some j" "joint m' = None" "voters m' = new_voters j"
    | (same) "joint m = None" "joint m' = None" "voters m' = voters m"
    | (enter) j where "joint m = None" "joint m' = Some j" "old_voters j = voters m"
    by fastforce
  then show ?thesis
  proof cases
    case final
    then have "finite (new_voters j)" using fin by (simp add: finite_membership_def)
    then have "new_voters j \<inter> q \<inter> q' \<noteq> {}"
      using quorum_new [OF q final(1)] quorum_stable [OF q' final(2)]
      by (intro majority_overlap) (simp_all add: final)
    then show ?thesis by blast
  next
    case same
    have "finite (voters m)" using fin by (simp add: finite_membership_def)
    then have "voters m \<inter> q \<inter> q' \<noteq> {}"
      using quorum_stable [OF q same(1)] quorum_stable [OF q' same(2)]
      by (intro majority_overlap) (simp_all add: same)
    then show ?thesis by blast
  next
    case enter
    have "finite (voters m)" using fin by (simp add: finite_membership_def)
    then have "voters m \<inter> q \<inter> q' \<noteq> {}"
      using quorum_stable [OF q enter(1)] quorum_old [OF q' enter(2)]
      by (intro majority_overlap) (simp_all add: enter)
    then show ?thesis by blast
  qed
qed

lemma finalize_joint_succeeds:
  assumes "validate m = Inr ()" "joint m = Some j" "generation m < u64_max"
  shows "finalize_joint m i =
    Inr (m\<lparr>generation := generation m + 1, config_index := i, voters := new_voters j,
      removed := removed m \<union> (old_voters j - new_voters j), joint := None\<rparr>)"
proof -
  let ?m' = "m\<lparr>generation := generation m + 1, config_index := i, voters := new_voters j,
    removed := removed m \<union> (old_voters j - new_voters j), joint := None\<rparr>"
  have "validate ?m' = Inr ()"
    using assms by (simp add: validate_ok_iff) blast
  then show ?thesis
    using assms by (simp add: finalize_joint_ok_iff)
qed

section \<open>Properties\<close>

text \<open>C33. Every membership transition that succeeds, whatever the administrative intent, yields
  a finite configuration that passes validation, belongs to the next generation, records
  the index of its log entry, and forgets no removed identity.
\<close>

theorem transition_sound:
  assumes "membership_ok m" "transition_membership m ch i = Inr m'"
  shows "membership_ok m' \<and> generation m' = Suc (generation m) \<and> config_index m' = i \<and>
    removed m \<subseteq> removed m'"
  using assms finite_transition transition_shape
  by (metis membership_ok_def)

theorem transition_sound_witness:
  "let m = bootstrap ''n1'' [''n2'', ''n3'']; m' = m\<lparr>generation := 2, config_index := 7,
       learners := {''n4''}\<rparr>
   in membership_ok m \<and> transition_membership m (AddLearner ''n4'') 7 = Inr m' \<and> membership_ok m'"
proof -
  let ?m = "bootstrap ''n1'' [''n2'', ''n3'']"
  have ok: "membership_ok ?m"
    by (simp add: membership_ok_def finite_membership_def validate_ok_iff bootstrap_def
        MEMBERSHIP_FORMAT_VERSION_def)
  have st: "transition_membership ?m (AddLearner ''n4'') 7 =
      Inr (?m\<lparr>generation := 2, config_index := 7, learners := {''n4''}\<rparr>)"
    by (simp add: add_learner_ok_iff validate_ok_iff bootstrap_def MEMBERSHIP_FORMAT_VERSION_def
        u64_max_def)
  show ?thesis
    using ok st transition_sound [OF ok st] by (simp add: Let_def)
qed

text \<open>C2. Changing the configuration never opens a gap between majorities: a quorum of a
  configuration and a quorum of the configuration any single transition makes of it share a
  member, so an election or commit decided under one is seen under the other.
\<close>

theorem adjacent_quorums_overlap:
  assumes "membership_ok m" "transition_membership m ch i = Inr m'"
    and "has_vote_quorum m q" "has_vote_quorum m' q'"
  shows "q \<inter> q' \<noteq> {}"
  using assms adjacent_overlap by (simp add: membership_ok_def)

theorem adjacent_quorums_overlap_witness:
  "let m = bootstrap ''n1'' [''n2'', ''n3''];
       m' = m\<lparr>generation := 2, config_index := 10,
              joint := Some \<lparr>old_voters = {''n1'', ''n2'', ''n3''}, new_voters = {''n1'', ''n2''}\<rparr>\<rparr>
   in transition_membership m (RemoveNode ''n3'') 10 = Inr m' \<and>
      has_vote_quorum m {''n2'', ''n3''} \<and> has_vote_quorum m' {''n1'', ''n2''} \<and>
      {''n2'', ''n3''} \<inter> {''n1'', ''n2''} \<noteq> {}"
proof -
  let ?m = "bootstrap ''n1'' [''n2'', ''n3'']"
  let ?m' = "?m\<lparr>generation := 2, config_index := 10,
    joint := Some \<lparr>old_voters = {''n1'', ''n2'', ''n3''}, new_voters = {''n1'', ''n2''}\<rparr>\<rparr>"
  have ok: "membership_ok ?m"
    by (simp add: membership_ok_def finite_membership_def validate_ok_iff bootstrap_def
        MEMBERSHIP_FORMAT_VERSION_def)
  have st: "transition_membership ?m (RemoveNode ''n3'') 10 = Inr ?m'"
    by (auto simp: begin_removal_ok_iff validate_ok_iff bootstrap_def
        MEMBERSHIP_FORMAT_VERSION_def u64_max_def)
  have q: "has_vote_quorum ?m {''n2'', ''n3''}" "has_vote_quorum ?m' {''n1'', ''n2''}"
    by code_simp+
  show ?thesis
    using st q adjacent_quorums_overlap [OF ok st q] by (simp add: Let_def)
qed

text \<open>Removed identities are tombstoned for good: after any further sequence of membership
  changes a removed node is neither voter nor learner nor replication target, and adding it
  again is refused.
\<close>

theorem removed_forever:
  assumes "validate m = Inr ()" "nid \<in> removed m" "run_transitions m cs = Inr m'"
  shows "\<not> is_voter m' nid \<and> \<not> is_learner m' nid \<and> nid \<notin> replication_targets m' \<and>
    \<not> is_ok (add_learner m' nid i)"
proof -
  from run_transitions_shape [OF assms(3,1)] assms(2)
  have m': "validate m' = Inr ()" "nid \<in> removed m'" by auto
  then have "\<not> is_ok (add_learner m' nid i)"
    by (simp add: is_ok_iff add_learner_ok_iff)
  with valid_removed_inactive [OF m'] show ?thesis by simp
qed

theorem removed_forever_witness:
  "let m = (bootstrap ''n1'' [''n2''])\<lparr>generation := 3, config_index := 11, removed := {''n3''}\<rparr>
   in validate m = Inr () \<and> ''n3'' \<in> removed m \<and>
      (case run_transitions m [(AddLearner ''n5'', 12), (PromoteLearner ''n5'', 13), (FinalizeJoint, 14)] of
         Inl _ \<Rightarrow> False
       | Inr m' \<Rightarrow> voters m' = {''n1'', ''n2'', ''n5''} \<and> \<not> is_voter m' ''n3'' \<and>
           \<not> is_ok (add_learner m' ''n3'' 15))"
proof -
  let ?m = "(bootstrap ''n1'' [''n2''])\<lparr>generation := 3, config_index := 11, removed := {''n3''}\<rparr>"
  let ?cs = "[(AddLearner ''n5'', 12), (PromoteLearner ''n5'', 13), (FinalizeJoint, 14)]"
  have v: "validate ?m = Inr ()" by code_simp
  have r: "(case run_transitions ?m ?cs of Inl _ \<Rightarrow> False | Inr m \<Rightarrow> voters m = {''n1'', ''n2'', ''n5''})"
    by code_simp
  have "\<not> is_voter m' ''n3'' \<and> \<not> is_ok (add_learner m' ''n3'' 15)"
    if "run_transitions ?m ?cs = Inr m'" for m'
    using removed_forever [OF v _ that, of "''n3''" 15] by simp
  with v r show ?thesis
    by (simp add: Let_def split: sum.splits)
qed

text \<open>Learners never contribute to a quorum: in a validated configuration, adding or
  dropping the votes of learners, of removed nodes and of strangers changes nothing.
\<close>

theorem only_voters_count:
  assumes "validate m = Inr ()" "extra \<subseteq> learners m \<union> removed m \<union> - replication_targets m"
  shows "has_vote_quorum m (q \<union> extra) \<longleftrightarrow> has_vote_quorum m q"
proof -
  have "election_targets m \<inter> learners m = {}"
    using assms(1) by (cases "joint m") (auto simp: election_targets_def validate_ok_iff)
  moreover have "election_targets m \<inter> removed m = {}"
    using valid_removed_inactive [OF assms(1)] by (auto simp: is_voter_election_target)
  moreover have "election_targets m \<subseteq> replication_targets m"
    by (auto simp: election_targets_def replication_targets_def split: option.splits)
  ultimately have "election_targets m \<inter> extra = {}"
    using assms(2) by blast
  then have "election_targets m \<inter> (q \<union> extra) = election_targets m \<inter> q" by auto
  then show ?thesis
    using has_vote_quorum_electors by metis
qed

theorem only_voters_count_witness:
  "let m = (bootstrap ''n1'' [''n2'', ''n3''])\<lparr>learners := {''n4'', ''n5''}\<rparr>
   in validate m = Inr () \<and> {''n4'', ''n5''} \<subseteq> learners m \<and>
      (has_vote_quorum m ({''n1''} \<union> {''n4'', ''n5''}) \<longleftrightarrow> has_vote_quorum m {''n1''}) \<and>
      \<not> has_vote_quorum m {''n1''}"
proof -
  let ?m = "(bootstrap ''n1'' [''n2'', ''n3''])\<lparr>learners := {''n4'', ''n5''}\<rparr>"
  have v: "validate ?m = Inr ()" by code_simp
  have n: "\<not> has_vote_quorum ?m {''n1''}" by code_simp
  show ?thesis
    using v n only_voters_count [OF v, of "{''n4'', ''n5''}" "{''n1''}"] by (simp add: Let_def)
qed

text \<open>A joint configuration is never a dead end: from every validated joint configuration
  (below the generation bound) \<open>finalize_joint\<close> succeeds, and it leaves the joint
  state with exactly the new voters.
\<close>

theorem joint_can_finish:
  assumes "validate m = Inr ()" "joint m = Some j" "generation m < u64_max"
  shows "case finalize_joint m i of
      Inl _ \<Rightarrow> False
    | Inr m' \<Rightarrow> \<not> is_joint m' \<and> voters m' = new_voters j \<and>
        removed m' = removed m \<union> (old_voters j - new_voters j)"
  using finalize_joint_succeeds [OF assms, of i] by (simp add: is_joint_def)

theorem joint_can_finish_witness:
  "let j = \<lparr>old_voters = {''n1'', ''n2''}, new_voters = {''n1''}\<rparr>;
       m = (bootstrap ''n1'' [''n2''])\<lparr>generation := 2, joint := Some j\<rparr>
   in validate m = Inr () \<and>
      (case finalize_joint m 9 of Inl _ \<Rightarrow> False | Inr m' \<Rightarrow> voters m' = {''n1''})"
proof -
  let ?j = "\<lparr>old_voters = {''n1'', ''n2''}, new_voters = {''n1''}\<rparr>"
  let ?m = "(bootstrap ''n1'' [''n2''])\<lparr>generation := 2, joint := Some ?j\<rparr>"
  have v: "validate ?m = Inr ()" by code_simp
  have g: "generation ?m < u64_max" by (simp add: u64_max_def)
  show ?thesis
    using v joint_can_finish [OF v _ g, of ?j 9] by (simp add: Let_def split: sum.splits)
qed

end
