(* ===== verification/Raft_Log.thy ===== *)
theory Raft_Log
  imports Membership
begin

text \<open>
  The Raft log and stable storage of \<open>consensus/log.rs\<close>: the log entry of
  \<open>consensus/rpc.rs\<close>, \<open>PersistentState\<close> with its snapshot-relative index arithmetic, the
  staged-snapshot record, and the in-memory store. The trait \<open>RaftPersistenceStore\<close> is the
  locale \<open>persistence_store\<close>; the in-memory store interprets it.

  \<open>entry_at\<close> reads a log as a partial map from Raft indices to entries. The lemmas show
  that each operation on the vector is the corresponding operation on that map, and that
  the layout invariant \<open>log_ok\<close> (a sentinel at the snapshot boundary, consecutive indices
  above it) is kept.
\<close>

section \<open>Data\<close>

record log_entry =
  le_term :: nat
  le_index :: nat
  le_command :: bytes

record persistent_state =
  current_term :: nat
  voted_for :: "nodeid option"
  ps_log :: "log_entry list"
  snapshot_index :: nat
  snapshot_term :: nat
  membership :: "cluster_membership option"

datatype staged_kind = Creation | Installation

record staged_snapshot =
  st_kind :: staged_kind
  st_index :: nat
  st_term :: nat
  st_data :: bytes

record mem_store =
  ms_active :: "(persistent_state \<times> bytes) option"
  ms_staged :: "staged_snapshot option"

section \<open>Operations on the persistent state\<close>

definition ps_new :: persistent_state where
  "ps_new = \<lparr>current_term = 0, voted_for = None,
     ps_log = [\<lparr>le_term = 0, le_index = 0, le_command = []\<rparr>],
     snapshot_index = 0, snapshot_term = 0, membership = None\<rparr>"

definition last_log_index :: "persistent_state \<Rightarrow> nat" where
  "last_log_index s = snapshot_index s + length (ps_log s) - 1"

definition last_log_term :: "persistent_state \<Rightarrow> nat" where
  "last_log_term s = (if ps_log s = [] then 0 else le_term (last (ps_log s)))"

definition term_at :: "persistent_state \<Rightarrow> nat \<Rightarrow> nat" where
  "term_at s index =
     (if index < snapshot_index s then 0
      else let physical = index - snapshot_index s in
        if physical < length (ps_log s) then le_term (ps_log s ! physical) else 0)"

definition log_append :: "persistent_state \<Rightarrow> nat \<Rightarrow> bytes \<Rightarrow> persistent_state \<times> nat" where
  "log_append s term command =
     (let index = snapshot_index s + length (ps_log s) in
      (s\<lparr>ps_log := ps_log s @ [\<lparr>le_term = term, le_index = index, le_command = command\<rparr>]\<rparr>,
       index))"

definition truncate_and_append ::
  "persistent_state \<Rightarrow> nat \<Rightarrow> log_entry list \<Rightarrow> persistent_state" where
  "truncate_and_append s prev_log_index entries =
     (let physical_keep =
        (if snapshot_index s \<le> prev_log_index then prev_log_index - snapshot_index s + 1 else 1)
      in s\<lparr>ps_log := take physical_keep (ps_log s) @ entries\<rparr>)"

definition entries_from :: "persistent_state \<Rightarrow> nat \<Rightarrow> log_entry list" where
  "entries_from s from =
     (let physical = (if snapshot_index s < from then from - snapshot_index s else 1) in
      if length (ps_log s) \<le> physical then [] else drop physical (ps_log s))"

definition install_snapshot :: "persistent_state \<Rightarrow> nat \<Rightarrow> nat \<Rightarrow> persistent_state" where
  "install_snapshot s last_included_index last_included_term =
     (let sentinel = \<lparr>le_term = last_included_term, le_index = last_included_index,
            le_command = []\<rparr>;
          boundary_matches = (snapshot_index s \<le> last_included_index \<and>
            last_included_index \<le> last_log_index s \<and>
            term_at s last_included_index = last_included_term);
          retained = (if boundary_matches \<and> last_included_index < last_log_index s
            then drop (last_included_index - snapshot_index s + 1) (ps_log s) else [])
      in s\<lparr>ps_log := sentinel # retained, snapshot_index := last_included_index,
           snapshot_term := last_included_term\<rparr>)"

section \<open>The in-memory store\<close>

definition mem_new :: mem_store where
  "mem_new = \<lparr>ms_active = None, ms_staged = None\<rparr>"

definition mem_save :: "persistent_state \<Rightarrow> bytes \<Rightarrow> mem_store \<Rightarrow> string + mem_store" where
  "mem_save state snapshot d = Inr (d\<lparr>ms_active := Some (state, snapshot), ms_staged := None\<rparr>)"

definition mem_stage_snapshot :: "staged_snapshot \<Rightarrow> mem_store \<Rightarrow> string + mem_store" where
  "mem_stage_snapshot snapshot d = Inr (d\<lparr>ms_staged := Some snapshot\<rparr>)"

definition mem_load_staged_snapshot :: "mem_store \<Rightarrow> string + staged_snapshot option" where
  "mem_load_staged_snapshot d = Inr (ms_staged d)"

definition mem_clear_staged_snapshot :: "mem_store \<Rightarrow> string + mem_store" where
  "mem_clear_staged_snapshot d = Inr (d\<lparr>ms_staged := None\<rparr>)"

definition mem_load :: "mem_store \<Rightarrow> string + (persistent_state \<times> bytes) option" where
  "mem_load d = Inr (ms_active d)"

section \<open>The layout invariant and the abstract log\<close>

definition log_ok :: "persistent_state \<Rightarrow> bool" where
  "log_ok s \<longleftrightarrow> ps_log s \<noteq> [] \<and> le_term (hd (ps_log s)) = snapshot_term s \<and>
     (\<forall>i < length (ps_log s). le_index (ps_log s ! i) = snapshot_index s + i)"

definition entry_at :: "persistent_state \<Rightarrow> nat \<Rightarrow> log_entry option" where
  "entry_at s i =
     (if snapshot_index s < i \<and> i \<le> last_log_index s
      then Some (ps_log s ! (i - snapshot_index s)) else None)"

text \<open>Entries as a leader sends them: consecutive indices that start above \<open>prev\<close>.\<close>

definition consecutive :: "nat \<Rightarrow> log_entry list \<Rightarrow> bool" where
  "consecutive prev es \<longleftrightarrow> (\<forall>k < length es. le_index (es ! k) = prev + 1 + k)"

section \<open>Lemmas\<close>

lemma log_ok_new [simp]: "log_ok ps_new"
  by (simp add: log_ok_def ps_new_def)

lemma last_log_index_new [simp]: "last_log_index ps_new = 0" "last_log_term ps_new = 0"
  by (simp_all add: last_log_index_def last_log_term_def ps_new_def)

lemma log_ok_nonempty: "log_ok s \<Longrightarrow> ps_log s \<noteq> []"
  by (simp add: log_ok_def)

lemma length_log: "log_ok s \<Longrightarrow> length (ps_log s) = last_log_index s - snapshot_index s + 1"
  by (cases "ps_log s") (simp_all add: log_ok_def last_log_index_def)

lemma snapshot_le_last: "log_ok s \<Longrightarrow> snapshot_index s \<le> last_log_index s"
  by (cases "ps_log s") (simp_all add: log_ok_def last_log_index_def)

lemma log_append_fields [simp]:
  "snd (log_append s t c) = snapshot_index s + length (ps_log s)"
  "current_term (fst (log_append s t c)) = current_term s"
  "voted_for (fst (log_append s t c)) = voted_for s"
  "snapshot_index (fst (log_append s t c)) = snapshot_index s"
  "snapshot_term (fst (log_append s t c)) = snapshot_term s"
  "membership (fst (log_append s t c)) = membership s"
  "ps_log (fst (log_append s t c)) =
     ps_log s @ [\<lparr>le_term = t, le_index = snapshot_index s + length (ps_log s), le_command = c\<rparr>]"
  by (simp_all add: log_append_def Let_def)

lemma truncate_and_append_fields [simp]:
  "current_term (truncate_and_append s p es) = current_term s"
  "voted_for (truncate_and_append s p es) = voted_for s"
  "snapshot_index (truncate_and_append s p es) = snapshot_index s"
  "snapshot_term (truncate_and_append s p es) = snapshot_term s"
  "membership (truncate_and_append s p es) = membership s"
  by (simp_all add: truncate_and_append_def Let_def)

lemma install_snapshot_fields [simp]:
  "current_term (install_snapshot s n t) = current_term s"
  "voted_for (install_snapshot s n t) = voted_for s"
  "snapshot_index (install_snapshot s n t) = n"
  "snapshot_term (install_snapshot s n t) = t"
  "membership (install_snapshot s n t) = membership s"
  by (simp_all add: install_snapshot_def Let_def)

lemma last_log_index_append:
  "ps_log s \<noteq> [] \<Longrightarrow> last_log_index (fst (log_append s t c)) = Suc (last_log_index s)"
  by (simp add: last_log_index_def Suc_diff_Suc)

lemma log_append_index: "ps_log s \<noteq> [] \<Longrightarrow> snd (log_append s t c) = Suc (last_log_index s)"
  by (simp add: last_log_index_def Suc_diff_Suc)

lemma log_ok_append: "log_ok s \<Longrightarrow> log_ok (fst (log_append s t c))"
  by (auto simp: log_ok_def nth_append hd_append)

lemma log_ok_truncate:
  assumes "log_ok s" "snapshot_index s \<le> prev" "prev \<le> last_log_index s" "consecutive prev es"
  shows "log_ok (truncate_and_append s prev es)"
proof -
  let ?k = "prev - snapshot_index s + 1"
  have k: "?k \<le> length (ps_log s)" using assms(3) length_log [OF assms(1)] by simp
  have "le_index ((take ?k (ps_log s) @ es) ! i) = snapshot_index s + i"
    if "i < length (take ?k (ps_log s) @ es)" for i
    using that k assms(1,2,4)
    by (cases "i < ?k") (auto simp: nth_append log_ok_def consecutive_def)
  moreover have "take ?k (ps_log s) @ es \<noteq> []" "hd (take ?k (ps_log s) @ es) = hd (ps_log s)"
    using assms(1) by (cases "ps_log s"; simp add: log_ok_def)+
  ultimately show ?thesis
    using assms(1,2) by (simp add: truncate_and_append_def Let_def log_ok_def)
qed

lemma log_ok_install: "log_ok s \<Longrightarrow> log_ok (install_snapshot s n t)"
  by (auto simp: install_snapshot_def Let_def log_ok_def nth_Cons split: nat.split)

lemma ps_log_truncate:
  "snapshot_index s \<le> prev \<Longrightarrow>
   ps_log (truncate_and_append s prev es) = take (prev - snapshot_index s + 1) (ps_log s) @ es"
  by (simp add: truncate_and_append_def Let_def)

lemma last_log_index_truncate:
  assumes "log_ok s" "snapshot_index s \<le> prev" "prev \<le> last_log_index s"
  shows "last_log_index (truncate_and_append s prev es) = prev + length es"
proof -
  have "prev - snapshot_index s + 1 \<le> length (ps_log s)"
    using assms(3) length_log [OF assms(1)] by simp
  then show ?thesis
    using assms(2) by (simp add: last_log_index_def ps_log_truncate)
qed

lemma entry_at_append:
  assumes "log_ok s"
  shows "entry_at (fst (log_append s t c)) =
    (entry_at s)(Suc (last_log_index s) \<mapsto>
      \<lparr>le_term = t, le_index = Suc (last_log_index s), le_command = c\<rparr>)"
proof
  fix i
  have ne: "ps_log s \<noteq> []" using assms by (rule log_ok_nonempty)
  have len: "snapshot_index s + length (ps_log s) = Suc (last_log_index s)"
    using ne by (simp add: last_log_index_def Suc_diff_Suc)
  show "entry_at (fst (log_append s t c)) i = ((entry_at s)(Suc (last_log_index s) \<mapsto>
      \<lparr>le_term = t, le_index = Suc (last_log_index s), le_command = c\<rparr>)) i"
    using len snapshot_le_last [OF assms]
    by (auto simp: entry_at_def last_log_index_append [OF ne] nth_append)
qed

lemma entry_at_truncate:
  assumes "log_ok s" "snapshot_index s \<le> prev" "prev \<le> last_log_index s"
  shows "entry_at (truncate_and_append s prev es) i =
    (if i \<le> prev then entry_at s i
     else if i \<le> prev + length es then Some (es ! (i - prev - 1)) else None)"
proof -
  have k: "prev - snapshot_index s + 1 \<le> length (ps_log s)"
    using assms(3) length_log [OF assms(1)] by simp
  have sub: "i - snapshot_index s - (prev - snapshot_index s + 1) = i - prev - 1"
    if "prev < i" using that assms(2) by simp
  show ?thesis
    using assms(2,3) k
    by (auto simp: entry_at_def last_log_index_truncate [OF assms] ps_log_truncate [OF assms(2)]
        nth_append sub)
qed

lemma term_at_sentinel: "log_ok s \<Longrightarrow> term_at s (snapshot_index s) = snapshot_term s"
  by (auto simp: term_at_def log_ok_def hd_conv_nth)

lemma term_at_entry:
  "term_at s i = (if i = snapshot_index s \<and> ps_log s \<noteq> [] then le_term (hd (ps_log s))
     else case entry_at s i of Some e \<Rightarrow> le_term e | None \<Rightarrow> 0)"
  by (auto simp: term_at_def entry_at_def Let_def last_log_index_def hd_conv_nth)

lemma last_log_term_term_at: "log_ok s \<Longrightarrow> last_log_term s = term_at s (last_log_index s)"
  using length_log [of s] snapshot_le_last [of s]
  by (auto simp: last_log_term_def term_at_def last_conv_nth log_ok_def Let_def)

lemma entry_at_index: "log_ok s \<Longrightarrow> entry_at s i = Some e \<Longrightarrow> le_index e = i"
  using length_log [of s] by (auto simp: entry_at_def log_ok_def split: if_splits)

lemma last_log_index_install:
  assumes "log_ok s"
  shows "last_log_index (install_snapshot s n t) =
    (if snapshot_index s \<le> n \<and> n \<le> last_log_index s \<and> term_at s n = t
     then last_log_index s else n)"
  using length_log [OF assms]
  by (auto simp: install_snapshot_def Let_def last_log_index_def)

lemma entry_at_install:
  assumes "log_ok s"
  shows "entry_at (install_snapshot s n t) i =
    (if n < i \<and> snapshot_index s \<le> n \<and> n \<le> last_log_index s \<and> term_at s n = t
     then entry_at s i else None)"
proof -
  have log: "ps_log (install_snapshot s n t) =
      \<lparr>le_term = t, le_index = n, le_command = []\<rparr> #
        (if snapshot_index s \<le> n \<and> n < last_log_index s \<and> term_at s n = t
         then drop (n - snapshot_index s + 1) (ps_log s) else [])"
    by (auto simp: install_snapshot_def Let_def)
  have pos: "(\<lparr>le_term = t, le_index = n, le_command = []\<rparr> #
        drop (n - snapshot_index s + 1) (ps_log s)) ! (i - n) = ps_log s ! (i - snapshot_index s)"
    if "n < i" "i \<le> last_log_index s" "snapshot_index s \<le> n"
    using that length_log [OF assms] by (simp add: nth_Cons' Suc_diff_Suc)
  show ?thesis
    using pos by (auto simp: entry_at_def log last_log_index_install [OF assms])
qed

lemma entries_from_nth:
  assumes "log_ok s" "snapshot_index s < from"
  shows "entries_from s from = drop (from - snapshot_index s) (ps_log s)"
  using assms by (auto simp: entries_from_def Let_def)

lemma length_entries_from:
  assumes "log_ok s" "snapshot_index s < from"
  shows "length (entries_from s from) = Suc (last_log_index s) - from"
  using assms length_log [OF assms(1)] by (simp add: entries_from_nth)

lemma nth_entries_from:
  assumes "log_ok s" "snapshot_index s < from" "k < length (entries_from s from)"
  shows "entry_at s (from + k) = Some (entries_from s from ! k)"
  using assms length_log [OF assms(1)] by (auto simp: entries_from_nth entry_at_def)

lemma entries_from_consecutive:
  assumes "log_ok s" "snapshot_index s \<le> prev"
  shows "consecutive prev (entries_from s (prev + 1))"
proof -
  have "le_index (entries_from s (prev + 1) ! k) = prev + 1 + k"
    if "k < length (entries_from s (prev + 1))" for k
    using nth_entries_from [OF assms(1), of "prev + 1" k] assms that
    by (auto intro: entry_at_index)
  then show ?thesis by (simp add: consecutive_def)
qed

section \<open>The stable-storage contract\<close>

text \<open>
  What a caller of \<open>RaftPersistenceStore\<close> relies on: a successful save is what the next load
  returns and it consumes the staged artifact; staging and clearing leave the active state
  alone. \<open>load\<close> and \<open>load_staged\<close> are what a restarted node reads.
\<close>

locale persistence_store =
  fixes save :: "persistent_state \<Rightarrow> bytes \<Rightarrow> 's \<Rightarrow> string + 's"
    and stage :: "staged_snapshot \<Rightarrow> 's \<Rightarrow> string + 's"
    and load_staged :: "'s \<Rightarrow> string + staged_snapshot option"
    and clear :: "'s \<Rightarrow> string + 's"
    and load :: "'s \<Rightarrow> string + (persistent_state \<times> bytes) option"
  assumes load_save: "save st d s = Inr s' \<Longrightarrow> load s' = Inr (Some (st, d))"
    and staged_save: "save st d s = Inr s' \<Longrightarrow> load_staged s' = Inr None"
    and load_stage: "stage g s = Inr s' \<Longrightarrow> load s' = load s"
    and staged_stage: "stage g s = Inr s' \<Longrightarrow> load_staged s' = Inr (Some g)"
    and load_clear: "clear s = Inr s' \<Longrightarrow> load s' = load s"
    and staged_clear: "clear s = Inr s' \<Longrightarrow> load_staged s' = Inr None"
begin

lemma stage_then_save:
  assumes "stage g s = Inr s1" "save st d s1 = Inr s2"
  shows "load s1 = load s \<and> load_staged s1 = Inr (Some g) \<and>
    load s2 = Inr (Some (st, d)) \<and> load_staged s2 = Inr None"
  using assms load_stage staged_stage load_save staged_save by simp

lemma save_overwrites:
  assumes "save st d s = Inr s1" "save st' d' s1 = Inr s2"
  shows "load s2 = Inr (Some (st', d'))"
  using assms(2) by (rule load_save)

lemma stage_then_clear:
  assumes "stage g s = Inr s1" "clear s1 = Inr s2"
  shows "load s2 = load s \<and> load_staged s2 = Inr None"
  using assms load_stage load_clear staged_clear by simp

end

interpretation mem_persistence: persistence_store mem_save mem_stage_snapshot
  mem_load_staged_snapshot mem_clear_staged_snapshot mem_load
  by unfold_locales
    (auto simp: mem_save_def mem_stage_snapshot_def mem_load_staged_snapshot_def
      mem_clear_staged_snapshot_def mem_load_def)

section \<open>Properties\<close>

text \<open>The vector layout of the log (sentinel at the snapshot boundary, entry number \<open>i\<close>
  at Raft index \<open>snapshot_index + i\<close>) is kept by \<open>append\<close>, by \<open>install_snapshot\<close> at any boundary,
  and by \<open>truncate_and_append\<close> at a previous index inside the log with the consecutive
  entries that a leader whose own log has the layout reads with \<open>entries_from\<close>.\<close>

theorem log_layout_kept:
  assumes "log_ok s" "log_ok leader"
    and "snapshot_index s \<le> prev" "prev \<le> last_log_index s" "snapshot_index leader \<le> prev"
  shows "log_ok (fst (log_append s t c)) \<and> log_ok (install_snapshot s n t) \<and>
    log_ok (truncate_and_append s prev (entries_from leader (prev + 1)))"
  using assms
  by (blast intro: log_ok_append log_ok_install log_ok_truncate entries_from_consecutive)

theorem log_layout_kept_witness:
  "log_ok (truncate_and_append (fst (log_append ps_new 1 [])) 1
     (entries_from (fst (log_append (fst (log_append ps_new 1 [])) 2 [7])) 2))"
proof -
  let ?s = "fst (log_append ps_new 1 [])"
  let ?l = "fst (log_append (fst (log_append ps_new 1 [])) 2 [7])"
  have "log_ok ?s" "log_ok ?l" by (intro log_ok_append log_ok_new)+
  moreover have "snapshot_index ?s \<le> 1" "1 \<le> last_log_index ?s" "snapshot_index ?l \<le> 1"
    by (simp_all add: ps_new_def last_log_index_def)
  ultimately have "log_ok (truncate_and_append ?s 1 (entries_from ?l (1 + 1)))"
    using log_layout_kept by blast
  then show ?thesis by (simp add: numeral_2_eq_2)
qed

text \<open>C32. The log operations implement a partial map from Raft indices to entries: \<open>append\<close>
  adds the next index, \<open>truncate_and_append\<close> keeps the prefix and replaces everything above it,
  \<open>install_snapshot\<close> keeps exactly the suffix above a boundary whose term matches and nothing
  otherwise, and \<open>entries_from\<close> reads the map from an index to its end.\<close>

theorem log_refines_map:
  assumes "log_ok s" "snapshot_index s \<le> prev" "prev \<le> last_log_index s"
  shows "entry_at (fst (log_append s t c)) = (entry_at s)(snd (log_append s t c) \<mapsto>
      \<lparr>le_term = t, le_index = snd (log_append s t c), le_command = c\<rparr>) \<and>
    entry_at (truncate_and_append s prev es) i =
      (if i \<le> prev then entry_at s i
       else if i \<le> prev + length es then Some (es ! (i - prev - 1)) else None) \<and>
    entry_at (install_snapshot s n t') i =
      (if n < i \<and> snapshot_index s \<le> n \<and> n \<le> last_log_index s \<and> term_at s n = t'
       then entry_at s i else None) \<and>
    map Some (entries_from s (prev + 1)) = map (entry_at s) [prev + 1..<Suc (last_log_index s)]"
proof -
  have "map Some (entries_from s (prev + 1)) = map (entry_at s) [prev + 1..<Suc (last_log_index s)]"
    using assms length_entries_from [of s "prev + 1"] nth_entries_from [of s "prev + 1"]
    by (intro nth_equalityI) (auto simp del: upt_Suc)
  moreover have "snd (log_append s t c) = Suc (last_log_index s)"
    by (rule log_append_index [OF log_ok_nonempty [OF assms(1)]])
  ultimately show ?thesis
    by (simp only: entry_at_append [OF assms(1)] entry_at_truncate [OF assms]
        entry_at_install [OF assms(1)] simp_thms)
qed

theorem log_refines_map_witness:
  "entry_at (install_snapshot (fst (log_append (fst (log_append ps_new 1 [])) 2 [7])) 1 1) 2
     = Some \<lparr>le_term = 2, le_index = 2, le_command = [7]\<rparr>"
proof -
  let ?s = "fst (log_append (fst (log_append ps_new 1 [])) 2 [7])"
  have "log_ok ?s" by (intro log_ok_append log_ok_new)
  moreover have "snapshot_index ?s \<le> 0" "0 \<le> last_log_index ?s"
    by (simp_all add: ps_new_def)
  ultimately have "entry_at (install_snapshot ?s 1 1) 2 =
      (if 1 < (2::nat) \<and> snapshot_index ?s \<le> 1 \<and> 1 \<le> last_log_index ?s \<and> term_at ?s 1 = 1
       then entry_at ?s 2 else None)"
    using log_refines_map [of ?s 0] by blast
  then
  show ?thesis by (simp add: entry_at_def last_log_index_def term_at_def ps_new_def)
qed

text \<open>\<open>truncate_and_append\<close> does not look for a conflict: entries that the log already
  holds, received again after the log has grown, cut the log back to the end of the
  repeated batch. (The comment on the function describes the conflict-only deletion.)\<close>

theorem truncate_ignores_agreement:
  assumes "log_ok s" "snapshot_index s \<le> prev" "prev + length es < last_log_index s"
    and "\<forall>k < length es. entry_at s (prev + 1 + k) = Some (es ! k)"
  shows "last_log_index (truncate_and_append s prev es) = prev + length es \<and>
    entry_at s (last_log_index s) \<noteq> None \<and>
    entry_at (truncate_and_append s prev es) (last_log_index s) = None"
  using assms
  by (auto simp: last_log_index_truncate entry_at_truncate) (simp add: entry_at_def)

theorem truncate_ignores_agreement_witness:
  "last_log_index (truncate_and_append (fst (log_append (fst (log_append ps_new 1 [])) 1 [7])) 0
      [\<lparr>le_term = 1, le_index = 1, le_command = []\<rparr>]) = 1"
proof -
  let ?s = "fst (log_append (fst (log_append ps_new 1 [])) 1 [7])"
  have "log_ok ?s" by (intro log_ok_append log_ok_new)
  moreover have "snapshot_index ?s \<le> 0"
    "0 + length [\<lparr>le_term = 1, le_index = 1, le_command = [] :: bytes\<rparr>] < last_log_index ?s"
    by (simp_all add: ps_new_def last_log_index_def)
  ultimately show ?thesis using truncate_ignores_agreement [of ?s 0]
    by (simp add: entry_at_def last_log_index_def ps_new_def)
qed

text \<open>A snapshot transition on the in-memory store is crash safe: after staging, a restart
  finds the old active state together with the staged artifact; after the save that
  publishes it, a restart finds the new state with its snapshot bytes and nothing staged.
  No crash point shows a compacted state without its snapshot bytes.\<close>

theorem staged_publish_crash_safe:
  "case mem_stage_snapshot g s of Inl _ \<Rightarrow> False | Inr s1 \<Rightarrow>
     mem_load s1 = mem_load s \<and> mem_load_staged_snapshot s1 = Inr (Some g) \<and>
     (case mem_save st d s1 of Inl _ \<Rightarrow> False | Inr s2 \<Rightarrow>
        mem_load s2 = Inr (Some (st, d)) \<and> mem_load_staged_snapshot s2 = Inr None)"
proof -
  obtain s1 where s1: "mem_stage_snapshot g s = Inr s1" by (simp add: mem_stage_snapshot_def)
  obtain s2 where s2: "mem_save st d s1 = Inr s2" by (simp add: mem_save_def)
  show ?thesis using mem_persistence.stage_then_save [OF s1 s2] s1 s2 by simp
qed

end
