(* ===== verification/Snapshot_Payload.thy ===== *)
theory Snapshot_Payload
  imports Raft_Log
begin

text \<open>
  The snapshot envelope of \<open>consensus/snapshot_payload.rs\<close>, which binds a committed
  configuration to the state-machine bytes: magic \<open>NBR3\<close>, version, three reserved bytes,
  two big-endian lengths, a SHA-256 digest, then the two payloads.

  JSON serialisation (serde_json) and SHA-256 (sha2) are third-party code: they are the
  fields of the record \<open>codec\<close>, and what the envelope needs of them is \<open>codec_ok\<close>. The platform is
  64-bit: a \<open>usize\<close> holds a \<open>u64\<close>.
\<close>

section \<open>Third-party codecs\<close>

record membership_guard =
  mg_leader :: nodeid
  mg_term :: nat
  mg_generation :: nat

record guarded_membership =
  gm_guard :: membership_guard
  gm_change :: membership_change

record codec =
  membership_to_json :: "cluster_membership \<Rightarrow> string + bytes"
  membership_from_json :: "bytes \<Rightarrow> string + cluster_membership"
  change_to_json :: "membership_change \<Rightarrow> bytes"
  change_from_json :: "bytes \<Rightarrow> string + membership_change"
  guarded_to_json :: "guarded_membership \<Rightarrow> string + bytes"
  guarded_from_json :: "bytes \<Rightarrow> string + guarded_membership"
  sha256 :: "bytes \<Rightarrow> bytes"

text \<open>The documented behaviour relied upon: serde_json reads back what it writes, and a
  SHA-256 digest has 32 bytes.\<close>

definition codec_ok :: "codec \<Rightarrow> bool" where
  "codec_ok cd \<longleftrightarrow>
     (\<forall>m b. membership_to_json cd m = Inr b \<longrightarrow> membership_from_json cd b = Inr m) \<and>
     (\<forall>c. change_from_json cd (change_to_json cd c) = Inr c) \<and>
     (\<forall>g b. guarded_to_json cd g = Inr b \<longrightarrow> guarded_from_json cd b = Inr g) \<and>
     (\<forall>b. length (sha256 cd b) = 32)"

section \<open>Encoding and decoding\<close>

datatype payload_error =
    PayloadMembership membership_error
  | SerializeMembership string
  | MembershipTooLarge
  | SqlTooLarge
  | TruncatedEnvelope nat
  | UnsupportedEnvelopeVersion u8
  | NonZeroReserved
  | LengthOverflow
  | LengthMismatch nat nat
  | ChecksumMismatch
  | DecodeMembership string

definition NBR3_MAGIC :: bytes where
  "NBR3_MAGIC = [0x4E, 0x42, 0x52, 0x33]"

definition NBR3_VERSION :: u8 where
  "NBR3_VERSION = 1"

definition HEADER_BYTES :: nat where
  "HEADER_BYTES = 4 + 1 + 3 + 4 + 8 + 32"

definition encode_snapshot_payload ::
  "codec \<Rightarrow> cluster_membership \<Rightarrow> bytes \<Rightarrow> payload_error + bytes" where
  "encode_snapshot_payload cd m sql_snapshot =
     rbind (map_err PayloadMembership (validate m)) (\<lambda>_.
     rbind (map_err SerializeMembership (membership_to_json cd m)) (\<lambda>membership_bytes.
     rbind (require (length membership_bytes < 2 ^ 32) MembershipTooLarge) (\<lambda>_.
     rbind (require (length sql_snapshot < 2 ^ 64) SqlTooLarge) (\<lambda>_.
       let checksum = sha256 cd (membership_bytes @ sql_snapshot) in
       Inr (NBR3_MAGIC @ [NBR3_VERSION] @ [0, 0, 0] @ be_bytes 4 (length membership_bytes) @
            be_bytes 8 (length sql_snapshot) @ checksum @ membership_bytes @ sql_snapshot)))))"

definition slice :: "nat \<Rightarrow> nat \<Rightarrow> bytes \<Rightarrow> bytes" where
  "slice a b xs = take (b - a) (drop a xs)"

definition decode_snapshot_payload ::
  "codec \<Rightarrow> bytes \<Rightarrow> payload_error + (cluster_membership \<times> bytes) option" where
  "decode_snapshot_payload cd bs =
     (if length bs < 4 \<or> take 4 bs \<noteq> NBR3_MAGIC then Inr None
      else if length bs < HEADER_BYTES then Inl (TruncatedEnvelope (length bs))
      else if bs ! 4 \<noteq> NBR3_VERSION then Inl (UnsupportedEnvelopeVersion (bs ! 4))
      else if slice 5 8 bs \<noteq> [0, 0, 0] then Inl NonZeroReserved
      else
        let membership_len = be_value (slice 8 12 bs); sql_len = be_value (slice 12 20 bs) in
        case checked_add HEADER_BYTES membership_len of None \<Rightarrow> Inl LengthOverflow
        | Some value \<Rightarrow> (case checked_add value sql_len of None \<Rightarrow> Inl LengthOverflow
        | Some expected \<Rightarrow>
            if length bs \<noteq> expected then Inl (LengthMismatch expected (length bs))
            else
              let membership_bytes = slice HEADER_BYTES (HEADER_BYTES + membership_len) bs;
                  sql_snapshot = drop (HEADER_BYTES + membership_len) bs
              in if sha256 cd (membership_bytes @ sql_snapshot) \<noteq> slice 20 52 bs
                 then Inl ChecksumMismatch
                 else rbind (map_err DecodeMembership (membership_from_json cd membership_bytes)) (\<lambda>m.
                      rbind (map_err PayloadMembership (validate m)) (\<lambda>_.
                        Inr (Some (m, sql_snapshot))))))"

section \<open>Lemmas\<close>

lemma header_lengths [simp]:
  "length NBR3_MAGIC = 4" "HEADER_BYTES = 52"
  by (simp_all add: NBR3_MAGIC_def HEADER_BYTES_def)

text \<open>The fields of a byte string built from parts of known length.\<close>

lemma envelope_fields:
  assumes "length mag = 4" "length (rsv :: bytes) = 3" "length l1 = 4" "length l2 = 8"
    "length chk = 32"
    and "e = mag @ [v] @ rsv @ l1 @ l2 @ chk @ mb @ sql"
  shows "length e = 52 + length mb + length sql" "take 4 e = mag" "e ! 4 = v" "slice 5 8 e = rsv"
    "slice 8 12 e = l1" "slice 12 20 e = l2" "slice 20 52 e = chk"
    "slice 52 (52 + length mb) e = mb" "drop (52 + length mb) e = sql" "drop 52 e = mb @ sql"
  using assms by (simp_all add: slice_def nth_append drop_Cons')

lemma encode_snapshot_payload_ok_iff:
  "encode_snapshot_payload cd m sql = Inr bs \<longleftrightarrow>
     validate m = Inr () \<and> (\<exists>mb. membership_to_json cd m = Inr mb \<and> length mb < 2 ^ 32 \<and>
       length sql < 2 ^ 64 \<and>
       bs = NBR3_MAGIC @ [NBR3_VERSION] @ [0, 0, 0] @ be_bytes 4 (length mb) @
            be_bytes 8 (length sql) @ sha256 cd (mb @ sql) @ mb @ sql)"
  by (auto simp: encode_snapshot_payload_def result_simps Let_def)

lemma decode_accepts:
  assumes "decode_snapshot_payload cd bs = Inr (Some (m, sql))"
  shows "length bs = 52 + be_value (slice 8 12 bs) + be_value (slice 12 20 bs)"
    and "sha256 cd (drop 52 bs) = slice 20 52 bs"
    and "validate m = Inr ()"
    and "sql = drop (52 + be_value (slice 8 12 bs)) bs"
    and "membership_from_json cd (slice 52 (52 + be_value (slice 8 12 bs)) bs) = Inr m"
proof -
  let ?n = "be_value (slice 8 12 bs)" and ?k = "be_value (slice 12 20 bs)"
  have *: "length bs = 52 + ?n + ?k \<and>
      sha256 cd (slice 52 (52 + ?n) bs @ drop (52 + ?n) bs) = slice 20 52 bs \<and>
      membership_from_json cd (slice 52 (52 + ?n) bs) = Inr m \<and> validate m = Inr () \<and>
      sql = drop (52 + ?n) bs"
    using assms unfolding decode_snapshot_payload_def
    by (simp add: Let_def result_simps split: if_splits option.splits)
  have "slice 52 (52 + ?n) bs @ drop (52 + ?n) bs = drop 52 bs"
    by (simp add: slice_def) (metis append_take_drop_id drop_drop add.commute)
  with * show "length bs = 52 + ?n + ?k" "sha256 cd (drop 52 bs) = slice 20 52 bs"
    "validate m = Inr ()" "sql = drop (52 + ?n) bs"
    "membership_from_json cd (slice 52 (52 + ?n) bs) = Inr m" by simp_all
qed

lemma decode_encoded:
  assumes "codec_ok cd" "encode_snapshot_payload cd m sql = Inr bs" "length bs \<le> u64_max"
  shows "decode_snapshot_payload cd bs = Inr (Some (m, sql))"
proof -
  obtain mb where mb: "membership_to_json cd m = Inr mb" "length mb < 2 ^ 32" "length sql < 2 ^ 64"
    and v: "validate m = Inr ()"
    and bs: "bs = NBR3_MAGIC @ [NBR3_VERSION] @ [0, 0, 0] @ be_bytes 4 (length mb) @
            be_bytes 8 (length sql) @ sha256 cd (mb @ sql) @ mb @ sql"
    using assms(2) by (auto simp: encode_snapshot_payload_ok_iff)
  have sha: "length (sha256 cd (mb @ sql)) = 32"
    and json: "membership_from_json cd mb = Inr m"
    using assms(1) mb(1) by (auto simp: codec_ok_def)
  note f = envelope_fields [OF _ _ _ _ sha bs, simplified]
  have "be_value (be_bytes 4 (length mb)) = length mb" "be_value (be_bytes 8 (length sql)) = length sql"
    using mb by (simp_all)
  then show ?thesis
    using assms(3) v json
    by (simp add: decode_snapshot_payload_def f Let_def checked_add_def result_simps)
qed

section \<open>Properties\<close>

text \<open>Snapshot envelopes round trip exactly: whenever a configuration and its
  state-machine bytes can be encoded, and the total length fits a machine word, decoding
  returns the same configuration and the same bytes.\<close>

theorem snapshot_payload_roundtrip:
  assumes "codec_ok cd" "encode_snapshot_payload cd m sql = Inr bs" "length bs \<le> u64_max"
  shows "decode_snapshot_payload cd bs = Inr (Some (m, sql))"
  using assms by (rule decode_encoded)

text \<open>A tampered envelope is only accepted when SHA-256 collides: if a byte string with
  the header of an encoded envelope but a different body is accepted by the decoder, then
  the two bodies are different and have the same digest.\<close>

theorem snapshot_tamper_is_collision:
  assumes "codec_ok cd" "encode_snapshot_payload cd m sql = Inr bs"
    and "decode_snapshot_payload cd bs' = Inr (Some r)"
    and "take HEADER_BYTES bs' = take HEADER_BYTES bs" "bs' \<noteq> bs"
  shows "drop HEADER_BYTES bs' \<noteq> drop HEADER_BYTES bs \<and>
    sha256 cd (drop HEADER_BYTES bs') = sha256 cd (drop HEADER_BYTES bs)"
proof -
  obtain mb where bs: "bs = NBR3_MAGIC @ [NBR3_VERSION] @ [0, 0, 0] @ be_bytes 4 (length mb) @
            be_bytes 8 (length sql) @ sha256 cd (mb @ sql) @ mb @ sql"
    using assms(2) by (auto simp: encode_snapshot_payload_ok_iff)
  have sha: "length (sha256 cd (mb @ sql)) = 32" using assms(1) by (simp add: codec_ok_def)
  note f = envelope_fields [OF _ _ _ _ sha bs, simplified]
  have "slice 20 52 bs' = slice 20 52 bs"
    using assms(4) by (simp add: slice_def take_drop)
  then have "sha256 cd (drop 52 bs') = sha256 cd (drop 52 bs)"
    using decode_accepts(2) [of cd bs' "fst r" "snd r"] assms(3) by (simp add: f)
  moreover have "drop 52 bs' \<noteq> drop 52 bs"
    using assms(4,5) append_take_drop_id [of 52 bs'] append_take_drop_id [of 52 bs] by auto
  ultimately show ?thesis by simp
qed

subsection \<open>Witnesses\<close>

text \<open>A concrete codec: one configuration with a one-byte encoding, changes as a tag
  followed by the identifier, and an additive checksum in the place of the digest.\<close>

definition sample_membership :: cluster_membership where
  "sample_membership = bootstrap ''n1'' [''n2'', ''n3'']"

fun sample_change_bytes :: "membership_change \<Rightarrow> bytes" where
  "sample_change_bytes (AddNode n) = 0 # str_bytes n"
| "sample_change_bytes (AddLearner n) = 1 # str_bytes n"
| "sample_change_bytes (PromoteLearner n) = 2 # str_bytes n"
| "sample_change_bytes (RemoveNode n) = 3 # str_bytes n"
| "sample_change_bytes FinalizeJoint = [4]"

fun sample_bytes_change :: "bytes \<Rightarrow> string + membership_change" where
  "sample_bytes_change [] = Inl ''empty''"
| "sample_bytes_change (t # n) =
     (if t = 0 then Inr (AddNode (bytes_str n)) else if t = 1 then Inr (AddLearner (bytes_str n))
      else if t = 2 then Inr (PromoteLearner (bytes_str n))
      else if t = 3 then Inr (RemoveNode (bytes_str n))
      else if t = 4 then Inr FinalizeJoint else Inl ''unknown'')"

definition sample_codec :: codec where
  "sample_codec = \<lparr>
     membership_to_json = (\<lambda>m. if m = sample_membership then Inr [1] else Inl ''unsupported''),
     membership_from_json = (\<lambda>b. if b = [1] then Inr sample_membership else Inl ''unsupported''),
     change_to_json = sample_change_bytes, change_from_json = sample_bytes_change,
     guarded_to_json = (\<lambda>_. Inl ''unsupported''), guarded_from_json = (\<lambda>_. Inl ''unsupported''),
     sha256 = (\<lambda>b. replicate 32 (sum_list b))\<rparr>"

lemma sample_change_roundtrip: "sample_bytes_change (sample_change_bytes c) = Inr c"
  by (cases c) simp_all

lemma sample_codec_ok: "codec_ok sample_codec"
  by (auto simp: codec_ok_def sample_codec_def sample_change_roundtrip split: if_splits)

lemma sample_membership_valid: "validate sample_membership = Inr ()"
  by (simp add: sample_membership_def bootstrap_def validate_def require_def
      MEMBERSHIP_FORMAT_VERSION_def result_simps)

lemma sample_encode:
  "encode_snapshot_payload sample_codec sample_membership [9, 8] =
     Inr (NBR3_MAGIC @ [NBR3_VERSION, 0, 0, 0] @ be_bytes 4 1 @ be_bytes 8 2 @
          replicate 32 18 @ [1, 9, 8])"
  by (simp add: encode_snapshot_payload_ok_iff sample_membership_valid)
    (simp add: sample_codec_def numeral_2_eq_2)

theorem snapshot_payload_roundtrip_witness:
  "decode_snapshot_payload sample_codec
     (NBR3_MAGIC @ [NBR3_VERSION, 0, 0, 0] @ be_bytes 4 1 @ be_bytes 8 2 @
      replicate 32 18 @ [1, 9, 8]) = Inr (Some (sample_membership, [9, 8]))"
  by (rule snapshot_payload_roundtrip [OF sample_codec_ok sample_encode])
    (simp add: u64_max_def)

text \<open>The additive checksum does collide: swapping two body bytes is accepted.\<close>

theorem snapshot_tamper_is_collision_witness:
  "sha256 sample_codec [1, 8, 9] = sha256 sample_codec [1, 9, 8]"
proof -
  let ?h = "NBR3_MAGIC @ [NBR3_VERSION, 0, 0, 0] @ be_bytes 4 1 @ be_bytes 8 2 @ replicate 32 18"
  have h: "length ?h = 52" by simp
  have e: "encode_snapshot_payload sample_codec sample_membership [8, 9] = Inr (?h @ [1, 8, 9])"
    by (simp add: encode_snapshot_payload_ok_iff sample_membership_valid)
      (simp add: sample_codec_def numeral_2_eq_2)
  have "decode_snapshot_payload sample_codec (?h @ [1, 8, 9]) = Inr (Some (sample_membership, [8, 9]))"
    using decode_encoded [OF sample_codec_ok e] by (simp add: u64_max_def)
  then have "drop HEADER_BYTES (?h @ [1, 8, 9]) \<noteq> drop HEADER_BYTES (?h @ [1, 9, 8]) \<and>
     sha256 sample_codec (drop HEADER_BYTES (?h @ [1, 8, 9])) =
     sha256 sample_codec (drop HEADER_BYTES (?h @ [1, 9, 8]))"
    using sample_encode h
    by (intro snapshot_tamper_is_collision [OF sample_codec_ok, of sample_membership "[9, 8]"]) simp_all
  then show ?thesis using h by simp
qed

end
