(* ===== verification/Raft_Types.thy ===== *)
theory Raft_Types
  imports Snapshot_Payload "HOL-Library.Monad_Syntax" "HOL-Library.AList"
begin

text \<open>
  The data of the Raft node (\<open>consensus/rpc.rs\<close>, \<open>consensus/raft.rs\<close>,
  \<open>consensus/operator_control.rs\<close>): messages, roles, the node record, and the effects a handler
  leaves behind.

  Conventions. A handler is a function from a node to \<open>(node \<times> reply) option\<close>; \<open>None\<close> is a Rust
  panic, which ends the process. \<open>Result\<close> values are sums over \<open>raft_error\<close>, one constructor per
  message of the source. Sends on the transport, peer resets and answers to waiting clients
  are appended to \<open>out\<close>. The durable store, the state machine behind the snapshot hooks and the
  apply channel, and the codecs are code behind interfaces: they are the fields of \<open>raft_env\<close>.
  The clock and the random draws are arguments.
\<close>

section \<open>Messages\<close>

record request_vote_args =
  rv_term :: nat
  rv_candidate_id :: nodeid
  rv_last_log_index :: nat
  rv_last_log_term :: nat

record request_vote_reply =
  rvr_term :: nat
  rvr_vote_granted :: bool

record append_entries_args =
  ae_term :: nat
  ae_leader_id :: nodeid
  ae_prev_log_index :: nat
  ae_prev_log_term :: nat
  ae_entries :: "log_entry list"
  ae_leader_commit :: nat

record append_entries_reply =
  aer_term :: nat
  aer_success :: bool
  aer_match_index :: nat

record install_snapshot_args =
  is_term :: nat
  is_leader_id :: nodeid
  is_last_included_index :: nat
  is_last_included_term :: nat
  is_data :: bytes
  is_done :: bool

record install_snapshot_reply =
  isr_term :: nat
  isr_success :: bool
  isr_last_included_index :: nat

datatype raft_error =
    NotLeader "nodeid option"
  | TransferInProgress
  | GuardedTooLarge
  | InvalidGuarded string
  | StaleGuard
  | UseLeaderTransferRpc
  | DecodeMembershipCommand string
  | RaftMembership membership_error
  | RaftPayload payload_error
  | ConfigIndexBeyondLog nat nat
  | TransitionActive
  | NotALearner nodeid
  | LearnerBehind nodeid nat nat
  | CannotRemoveLeader
  | FinalizeIsInternal
  | CompactTooShort
  | CompactDuringTransition
  | NoAuthoritativeMembership
  | CompactJoint
  | BoundaryBeforeMembership nat nat
  | BoundaryTermUnavailable nat
  | SnapshotCreationFailed string
  | SnapshotSelfCheckFailed string
  | CompactionNeedsPersistence
  | StageFailed string
  | CompactionDisabled
  | SnapshotJoint
  | SnapshotConfigBeyondBoundary nat nat
  | SnapshotRegressesIndex nat nat
  | SnapshotRegressesGeneration nat nat
  | SnapshotConflictsSameGeneration
  | FinalizeNotLeader
  | CommittedNotJoint
  | FinalizeMissing
  | NoLeaderState
  | NoEligibleTarget
  | TransferDuringTransition
  | TargetNotStableVoter nodeid
  | TargetBehind nodeid nat nat
  | TransferAlreadyInProgress
  | LeadershipLost
  | ShuttingDown
  | TransportClosed
  | EntryMissing
  | MembershipApplyFailed nat raft_error
  | ApplyFailed nat string
  | ApplyChannelClosed
  | CompletionDropped nat
  | JointLeadershipChanged
  | InvalidJoiningVoters

datatype raft_message =
    RequestVote request_vote_args
  | RequestVoteReply request_vote_reply
  | AppendEntries append_entries_args
  | AppendEntriesReply append_entries_reply
  | InstallSnapshot install_snapshot_args
  | InstallSnapshotReply install_snapshot_reply
  | MembershipChangeCmd membership_change
  | MembershipChangeCmdReply bool "raft_error option"
  | LeaderTransfer nodeid
  | LeaderTransferReply bool "raft_error option"
  | TimeoutNow nat

section \<open>The node\<close>

datatype raft_role = Follower | Candidate | Leader

record leader_state =
  next_index :: "nodeid \<rightharpoonup> nat"
  match_index :: "nodeid \<rightharpoonup> nat"

record operator_status_r =
  os_id :: nodeid
  os_leader :: "nodeid option"
  os_is_leader :: bool
  os_term :: nat
  os_committed :: cluster_membership
  os_transition_pending :: bool
  os_applied :: nat
  os_commit_index :: nat
  os_ready :: bool
  os_matched :: "nodeid \<rightharpoonup> nat"
  os_authority_index :: nat

text \<open>Effects: a message to a peer, a transport reset, and answers over one-shot channels. A
  waiting client is a token. The two pending tables are association lists, keyed by log
  index: the code iterates over one of them.\<close>

datatype effect =
    Send nodeid raft_message
  | ResetPeer nodeid
  | ClientReply nat "raft_error + nat"
  | StatusReply nat operator_status_r
  | ControlReply nat "raft_error + unit"
  | TransferReply nat "raft_error + nodeid"

record ('s, 'm) raft_node =
  node_id :: nodeid
  bootstrap_membership :: cluster_membership
  joining_learner :: bool
  joining_seeds :: "nodeid set"
  ps :: persistent_state
  effective_membership :: cluster_membership
  commit_index :: nat
  last_applied :: nat
  role :: raft_role
  leader_id :: "nodeid option"
  votes_received :: "nodeid set"
  leader :: "leader_state option"
  snapshot_data :: bytes
  has_snapshot_store :: bool
  pending_staged_snapshot :: "staged_snapshot option"
  serving_ready :: bool
  successful_append_seen :: bool
  recovery_readiness_pending :: bool
  transfer_in_progress :: "(nodeid \<times> nat) option"
  persistence :: "'s option"
  election_timeout_base_ms :: nat
  has_apply_tx :: bool
  has_confirmed_apply_tx :: bool
  pending_clients :: "(nat \<times> nat) list"
  pending_membership_rpcs :: "(nat \<times> nodeid) list"
  machine :: 'm
  out :: "effect list"

text \<open>What the apply channel reports for one entry: the completion of the state machine, or
  one of the ways in which the hand-over ends the event loop.\<close>

datatype apply_outcome =
    Applied
  | ApplyShutdown
  | ApplyClosed
  | ApplyError string
  | ApplyDropped

record ('s, 'm) raft_env =
  codec_of :: codec
  store_save :: "persistent_state \<Rightarrow> bytes \<Rightarrow> 's \<Rightarrow> string + 's"
  store_stage :: "staged_snapshot \<Rightarrow> 's \<Rightarrow> string + 's"
  store_load_staged :: "'s \<Rightarrow> string + staged_snapshot option"
  store_clear :: "'s \<Rightarrow> string + 's"
  store_load :: "'s \<Rightarrow> string + (persistent_state \<times> bytes) option"
  sm_create :: "'m \<Rightarrow> nat \<Rightarrow> nat \<Rightarrow> string + bytes"
  sm_validate :: "'m \<Rightarrow> nat \<Rightarrow> nat \<Rightarrow> bytes \<Rightarrow> string + unit"
  sm_restore :: "'m \<Rightarrow> nat \<Rightarrow> nat \<Rightarrow> bytes \<Rightarrow> 'm \<times> (string + unit)"
  sm_confirm :: "'m \<Rightarrow> log_entry \<Rightarrow> 'm \<times> apply_outcome"
  sm_handoff :: "'m \<Rightarrow> log_entry \<Rightarrow> 'm \<times> apply_outcome"

section \<open>Constants and admin payloads\<close>

definition MEMBERSHIP_CHANGE_TAG :: bytes where
  "MEMBERSHIP_CHANGE_TAG = [0xFC, 0xFD]"

definition COMPACT_LOG_TAG :: bytes where
  "COMPACT_LOG_TAG = [0xFE, 0xFD]"

definition LEADER_TRANSFER_TAG :: bytes where
  "LEADER_TRANSFER_TAG = [0xFA, 0xFD]"

definition GUARDED_MEMBERSHIP_TAG :: bytes where
  "GUARDED_MEMBERSHIP_TAG = [0x4E, 0x42, 0x4F, 0x47, 1]"

definition HEARTBEAT_MS :: nat where
  "HEARTBEAT_MS = 50"

definition ELECTION_TIMEOUT_BASE_MS :: nat where
  "ELECTION_TIMEOUT_BASE_MS = 750"

definition ELECTION_CAMPAIGN_GRACE_MS :: nat where
  "ELECTION_CAMPAIGN_GRACE_MS = 2000"

definition LEADER_TRANSFER_TIMEOUT_MS :: nat where
  "LEADER_TRANSFER_TIMEOUT_MS = 5000"

definition encode_membership_change :: "codec \<Rightarrow> membership_change \<Rightarrow> bytes" where
  "encode_membership_change cd change = MEMBERSHIP_CHANGE_TAG @ change_to_json cd change"

definition encode_compact_log :: "nat \<Rightarrow> bytes \<Rightarrow> bytes" where
  "encode_compact_log last_index data = COMPACT_LOG_TAG @ be_bytes 8 last_index @ data"

definition encode_leader_transfer :: "nodeid \<Rightarrow> bytes" where
  "encode_leader_transfer target = LEADER_TRANSFER_TAG @ str_bytes target"

definition decode_membership_command ::
  "codec \<Rightarrow> bytes \<Rightarrow> raft_error + membership_change option" where
  "decode_membership_command cd payload =
     (if \<not> starts_with payload MEMBERSHIP_CHANGE_TAG then Inr None
      else rbind (map_err DecodeMembershipCommand
             (change_from_json cd (drop (length MEMBERSHIP_CHANGE_TAG) payload)))
             (\<lambda>change. Inr (Some change)))"

section \<open>Reasoning about panicking handlers\<close>

text \<open>\<open>all_opt Q x\<close>: if the handler does not panic, its result satisfies \<open>Q\<close>.\<close>

definition all_opt :: "('a \<Rightarrow> bool) \<Rightarrow> 'a option \<Rightarrow> bool" where
  "all_opt Q x = (case x of None \<Rightarrow> True | Some y \<Rightarrow> Q y)"

lemma all_opt_simps [simp]:
  "all_opt Q None" "all_opt Q (Some y) = Q y"
  by (simp_all add: all_opt_def)

lemma all_opt_bind [simp]: "all_opt Q (x \<bind> f) = all_opt (\<lambda>y. all_opt Q (f y)) x"
  by (cases x) simp_all

lemma all_opt_mono: "all_opt P x \<Longrightarrow> (\<And>y. P y \<Longrightarrow> Q y) \<Longrightarrow> all_opt Q x"
  by (cases x) simp_all

lemma all_opt_bindI:
  "all_opt P x \<Longrightarrow> (\<And>y. P y \<Longrightarrow> all_opt Q (f y)) \<Longrightarrow> all_opt Q (x \<bind> f)"
  by (cases x) simp_all

lemma all_opt_conj: "all_opt P x \<Longrightarrow> all_opt Q x \<Longrightarrow> all_opt (\<lambda>y. P y \<and> Q y) x"
  by (cases x) simp_all

lemma all_opt_D: "all_opt Q x \<Longrightarrow> x = Some y \<Longrightarrow> Q y"
  by simp

text \<open>Results that an evaluation has shown to be of the form \<open>Some (n, Inr i)\<close>.\<close>

lemma eval_result:
  assumes "case x of Some (n, Inr i) \<Rightarrow> P n i | _ \<Rightarrow> False"
  obtains n i where "x = Some (n, Inr i)" "P n i"
proof (cases x)
  case (Some y)
  obtain n r where y: "y = (n, r)" by (cases y)
  show thesis
  proof (cases r)
    case (Inl e)
    then show thesis using assms Some y by simp
  next
    case (Inr i)
    then show thesis using assms Some y that by simp
  qed
qed (use assms in simp)

end
