(* ===== verification/Raft_Node.thy ===== *)
theory Raft_Node
  imports Raft_Types
begin

text \<open>
  The Raft node of \<open>consensus/raft.rs\<close>: construction and recovery, effective membership,
  elections, replication, commitment, compaction, snapshot installation and leadership
  transfer. One definition per method, in the order of the source.

  Not modelled: tracing, the debug assertions (the lemmas prove the first of them), and the
  overflow of terms and log indices at \<open>2 ^ 64\<close> except where the code saturates.
\<close>

section \<open>Helpers of the language\<close>

text \<open>\<open>Option::is_some_and\<close>, \<open>unwrap_or_else(panic)\<close>, and iteration over a \<open>BTreeSet\<close>.\<close>

definition some_and :: "'a option \<Rightarrow> ('a \<Rightarrow> bool) \<Rightarrow> bool" where
  "some_and x f = (case x of None \<Rightarrow> False | Some y \<Rightarrow> f y)"

definition or_panic :: "'e + 'a \<Rightarrow> 'a option" where
  "or_panic r = (case r of Inl _ \<Rightarrow> None | Inr x \<Rightarrow> Some x)"

definition unwrap_or :: "'a option \<Rightarrow> 'a \<Rightarrow> 'a" where
  "unwrap_or x d = (case x of None \<Rightarrow> d | Some y \<Rightarrow> y)"

definition emit :: "effect \<Rightarrow> ('s, 'm) raft_node \<Rightarrow> ('s, 'm) raft_node" where
  "emit e n = n\<lparr>out := out n @ [e]\<rparr>"

section \<open>Membership bookkeeping\<close>

definition committed_membership :: "('s, 'm) raft_node \<Rightarrow> cluster_membership" where
  "committed_membership n = unwrap_or (membership (ps n)) (bootstrap_membership n)"

fun replay_membership ::
  "codec \<Rightarrow> nat \<Rightarrow> log_entry list \<Rightarrow> cluster_membership \<Rightarrow> raft_error + cluster_membership" where
  "replay_membership cd committed [] m = Inr m"
| "replay_membership cd committed (e # es) m =
     (if le_index e \<le> committed then replay_membership cd committed es m
      else rbind (decode_membership_command cd (le_command e)) (\<lambda>c.
        case c of
          None \<Rightarrow> replay_membership cd committed es m
        | Some change \<Rightarrow>
            rbind (map_err RaftMembership (transition_membership m change (le_index e))) (\<lambda>m'.
              replay_membership cd committed es m')))"

definition sync_leader_tracking :: "('s, 'm) raft_node \<Rightarrow> ('s, 'm) raft_node" where
  "sync_leader_tracking n =
     (case leader n of
        None \<Rightarrow> n
      | Some l \<Rightarrow>
          let targets = replication_targets (effective_membership n) - {node_id n};
              next = sat_add (last_log_index (ps n)) 1
          in n\<lparr>leader := Some \<lparr>
               next_index = (\<lambda>p. if p \<in> targets then Some (unwrap_or (next_index l p) next) else None),
               match_index = (\<lambda>p. if p \<in> targets then Some (unwrap_or (match_index l p) 0) else None)\<rparr>\<rparr>)"

definition recompute_effective_membership ::
  "('s, 'm) raft_env \<Rightarrow> ('s, 'm) raft_node \<Rightarrow> raft_error + ('s, 'm) raft_node" where
  "recompute_effective_membership env n =
     (let base = committed_membership n in
      rbind (replay_membership (codec_of env) (config_index base) (ps_log (ps n)) base) (\<lambda>m.
      rbind (map_err RaftMembership (validate m)) (\<lambda>_.
        Inr (sync_leader_tracking (n\<lparr>effective_membership := m\<rparr>)))))"

definition membership_transition_active :: "('s, 'm) raft_node \<Rightarrow> bool" where
  "membership_transition_active n =
     (let committed = committed_membership n in
      is_joint committed \<or>
      list_ex (\<lambda>e. config_index committed < le_index e \<and>
        starts_with (le_command e) MEMBERSHIP_CHANGE_TAG) (ps_log (ps n)))"

definition validate_persisted_membership ::
  "cluster_membership \<Rightarrow> persistent_state \<Rightarrow> raft_error + unit" where
  "validate_persisted_membership m p =
     rbind (map_err RaftMembership (validate m)) (\<lambda>_.
     require (config_index m \<le> last_log_index p)
       (ConfigIndexBeyondLog (config_index m) (last_log_index p)))"

definition validate_snapshot_membership_boundary ::
  "cluster_membership \<Rightarrow> nat \<Rightarrow> raft_error + unit" where
  "validate_snapshot_membership_boundary m boundary =
     rbind (map_err RaftMembership (validate m)) (\<lambda>_.
     rbind (require (\<not> is_joint m) SnapshotJoint) (\<lambda>_.
     require (config_index m \<le> boundary)
       (SnapshotConfigBeyondBoundary (config_index m) boundary)))"

definition validate_incoming_snapshot_membership ::
  "('s, 'm) raft_node \<Rightarrow> cluster_membership \<Rightarrow> nat \<Rightarrow> raft_error + unit" where
  "validate_incoming_snapshot_membership n incoming boundary =
     rbind (validate_snapshot_membership_boundary incoming boundary) (\<lambda>_.
     case membership (ps n) of
       None \<Rightarrow> Inr ()
     | Some local \<Rightarrow>
         if boundary < config_index local
         then Inl (SnapshotRegressesIndex boundary (config_index local))
         else if generation incoming < generation local
         then Inl (SnapshotRegressesGeneration (generation incoming) (generation local))
         else if generation local = generation incoming \<and> local \<noteq> incoming
         then Inl SnapshotConflictsSameGeneration
         else Inr ())"

definition accepts_replication_from :: "('s, 'm) raft_node \<Rightarrow> nodeid \<Rightarrow> bool" where
  "accepts_replication_from n l =
     (\<not> some_and (membership (ps n)) (\<lambda>m. is_removed m l) \<and>
      (is_voter (effective_membership n) l \<or>
       (joining_learner n \<and> \<not> is_voter (effective_membership n) (node_id n) \<and>
        \<not> is_removed (effective_membership n) (node_id n) \<and> l \<in> joining_seeds n)))"

section \<open>Durable writes and waiting clients\<close>

definition persist ::
  "('s, 'm) raft_env \<Rightarrow> ('s, 'm) raft_node \<Rightarrow> ('s, 'm) raft_node option" where
  "persist env n =
     (case persistence n of
        None \<Rightarrow> Some n
      | Some store \<Rightarrow>
          (case store_save env (ps n) (snapshot_data n) store of
             Inl _ \<Rightarrow> None
           | Inr store' \<Rightarrow> Some (n\<lparr>persistence := Some store'\<rparr>)))"

definition fail_uncommitted_clients ::
  "raft_error \<Rightarrow> ('s, 'm) raft_node \<Rightarrow> ('s, 'm) raft_node" where
  "fail_uncommitted_clients reason n =
     (let failed = filter (\<lambda>(i, c). commit_index n < i) (pending_clients n) in
      n\<lparr>out := out n @ map (\<lambda>(i, c). ClientReply c (Inl reason)) failed,
        pending_clients := filter (\<lambda>(i, c). \<not> commit_index n < i) (pending_clients n),
        pending_membership_rpcs :=
          filter (\<lambda>(i, r). i \<notin> fst ` set failed) (pending_membership_rpcs n)\<rparr>)"

definition fail_all_clients ::
  "raft_error \<Rightarrow> ('s, 'm) raft_node \<Rightarrow> ('s, 'm) raft_node" where
  "fail_all_clients reason n =
     n\<lparr>out := out n @ map (\<lambda>(i, c). ClientReply c (Inl reason)) (pending_clients n),
       pending_clients := [], pending_membership_rpcs := []\<rparr>"

section \<open>Construction and recovery\<close>

definition from_bootstrap ::
  "nodeid \<Rightarrow> cluster_membership \<Rightarrow> bool \<Rightarrow> persistent_state \<Rightarrow> 'm \<Rightarrow> ('s, 'm) raft_node" where
  "from_bootstrap i boot joining p mach =
     \<lparr>node_id = i, bootstrap_membership = boot, joining_learner = joining, joining_seeds = {},
      ps = p, effective_membership = boot, commit_index = 0, last_applied = 0, role = Follower,
      leader_id = None, votes_received = {}, leader = None, snapshot_data = [],
      has_snapshot_store = False, pending_staged_snapshot = None, serving_ready = (\<not> joining),
      successful_append_seen = False, recovery_readiness_pending = False,
      transfer_in_progress = None, persistence = None,
      election_timeout_base_ms = ELECTION_TIMEOUT_BASE_MS, has_apply_tx = False,
      has_confirmed_apply_tx = False, pending_clients = [], pending_membership_rpcs = [],
      machine = mach, out = []\<rparr>"

definition raft_new :: "nodeid \<Rightarrow> nodeid list \<Rightarrow> 'm \<Rightarrow> ('s, 'm) raft_node" where
  "raft_new i peers mach =
     (let boot = bootstrap i peers in
      from_bootstrap i boot False (ps_new\<lparr>membership := Some boot\<rparr>) mach)"

definition new_learner :: "nodeid \<Rightarrow> nodeid list \<Rightarrow> 'm \<Rightarrow> raft_error + ('s, 'm) raft_node" where
  "new_learner i seed_voters mach =
     rbind (map_err RaftMembership (bootstrap_learner i seed_voters)) (\<lambda>boot.
       Inr (from_bootstrap i boot True ps_new mach))"

definition new_learner_from_genesis ::
  "nodeid \<Rightarrow> nodeid list \<Rightarrow> nodeid list \<Rightarrow> 'm \<Rightarrow> raft_error + ('s, 'm) raft_node" where
  "new_learner_from_genesis i genesis_voters seed_voters mach =
     rbind (new_learner i genesis_voters mach) (\<lambda>n.
       if seed_voters = [] \<or> 128 < length seed_voters \<or> i \<in> set seed_voters
       then Inl InvalidJoiningVoters
       else Inr (n\<lparr>joining_seeds := set seed_voters\<rparr>))"

definition with_apply_tx :: "('s, 'm) raft_node \<Rightarrow> ('s, 'm) raft_node" where
  "with_apply_tx n = n\<lparr>has_apply_tx := True, has_confirmed_apply_tx := False\<rparr>"

definition with_durable_apply_frontier ::
  "nat \<Rightarrow> ('s, 'm) raft_node \<Rightarrow> ('s, 'm) raft_node option" where
  "with_durable_apply_frontier applied_index n =
     (if applied_index < snapshot_index (ps n) then None
      else if last_log_index (ps n) < applied_index then None
      else Some (n\<lparr>commit_index := max (commit_index n) applied_index,
                   last_applied := max (last_applied n) applied_index\<rparr>))"

definition with_confirmed_apply_tx ::
  "('s, 'm) raft_node \<Rightarrow> ('s, 'm) raft_node option" where
  "with_confirmed_apply_tx n =
     (let has_unrecoverable_snapshot =
            (snapshot_index (ps n) \<noteq> 0 \<or> snapshot_data n \<noteq> []) \<and> \<not> has_snapshot_store n;
          has_unrecoverable_install =
            some_and (pending_staged_snapshot n) (\<lambda>st. st_kind st = Installation) \<and>
            \<not> has_snapshot_store n
      in if has_unrecoverable_snapshot \<or> has_unrecoverable_install then None
         else Some (n\<lparr>has_confirmed_apply_tx := True, has_apply_tx := False\<rparr>))"

definition restore_active_snapshot_if_possible ::
  "('s, 'm) raft_env \<Rightarrow> ('s, 'm) raft_node \<Rightarrow> ('s, 'm) raft_node option" where
  "restore_active_snapshot_if_possible env n =
     (let has_boundary = (snapshot_index (ps n) \<noteq> 0); has_bytes = (snapshot_data n \<noteq> []) in
      if has_boundary \<noteq> has_bytes then None
      else if \<not> has_boundary then Some n
      else if \<not> has_snapshot_store n then Some n
      else do {
        sql_bytes \<leftarrow>
          (case decode_snapshot_payload (codec_of env) (snapshot_data n) of
             Inl _ \<Rightarrow> None
           | Inr None \<Rightarrow> Some (snapshot_data n)
           | Inr (Some (m, sql_bytes)) \<Rightarrow> do {
               _ \<leftarrow> or_panic (validate_snapshot_membership_boundary m (snapshot_index (ps n)));
               if some_and (membership (ps n))
                    (\<lambda>current. config_index current \<le> snapshot_index (ps n) \<and> current \<noteq> m)
               then None else Some sql_bytes });
        (case sm_restore env (machine n) (snapshot_index (ps n)) (snapshot_term (ps n)) sql_bytes of
           (mach, Inl _) \<Rightarrow> None
         | (mach, Inr _) \<Rightarrow> Some (n\<lparr>machine := mach\<rparr>)) })"

definition clear_staged ::
  "('s, 'm) raft_env \<Rightarrow> ('s, 'm) raft_node \<Rightarrow> 's \<Rightarrow> ('s, 'm) raft_node option" where
  "clear_staged env n store =
     (case store_clear env store of
        Inl _ \<Rightarrow> None
      | Inr store' \<Rightarrow> Some (n\<lparr>persistence := Some store', pending_staged_snapshot := None\<rparr>))"

definition staged_snapshot_contents ::
  "('s, 'm) raft_env \<Rightarrow> ('s, 'm) raft_node \<Rightarrow> staged_snapshot \<Rightarrow>
   (cluster_membership option \<times> bytes) option" where
  "staged_snapshot_contents env n staged =
     (case decode_snapshot_payload (codec_of env) (st_data staged) of
        Inl _ \<Rightarrow> None
      | Inr None \<Rightarrow>
          if some_and (membership (ps n)) (\<lambda>m. 0 < config_index m) then None
          else Some (None, st_data staged)
      | Inr (Some (m, sql_bytes)) \<Rightarrow> do {
          _ \<leftarrow> or_panic (validate_incoming_snapshot_membership n m (st_index staged));
          Some (Some m, sql_bytes) })"

definition adopt_snapshot ::
  "cluster_membership option \<Rightarrow> nat \<Rightarrow> nat \<Rightarrow> bytes \<Rightarrow> ('s, 'm) raft_node \<Rightarrow> ('s, 'm) raft_node" where
  "adopt_snapshot incoming index term data n =
     (let p = (case incoming of None \<Rightarrow> ps n | Some m \<Rightarrow> (ps n)\<lparr>membership := Some m\<rparr>) in
      n\<lparr>ps := install_snapshot p index term, snapshot_data := data,
        commit_index := max (commit_index n) index, last_applied := max (last_applied n) index\<rparr>)"

definition recover_staged_snapshot_if_possible ::
  "('s, 'm) raft_env \<Rightarrow> ('s, 'm) raft_node \<Rightarrow> (('s, 'm) raft_node \<times> bool) option" where
  "recover_staged_snapshot_if_possible env n =
     (case (pending_staged_snapshot n, persistence n) of
        (Some staged, Some store) \<Rightarrow>
          (case st_kind staged of
             Creation \<Rightarrow> do { n' \<leftarrow> clear_staged env n store; Some (n', False) }
           | Installation \<Rightarrow>
               if \<not> has_snapshot_store n then Some (n, False)
               else if st_index staged \<le> snapshot_index (ps n)
               then do { n' \<leftarrow> clear_staged env n store; Some (n', False) }
               else do {
                 (incoming, sql_bytes) \<leftarrow> staged_snapshot_contents env n staged;
                 _ \<leftarrow> or_panic (sm_validate env (machine n) (st_index staged) (st_term staged) sql_bytes);
                 n1 \<leftarrow> (case sm_restore env (machine n) (st_index staged) (st_term staged) sql_bytes of
                    (mach, Inl _) \<Rightarrow> None
                  | (mach, Inr _) \<Rightarrow> Some (n\<lparr>machine := mach\<rparr>));
                 n2 \<leftarrow> or_panic (recompute_effective_membership env
                    (adopt_snapshot incoming (st_index staged) (st_term staged) (st_data staged) n1));
                 store' \<leftarrow> or_panic (store_save env (ps n2) (snapshot_data n2) store);
                 Some (n2\<lparr>persistence := Some store', pending_staged_snapshot := None\<rparr>, True) })
      | _ \<Rightarrow> Some (n, False))"

definition with_snapshot_store ::
  "('s, 'm) raft_env \<Rightarrow> ('s, 'm) raft_node \<Rightarrow> ('s, 'm) raft_node option" where
  "with_snapshot_store env n = do {
     (n', recovered_install) \<leftarrow>
        recover_staged_snapshot_if_possible env (n\<lparr>has_snapshot_store := True\<rparr>);
     if \<not> recovered_install then restore_active_snapshot_if_possible env n' else Some n' }"

text \<open>The state that a restart adopts from the store, with the migration flag.\<close>

definition adopt_loaded ::
  "('s, 'm) raft_node \<Rightarrow> persistent_state \<Rightarrow> bytes \<Rightarrow> (('s, 'm) raft_node \<times> bool) option" where
  "adopt_loaded n p snap =
     (if (snapshot_index p \<noteq> 0) \<noteq> (snap \<noteq> []) then None
      else
        let migrated = (membership p = None \<and> \<not> joining_learner n);
            p' = (if migrated then p\<lparr>membership := Some (bootstrap_membership n)\<rparr> else p)
        in do {
          _ \<leftarrow> (case membership p' of
                  None \<Rightarrow> Some ()
                | Some m \<Rightarrow> or_panic (validate_persisted_membership m p'));
          Some (n\<lparr>snapshot_data := snap, ps := p', commit_index := snapshot_index p',
                  last_applied := snapshot_index p'\<rparr>, migrated) })"

definition retire_if_removed :: "('s, 'm) raft_node \<Rightarrow> ('s, 'm) raft_node" where
  "retire_if_removed n =
     (if some_and (membership (ps n)) (\<lambda>m. is_removed m (node_id n))
      then n\<lparr>serving_ready := False\<rparr> else n)"

definition settle_readiness :: "bool \<Rightarrow> ('s, 'm) raft_node \<Rightarrow> ('s, 'm) raft_node" where
  "settle_readiness fresh n =
     (let n1 = (if \<not> fresh then n\<lparr>recovery_readiness_pending := True, serving_ready := False\<rparr> else n);
          n2 = (if fresh \<and> (joining_learner n1 \<or>
                  replication_targets (effective_membership n1) - {node_id n1} \<noteq> {})
                then n1\<lparr>serving_ready := False\<rparr> else n1)
      in retire_if_removed n2)"

definition with_persistence ::
  "('s, 'm) raft_env \<Rightarrow> 's \<Rightarrow> ('s, 'm) raft_node \<Rightarrow> ('s, 'm) raft_node option" where
  "with_persistence env store n = do {
     loaded \<leftarrow> or_panic (store_load env store);
     staged \<leftarrow> or_panic (store_load_staged env store);
     (n1, migrated) \<leftarrow>
        (case loaded of None \<Rightarrow> Some (n, False) | Some (p, snap) \<Rightarrow> adopt_loaded n p snap);
     n2 \<leftarrow> or_panic (recompute_effective_membership env
             (n1\<lparr>persistence := Some store, pending_staged_snapshot := staged\<rparr>));
     (n3, recovered_install) \<leftarrow> recover_staged_snapshot_if_possible env n2;
     n4 \<leftarrow> (if \<not> recovered_install then restore_active_snapshot_if_possible env n3 else Some n3);
     n5 \<leftarrow> (if migrated \<and> pending_staged_snapshot n4 = None then persist env n4 else Some n4);
     Some (settle_readiness (loaded = None) n5) }"

section \<open>Timeouts\<close>

text \<open>\<open>draw k\<close> is the value \<open>gen_range(0..k)\<close> returns.\<close>

definition election_timeout :: "(nat \<Rightarrow> nat) \<Rightarrow> ('s, 'm) raft_node \<Rightarrow> nat" where
  "election_timeout draw n =
     (let base = election_timeout_base_ms n; jitter_range = max base 10 in
      base + draw jitter_range)"

definition campaign_timeout :: "(nat \<Rightarrow> nat) \<Rightarrow> ('s, 'm) raft_node \<Rightarrow> nat" where
  "campaign_timeout draw n =
     (let floor = max ELECTION_CAMPAIGN_GRACE_MS (min (election_timeout_base_ms n * 2) u64_max);
          jitter_range = min (max (election_timeout_base_ms n) 50) 500
      in sat_add floor (draw jitter_range))"

section \<open>Replication\<close>

definition heartbeat_for :: "('s, 'm) raft_node \<Rightarrow> nodeid \<Rightarrow> raft_message" where
  "heartbeat_for n peer =
     (let next = unwrap_or (case leader n of None \<Rightarrow> None | Some l \<Rightarrow> next_index l peer) 1 in
      if snapshot_data n \<noteq> [] \<and> next \<le> snapshot_index (ps n)
      then InstallSnapshot \<lparr>is_term = current_term (ps n), is_leader_id = node_id n,
             is_last_included_index = snapshot_index (ps n),
             is_last_included_term = snapshot_term (ps n),
             is_data = snapshot_data n, is_done = True\<rparr>
      else
        let prev_log_index = next - 1 in
        AppendEntries \<lparr>ae_term = current_term (ps n), ae_leader_id = node_id n,
          ae_prev_log_index = prev_log_index, ae_prev_log_term = term_at (ps n) prev_log_index,
          ae_entries = entries_from (ps n) next, ae_leader_commit = commit_index n\<rparr>)"

definition peer_targets :: "('s, 'm) raft_node \<Rightarrow> nodeid list" where
  "peer_targets n =
     sorted_list_of_set (replication_targets (effective_membership n) - {node_id n})"

definition send_heartbeats :: "('s, 'm) raft_node \<Rightarrow> ('s, 'm) raft_node" where
  "send_heartbeats n =
     n\<lparr>out := out n @ map (\<lambda>peer. Send peer (heartbeat_for n peer)) (peer_targets n)\<rparr>"

definition try_advance_commit :: "('s, 'm) raft_node \<Rightarrow> ('s, 'm) raft_node option" where
  "try_advance_commit n =
     (if role n \<noteq> Leader then Some n
      else
        let candidates = filter (\<lambda>idx. term_at (ps n) idx = current_term (ps n))
              (rev [commit_index n + 1 ..< last_log_index (ps n) + 1])
        in case leader n of
             None \<Rightarrow> if candidates = [] then Some n else None
           | Some l \<Rightarrow>
               (case find (\<lambda>idx. has_match_quorum (effective_membership n) (node_id n)
                             (match_index l) idx) candidates of
                  None \<Rightarrow> Some n
                | Some idx \<Rightarrow> Some (n\<lparr>commit_index := idx\<rparr>)))"

section \<open>Role changes\<close>

definition become_follower ::
  "('s, 'm) raft_env \<Rightarrow> nat \<Rightarrow> ('s, 'm) raft_node \<Rightarrow> ('s, 'm) raft_node option" where
  "become_follower env term n =
     (let n1 = fail_uncommitted_clients LeadershipLost n;
          p = (if current_term (ps n1) < term
               then (ps n1)\<lparr>current_term := term, voted_for := None\<rparr> else ps n1)
      in persist env (n1\<lparr>ps := p, role := Follower, leader_id := None, leader := None,
           votes_received := {}\<rparr>))"

text \<open>The first \<open>FinalizeJoint\<close> entry above the committed configuration.\<close>

fun find_finalize :: "codec \<Rightarrow> nat \<Rightarrow> log_entry list \<Rightarrow> raft_error + nat" where
  "find_finalize cd committed [] = Inl FinalizeMissing"
| "find_finalize cd committed (e # es) =
     (if le_index e \<le> committed then find_finalize cd committed es
      else rbind (decode_membership_command cd (le_command e)) (\<lambda>c.
        if c = Some FinalizeJoint then Inr (le_index e) else find_finalize cd committed es))"

definition ensure_joint_finalize_entry ::
  "('s, 'm) raft_env \<Rightarrow> ('s, 'm) raft_node \<Rightarrow> (('s, 'm) raft_node \<times> (raft_error + nat)) option" where
  "ensure_joint_finalize_entry env n =
     (if role n \<noteq> Leader then Some (n, Inl FinalizeNotLeader)
      else if \<not> is_joint (committed_membership n) then Some (n, Inl CommittedNotJoint)
      else if \<not> is_joint (effective_membership n)
      then Some (n, find_finalize (codec_of env) (config_index (committed_membership n))
             (ps_log (ps n)))
      else
        let (p, idx) = log_append (ps n) (current_term (ps n))
              (encode_membership_change (codec_of env) FinalizeJoint);
            n1 = n\<lparr>ps := p\<rparr>
        in case recompute_effective_membership env n1 of
             Inl e \<Rightarrow> Some (n1, Inl e)
           | Inr n2 \<Rightarrow> do { n3 \<leftarrow> persist env n2; Some (n3, Inr idx) })"

text \<open>The three parts of \<open>become_leader\<close>: the role with fresh replication state (and a fresh
  transport epoch per peer), the current-term barrier over an unresolved tail, and the
  finalizer of an interrupted joint configuration.\<close>

definition assume_leadership :: "('s, 'm) raft_node \<Rightarrow> ('s, 'm) raft_node" where
  "assume_leadership n =
     (let next = last_log_index (ps n) + 1; targets = peer_targets n in
      n\<lparr>role := Leader, leader_id := Some (node_id n),
        serving_ready := (if \<not> recovery_readiness_pending n then True else serving_ready n),
        out := out n @ map ResetPeer targets,
        leader := Some \<lparr>
          next_index = (\<lambda>p. if p \<in> set targets then Some next else None),
          match_index = (\<lambda>p. if p \<in> set targets then Some 0 else None)\<rparr>\<rparr>)"

definition recovery_barrier ::
  "('s, 'm) raft_env \<Rightarrow> ('s, 'm) raft_node \<Rightarrow> ('s, 'm) raft_node option" where
  "recovery_barrier env n =
     (if recovery_readiness_pending n \<or> commit_index n < last_log_index (ps n)
      then persist env (n\<lparr>ps := fst (log_append (ps n) (current_term (ps n)) [])\<rparr>)
      else Some n)"

definition finish_joint ::
  "('s, 'm) raft_env \<Rightarrow> ('s, 'm) raft_node \<Rightarrow> ('s, 'm) raft_node option" where
  "finish_joint env n =
     (if is_joint (committed_membership n) \<and> is_joint (effective_membership n)
      then (case ensure_joint_finalize_entry env n of
              None \<Rightarrow> None
            | Some (n', Inl _) \<Rightarrow> None
            | Some (n', Inr _) \<Rightarrow> Some n')
      else Some n)"

definition become_leader ::
  "('s, 'm) raft_env \<Rightarrow> ('s, 'm) raft_node \<Rightarrow> ('s, 'm) raft_node option" where
  "become_leader env n =
     (if \<not> is_voter (effective_membership n) (node_id n) then Some (n\<lparr>role := Follower\<rparr>)
      else do {
        n3 \<leftarrow> recovery_barrier env (assume_leadership n);
        n4 \<leftarrow> finish_joint env n3;
        n5 \<leftarrow> try_advance_commit n4;
        Some (send_heartbeats n5) })"

section \<open>Elections\<close>

definition campaign_state :: "('s, 'm) raft_node \<Rightarrow> ('s, 'm) raft_node" where
  "campaign_state n =
     n\<lparr>role := Candidate,
       ps := (ps n)\<lparr>current_term := current_term (ps n) + 1, voted_for := Some (node_id n)\<rparr>,
       votes_received := {node_id n}, leader_id := None\<rparr>"

definition request_votes :: "('s, 'm) raft_node \<Rightarrow> ('s, 'm) raft_node" where
  "request_votes n =
     (let args = \<lparr>rv_term = current_term (ps n), rv_candidate_id = node_id n,
                   rv_last_log_index = last_log_index (ps n),
                   rv_last_log_term = last_log_term (ps n)\<rparr>;
          targets = filter (\<lambda>i. i \<noteq> node_id n)
            (sorted_list_of_set (election_targets (effective_membership n)))
      in n\<lparr>out := out n @ map (\<lambda>peer. Send peer (RequestVote args)) targets\<rparr>)"

definition start_election ::
  "('s, 'm) raft_env \<Rightarrow> ('s, 'm) raft_node \<Rightarrow> ('s, 'm) raft_node option" where
  "start_election env n =
     (if \<not> is_voter (effective_membership n) (node_id n)
      then Some (n\<lparr>role := Follower, votes_received := {}\<rparr>)
      else do {
        n1 \<leftarrow> persist env (campaign_state n);
        let n2 = request_votes n1
        in if has_vote_quorum (effective_membership n2) (votes_received n2)
           then become_leader env n2 else Some n2 })"

text \<open>The decision after the term has been adopted: one vote per term, for a log at least as
  up to date as this one, saved before the answer.\<close>

definition grants_vote :: "request_vote_args \<Rightarrow> ('s, 'm) raft_node \<Rightarrow> bool" where
  "grants_vote args n =
     (let already_voted = some_and (voted_for (ps n)) (\<lambda>v. v \<noteq> rv_candidate_id args);
          log_up_to_date = (last_log_term (ps n) < rv_last_log_term args \<or>
            rv_last_log_term args = last_log_term (ps n) \<and>
            last_log_index (ps n) \<le> rv_last_log_index args)
      in \<not> already_voted \<and> log_up_to_date)"

definition cast_vote ::
  "('s, 'm) raft_env \<Rightarrow> request_vote_args \<Rightarrow> ('s, 'm) raft_node \<Rightarrow>
   (('s, 'm) raft_node \<times> request_vote_reply) option" where
  "cast_vote env args n =
     (let vote_granted = grants_vote args n in do {
        n' \<leftarrow> (if vote_granted
                then persist env (n\<lparr>ps := (ps n)\<lparr>voted_for := Some (rv_candidate_id args)\<rparr>\<rparr>)
                else Some n);
        Some (n', \<lparr>rvr_term = current_term (ps n'), rvr_vote_granted = vote_granted\<rparr>) })"

definition on_request_vote ::
  "('s, 'm) raft_env \<Rightarrow> request_vote_args \<Rightarrow> ('s, 'm) raft_node \<Rightarrow>
   (('s, 'm) raft_node \<times> request_vote_reply) option" where
  "on_request_vote env args n =
     (if \<not> is_voter (effective_membership n) (node_id n) \<or>
         \<not> is_voter (effective_membership n) (rv_candidate_id args) \<or>
         some_and (membership (ps n)) (\<lambda>m. is_removed m (rv_candidate_id args))
      then Some (n, \<lparr>rvr_term = current_term (ps n), rvr_vote_granted = False\<rparr>)
      else if rv_term args < current_term (ps n)
      then Some (n, \<lparr>rvr_term = current_term (ps n), rvr_vote_granted = False\<rparr>)
      else do {
        n1 \<leftarrow> (if current_term (ps n) < rv_term args
                then become_follower env (rv_term args) n else Some n);
        cast_vote env args n1 })"

definition on_request_vote_reply ::
  "('s, 'm) raft_env \<Rightarrow> nodeid \<Rightarrow> request_vote_reply \<Rightarrow> ('s, 'm) raft_node \<Rightarrow>
   ('s, 'm) raft_node option" where
  "on_request_vote_reply env from reply n =
     (if current_term (ps n) < rvr_term reply then become_follower env (rvr_term reply) n
      else if rvr_term reply \<noteq> current_term (ps n) then Some n
      else if role n \<noteq> Candidate \<or> \<not> is_voter (effective_membership n) from then Some n
      else if rvr_vote_granted reply then
        let n1 = n\<lparr>votes_received := insert from (votes_received n)\<rparr> in
        if has_vote_quorum (effective_membership n1) (votes_received n1)
        then become_leader env n1 else Some n1
      else Some n)"

section \<open>Log replication\<close>

text \<open>Shared by \<open>on_append_entries\<close> and \<open>on_install_snapshot\<close>: step down when the sender's term
  is newer, or equal while this node is not a follower, and record the leader.\<close>

definition recognise_leader ::
  "('s, 'm) raft_env \<Rightarrow> nat \<Rightarrow> nodeid \<Rightarrow> ('s, 'm) raft_node \<Rightarrow> ('s, 'm) raft_node option" where
  "recognise_leader env term l n = do {
     n0 \<leftarrow> (if current_term (ps n) < term \<or>
               (term = current_term (ps n) \<and> role n \<noteq> Follower \<and> l \<noteq> node_id n)
             then become_follower env term n else Some n);
     Some (n0\<lparr>leader_id := Some l\<rparr>) }"

definition store_entries ::
  "('s, 'm) raft_env \<Rightarrow> append_entries_args \<Rightarrow> ('s, 'm) raft_node \<Rightarrow> ('s, 'm) raft_node option" where
  "store_entries env args n =
     (if ae_entries args \<noteq> [] then do {
        n' \<leftarrow> or_panic (recompute_effective_membership env
           (n\<lparr>ps := truncate_and_append (ps n) (ae_prev_log_index args) (ae_entries args)\<rparr>));
        persist env n' }
      else Some n)"

definition follow_commit ::
  "append_entries_args \<Rightarrow> ('s, 'm) raft_node \<Rightarrow> ('s, 'm) raft_node" where
  "follow_commit args n =
     (if commit_index n < ae_leader_commit args
      then n\<lparr>commit_index := min (ae_leader_commit args) (last_log_index (ps n))\<rparr> else n)"

definition on_append_entries ::
  "('s, 'm) raft_env \<Rightarrow> append_entries_args \<Rightarrow> ('s, 'm) raft_node \<Rightarrow>
   (('s, 'm) raft_node \<times> append_entries_reply) option" where
  "on_append_entries env args n =
     (let answer = (\<lambda>ok n'. (n', \<lparr>aer_term = current_term (ps n'), aer_success = ok,
                                 aer_match_index = last_log_index (ps n')\<rparr>))
      in if \<not> accepts_replication_from n (ae_leader_id args) \<or>
            some_and (membership (ps n)) (\<lambda>m. is_removed m (ae_leader_id args))
         then Some (answer False n)
         else if ae_term args < current_term (ps n) then Some (answer False n)
         else do {
           n1 \<leftarrow> recognise_leader env (ae_term args) (ae_leader_id args) n;
           if 0 < ae_prev_log_index args \<and>
              term_at (ps n1) (ae_prev_log_index args) \<noteq> ae_prev_log_term args
           then Some (answer False n1)
           else do {
             n2 \<leftarrow> store_entries env args (n1\<lparr>successful_append_seen := True\<rparr>);
             Some (answer True (follow_commit args n2)) } })"

definition on_append_entries_reply ::
  "('s, 'm) raft_env \<Rightarrow> nodeid \<Rightarrow> append_entries_reply \<Rightarrow> ('s, 'm) raft_node \<Rightarrow>
   ('s, 'm) raft_node option" where
  "on_append_entries_reply env from reply n =
     (if current_term (ps n) < aer_term reply then become_follower env (aer_term reply) n
      else if aer_term reply \<noteq> current_term (ps n) then Some n
      else if role n \<noteq> Leader \<or> from \<notin> replication_targets (effective_membership n) then Some n
      else case leader n of
        None \<Rightarrow> Some n
      | Some l \<Rightarrow>
          if aer_success reply then
            try_advance_commit (n\<lparr>leader := Some (l\<lparr>
              match_index := (match_index l)(from \<mapsto> aer_match_index reply),
              next_index := (next_index l)(from \<mapsto> sat_add (aer_match_index reply) 1)\<rparr>)\<rparr>)
          else
            let cur = unwrap_or (next_index l from) 1;
                follower_next = sat_add (aer_match_index reply) 1;
                retry = max (min (cur - 1) follower_next) 1
            in Some (n\<lparr>leader := Some (l\<lparr>next_index := (next_index l)(from \<mapsto> retry)\<rparr>)\<rparr>))"

section \<open>Client and admin commands\<close>

definition validate_membership_request ::
  "('s, 'm) raft_node \<Rightarrow> membership_change \<Rightarrow> raft_error + unit" where
  "validate_membership_request n change =
     (if membership_transition_active n then Inl TransitionActive
      else
        let next = sat_add (last_log_index (ps n)) 1; m = effective_membership n in
        case change of
          AddNode i \<Rightarrow> rbind (map_err RaftMembership (add_learner m i next)) (\<lambda>_. Inr ())
        | AddLearner i \<Rightarrow> rbind (map_err RaftMembership (add_learner m i next)) (\<lambda>_. Inr ())
        | PromoteLearner i \<Rightarrow>
            if \<not> is_learner m i then Inl (NotALearner i)
            else
              let matched = unwrap_or (case leader n of None \<Rightarrow> None | Some l \<Rightarrow> match_index l i) 0 in
              if matched < commit_index n then Inl (LearnerBehind i matched (commit_index n))
              else rbind (map_err RaftMembership (begin_promotion m i next)) (\<lambda>_. Inr ())
        | RemoveNode i \<Rightarrow>
            if i = node_id n \<and> is_voter m i then Inl CannotRemoveLeader
            else rbind (map_err RaftMembership (begin_removal m i next)) (\<lambda>_. Inr ())
        | FinalizeJoint \<Rightarrow> Inl FinalizeIsInternal)"

definition operator_status :: "('s, 'm) raft_node \<Rightarrow> operator_status_r" where
  "operator_status n =
     \<lparr>os_id = node_id n, os_leader = leader_id n, os_is_leader = (role n = Leader),
      os_term = current_term (ps n), os_committed = committed_membership n,
      os_transition_pending = membership_transition_active n, os_applied = last_applied n,
      os_commit_index = commit_index n, os_ready = serving_ready n,
      os_matched = (case leader n of None \<Rightarrow> Map.empty | Some l \<Rightarrow> match_index l),
      os_authority_index = 0\<rparr>"

definition validate_operator_guard ::
  "('s, 'm) raft_node \<Rightarrow> membership_guard \<Rightarrow> raft_error + unit" where
  "validate_operator_guard n guard =
     (if role n \<noteq> Leader \<or> mg_leader guard \<noteq> node_id n \<or>
         mg_term guard \<noteq> current_term (ps n) \<or>
         mg_generation guard \<noteq> generation (committed_membership n) \<or>
         membership_transition_active n \<or> \<not> serving_ready n
      then Inl StaleGuard else Inr ())"

text \<open>The second half of a compaction: publish the boundary and save.\<close>

definition publish_snapshot ::
  "('s, 'm) raft_env \<Rightarrow> nat \<Rightarrow> nat \<Rightarrow> bytes \<Rightarrow> ('s, 'm) raft_node \<Rightarrow>
   (('s, 'm) raft_node \<times> (raft_error + nat)) option" where
  "publish_snapshot env safe_last last_term data n =
     (let n1 = n\<lparr>ps := install_snapshot (ps n) safe_last last_term, snapshot_data := data\<rparr> in
      case recompute_effective_membership env n1 of
        Inl e \<Rightarrow> Some (n1, Inl e)
      | Inr n2 \<Rightarrow> do { n3 \<leftarrow> persist env n2; Some (n3, Inr safe_last) })"

definition compact_with_store ::
  "('s, 'm) raft_env \<Rightarrow> nat \<Rightarrow> cluster_membership \<Rightarrow> ('s, 'm) raft_node \<Rightarrow>
   (('s, 'm) raft_node \<times> (raft_error + nat)) option" where
  "compact_with_store env last_index m n =
     (let safe_last = min (min last_index (commit_index n)) (last_applied n);
          last_term = term_at (ps n) safe_last
      in if safe_last \<le> snapshot_index (ps n) then Some (n, Inr (snapshot_index (ps n)))
         else if safe_last < config_index m
         then Some (n, Inl (BoundaryBeforeMembership safe_last (config_index m)))
         else if last_term = 0 then Some (n, Inl (BoundaryTermUnavailable safe_last))
         else
           case rbind (map_err SnapshotCreationFailed (sm_create env (machine n) safe_last last_term)) (\<lambda>sql_data.
                rbind (map_err SnapshotSelfCheckFailed
                   (sm_validate env (machine n) safe_last last_term sql_data)) (\<lambda>_.
                rbind (map_err RaftPayload (encode_snapshot_payload (codec_of env) m sql_data)) (\<lambda>data.
                rbind (ok_or (persistence n) CompactionNeedsPersistence) (\<lambda>store.
                rbind (map_err StageFailed (store_stage env
                   \<lparr>st_kind = Creation, st_index = safe_last, st_term = last_term, st_data = data\<rparr>
                   store)) (\<lambda>store'. Inr (data, store')))))) of
             Inl e \<Rightarrow> Some (n, Inl e)
           | Inr (data, store') \<Rightarrow>
               publish_snapshot env safe_last last_term data (n\<lparr>persistence := Some store'\<rparr>))"

definition compact_without_store ::
  "('s, 'm) raft_env \<Rightarrow> nat \<Rightarrow> bytes \<Rightarrow> cluster_membership \<Rightarrow> ('s, 'm) raft_node \<Rightarrow>
   (('s, 'm) raft_node \<times> (raft_error + nat)) option" where
  "compact_without_store env last_index raw_data m n =
     (let safe_last = min last_index (commit_index n); last_term = term_at (ps n) safe_last in
      if safe_last = 0 then Some (n, Inr 0)
      else if safe_last \<le> snapshot_index (ps n) then Some (n, Inr (snapshot_index (ps n)))
      else if safe_last < config_index m
      then Some (n, Inl (BoundaryBeforeMembership safe_last (config_index m)))
      else case encode_snapshot_payload (codec_of env) m raw_data of
             Inl e \<Rightarrow> Some (n, Inl (RaftPayload e))
           | Inr data \<Rightarrow> publish_snapshot env safe_last last_term data n)"

definition handle_compact_log_cmd ::
  "('s, 'm) raft_env \<Rightarrow> bytes \<Rightarrow> ('s, 'm) raft_node \<Rightarrow>
   (('s, 'm) raft_node \<times> (raft_error + nat)) option" where
  "handle_compact_log_cmd env payload n =
     (if length payload < 2 + 8 then Some (n, Inl CompactTooShort)
      else
        let last_index = be_value (slice 2 10 payload) in
        if membership_transition_active n then Some (n, Inl CompactDuringTransition)
        else case membership (ps n) of
          None \<Rightarrow> Some (n, Inl NoAuthoritativeMembership)
        | Some m \<Rightarrow>
            if is_joint m then Some (n, Inl CompactJoint)
            else if has_snapshot_store n then compact_with_store env last_index m n
            else if has_confirmed_apply_tx n then Some (n, Inl CompactionDisabled)
            else compact_without_store env last_index (drop 10 payload) m n)"

text \<open>The guard of an operator request is checked and stripped before anything is logged.\<close>

definition strip_guard ::
  "('s, 'm) raft_env \<Rightarrow> ('s, 'm) raft_node \<Rightarrow> bytes \<Rightarrow> raft_error + bytes" where
  "strip_guard env n payload =
     (if starts_with payload GUARDED_MEMBERSHIP_TAG then
        if 4096 < length payload then Inl GuardedTooLarge
        else
          rbind (map_err InvalidGuarded (guarded_from_json (codec_of env)
             (drop (length GUARDED_MEMBERSHIP_TAG) payload))) (\<lambda>request.
          rbind (validate_operator_guard n (gm_guard request)) (\<lambda>_.
            Inr (encode_membership_change (codec_of env) (gm_change request))))
      else Inr payload)"

definition append_command ::
  "('s, 'm) raft_env \<Rightarrow> bytes \<Rightarrow> ('s, 'm) raft_node \<Rightarrow>
   (('s, 'm) raft_node \<times> (raft_error + nat)) option" where
  "append_command env payload n =
     (let (p, idx) = log_append (ps n) (current_term (ps n)) payload; n1 = n\<lparr>ps := p\<rparr> in
      case recompute_effective_membership env n1 of
        Inl e \<Rightarrow> Some (n1, Inl e)
      | Inr n2 \<Rightarrow> do { n3 \<leftarrow> persist env n2; Some (n3, Inr idx) })"

definition handle_client_command ::
  "('s, 'm) raft_env \<Rightarrow> bytes \<Rightarrow> ('s, 'm) raft_node \<Rightarrow>
   (('s, 'm) raft_node \<times> (raft_error + nat)) option" where
  "handle_client_command env payload0 n =
     (if role n \<noteq> Leader then Some (n, Inl (NotLeader (leader_id n)))
      else if transfer_in_progress n \<noteq> None then Some (n, Inl TransferInProgress)
      else case strip_guard env n payload0 of
        Inl e \<Rightarrow> Some (n, Inl e)
      | Inr payload \<Rightarrow>
          if starts_with payload COMPACT_LOG_TAG then handle_compact_log_cmd env payload n
          else if starts_with payload LEADER_TRANSFER_TAG then Some (n, Inl UseLeaderTransferRpc)
          else case rbind (decode_membership_command (codec_of env) payload) (\<lambda>c.
                 case c of None \<Rightarrow> Inr () | Some change \<Rightarrow> validate_membership_request n change) of
            Inl e \<Rightarrow> Some (n, Inl e)
          | Inr _ \<Rightarrow> append_command env payload n)"

section \<open>Committed membership\<close>

fun starts_joint :: "membership_change \<Rightarrow> bool" where
  "starts_joint (PromoteLearner _) = True"
| "starts_joint (RemoveNode _) = True"
| "starts_joint _ = False"

definition apply_committed_membership ::
  "('s, 'm) raft_env \<Rightarrow> log_entry \<Rightarrow> ('s, 'm) raft_node \<Rightarrow>
   (('s, 'm) raft_node \<times> (raft_error + bool)) option" where
  "apply_committed_membership env entry n =
     (case decode_membership_command (codec_of env) (le_command entry) of
        Inl e \<Rightarrow> Some (n, Inl e)
      | Inr None \<Rightarrow> Some (n, Inr False)
      | Inr (Some change) \<Rightarrow>
          if some_and (membership (ps n)) (\<lambda>m. le_index entry \<le> config_index m)
          then Some (n, Inr (starts_joint change \<and> is_joint (committed_membership n)))
          else
            let base = committed_membership n in
            case transition_membership base change (le_index entry) of
              Inl e \<Rightarrow> Some (n, Inl (RaftMembership e))
            | Inr next \<Rightarrow>
                let joint_started = (\<not> is_joint base \<and> is_joint next);
                    n1 = n\<lparr>ps := (ps n)\<lparr>membership := Some next\<rparr>\<rparr>
                in case recompute_effective_membership env n1 of
                     Inl e \<Rightarrow> Some (n1, Inl e)
                   | Inr n2 \<Rightarrow> do {
                       n3 \<leftarrow> persist env n2;
                       Some (retire_if_removed n3, Inr joint_started) })"

section \<open>Snapshot installation\<close>

text \<open>What \<open>on_install_snapshot\<close> extracts from the received bytes; \<open>None\<close> rejects them.\<close>

definition incoming_snapshot_contents ::
  "('s, 'm) raft_env \<Rightarrow> install_snapshot_args \<Rightarrow> ('s, 'm) raft_node \<Rightarrow>
   (cluster_membership option \<times> bytes) option" where
  "incoming_snapshot_contents env args n =
     (case decode_snapshot_payload (codec_of env) (is_data args) of
        Inl _ \<Rightarrow> None
      | Inr None \<Rightarrow>
          if some_and (membership (ps n)) (\<lambda>m. 0 < config_index m) then None
          else Some (None, is_data args)
      | Inr (Some (m, sql_bytes)) \<Rightarrow>
          if is_ok (validate_incoming_snapshot_membership n m (is_last_included_index args))
          then Some (Some m, sql_bytes) else None)"

text \<open>Validate, stage and restore through the snapshot hooks. The flag tells whether the
  installation goes on.\<close>

definition restore_incoming ::
  "('s, 'm) raft_env \<Rightarrow> install_snapshot_args \<Rightarrow> bytes \<Rightarrow> ('s, 'm) raft_node \<Rightarrow>
   (('s, 'm) raft_node \<times> bool) option" where
  "restore_incoming env args sql_bytes n =
     (let index = is_last_included_index args; term = is_last_included_term args in
      if has_snapshot_store n then
        if \<not> is_ok (sm_validate env (machine n) index term sql_bytes) then Some (n, False)
        else case persistence n of
          None \<Rightarrow> Some (n, False)
        | Some store \<Rightarrow> do {
            store1 \<leftarrow> or_panic (store_stage env \<lparr>st_kind = Installation, st_index = index,
                       st_term = term, st_data = is_data args\<rparr> store);
            (case sm_restore env (machine n) index term sql_bytes of
               (mach, Inl _) \<Rightarrow> do {
                 store2 \<leftarrow> or_panic (store_clear env store1);
                 Some (n\<lparr>persistence := Some store2, machine := mach\<rparr>, False) }
             | (mach, Inr _) \<Rightarrow> Some (n\<lparr>persistence := Some store1, machine := mach\<rparr>, True)) }
      else if has_confirmed_apply_tx n then None
      else Some (n, True))"

definition install_incoming ::
  "('s, 'm) raft_env \<Rightarrow> install_snapshot_args \<Rightarrow> cluster_membership option \<Rightarrow> bytes \<Rightarrow>
   ('s, 'm) raft_node \<Rightarrow> (('s, 'm) raft_node \<times> bool) option" where
  "install_incoming env args incoming sql_bytes n = do {
     (n1, go) \<leftarrow> restore_incoming env args sql_bytes n;
     if \<not> go then Some (n1, False)
     else do {
       n2 \<leftarrow> or_panic (recompute_effective_membership env
              (adopt_snapshot incoming (is_last_included_index args)
                 (is_last_included_term args) (is_data args) n1));
       n3 \<leftarrow> persist env n2;
       Some (n3, True) } }"

definition on_install_snapshot ::
  "('s, 'm) raft_env \<Rightarrow> install_snapshot_args \<Rightarrow> ('s, 'm) raft_node \<Rightarrow>
   (('s, 'm) raft_node \<times> install_snapshot_reply) option" where
  "on_install_snapshot env args n =
     (let answer = (\<lambda>ok n'. Some (n', \<lparr>isr_term = current_term (ps n'), isr_success = ok,
                                   isr_last_included_index = is_last_included_index args\<rparr>))
      in if \<not> accepts_replication_from n (is_leader_id args) \<or>
            some_and (membership (ps n)) (\<lambda>m. is_removed m (is_leader_id args)) then answer False n
         else if is_term args < current_term (ps n) then answer False n
         else do {
           n1 \<leftarrow> recognise_leader env (is_term args) (is_leader_id args) n;
           if \<not> is_done args then answer False n1
           else if is_last_included_index args \<le> snapshot_index (ps n1) then answer True n1
           else case incoming_snapshot_contents env args n1 of
             None \<Rightarrow> answer False n1
           | Some (incoming, sql_bytes) \<Rightarrow> do {
               (n2, ok) \<leftarrow> install_incoming env args incoming sql_bytes n1;
               Some (n2, \<lparr>isr_term = current_term (ps n2), isr_success = ok,
                          isr_last_included_index =
                            (if ok then snapshot_index (ps n2) else is_last_included_index args)\<rparr>) } })"

definition on_install_snapshot_reply ::
  "('s, 'm) raft_env \<Rightarrow> nodeid \<Rightarrow> install_snapshot_reply \<Rightarrow> ('s, 'm) raft_node \<Rightarrow>
   ('s, 'm) raft_node option" where
  "on_install_snapshot_reply env from reply n =
     (if current_term (ps n) < isr_term reply then become_follower env (isr_term reply) n
      else if isr_term reply \<noteq> current_term (ps n) then Some n
      else if role n \<noteq> Leader \<or> \<not> isr_success reply then Some n
      else if snapshot_index (ps n) < isr_last_included_index reply then Some n
      else if from \<notin> replication_targets (effective_membership n) then Some n
      else
        let acknowledged = isr_last_included_index reply;
            n1 = (case leader n of
                    None \<Rightarrow> n
                  | Some l \<Rightarrow> n\<lparr>leader := Some \<lparr>
                      next_index = (next_index l)(from \<mapsto>
                        max (unwrap_or (next_index l from) 1) (sat_add acknowledged 1)),
                      match_index = (match_index l)(from \<mapsto>
                        max (unwrap_or (match_index l from) 0) acknowledged)\<rparr>\<rparr>)
        in try_advance_commit n1)"

section \<open>Leadership transfer\<close>

definition choose_transfer_target :: "('s, 'm) raft_node \<Rightarrow> raft_error + nodeid" where
  "choose_transfer_target n =
     (if role n \<noteq> Leader then Inl (NotLeader None)
      else if membership_transition_active n then Inl TransferDuringTransition
      else case leader n of
        None \<Rightarrow> Inl NoLeaderState
      | Some l \<Rightarrow>
          ok_or (find (\<lambda>i. last_log_index (ps n) \<le> unwrap_or (match_index l i) 0)
                  (filter (\<lambda>i. i \<noteq> node_id n)
                    (sorted_list_of_set (election_targets (effective_membership n)))))
            NoEligibleTarget)"

definition initiate_leader_transfer ::
  "nat \<Rightarrow> nodeid \<Rightarrow> ('s, 'm) raft_node \<Rightarrow> raft_error + ('s, 'm) raft_node" where
  "initiate_leader_transfer now target n =
     (if role n \<noteq> Leader then Inl (NotLeader None)
      else if membership_transition_active n then Inl TransferDuringTransition
      else if \<not> is_stable_voter (effective_membership n) target \<or> target = node_id n
      then Inl (TargetNotStableVoter target)
      else
        let matched = unwrap_or (case leader n of None \<Rightarrow> None | Some l \<Rightarrow> match_index l target) 0 in
        if matched < last_log_index (ps n)
        then Inl (TargetBehind target matched (last_log_index (ps n)))
        else if transfer_in_progress n \<noteq> None then Inl TransferAlreadyInProgress
        else Inr (n\<lparr>transfer_in_progress := Some (target, now + LEADER_TRANSFER_TIMEOUT_MS)\<rparr>))"

definition on_leader_transfer ::
  "nat \<Rightarrow> nodeid \<Rightarrow> nodeid \<Rightarrow> ('s, 'm) raft_node \<Rightarrow> ('s, 'm) raft_node" where
  "on_leader_transfer now from target n =
     (case initiate_leader_transfer now target n of
        Inr n1 \<Rightarrow> emit (Send from (LeaderTransferReply True None))
                    (emit (Send target (TimeoutNow (current_term (ps n1)))) n1)
      | Inl e \<Rightarrow> emit (Send from (LeaderTransferReply False (Some e))) n)"

definition on_timeout_now ::
  "('s, 'm) raft_env \<Rightarrow> nat \<Rightarrow> (nat \<Rightarrow> nat) \<Rightarrow> nodeid \<Rightarrow> nat \<Rightarrow> nat \<Rightarrow> ('s, 'm) raft_node \<Rightarrow>
   (('s, 'm) raft_node \<times> nat) option" where
  "on_timeout_now env now draw from term deadline n =
     (if role n = Leader \<or> term < current_term (ps n) \<or>
         \<not> is_voter (effective_membership n) (node_id n) \<or>
         \<not> is_voter (effective_membership n) from \<or> leader_id n \<noteq> Some from
      then Some (n, deadline)
      else do {
        n1 \<leftarrow> (if current_term (ps n) < term then become_follower env term n else Some n);
        n2 \<leftarrow> start_election env n1;
        Some (n2, now + (if role n2 = Candidate then campaign_timeout draw n2
                         else election_timeout draw n2)) })"

end
