(* ===== verification/Raft_Loop.thy ===== *)
theory Raft_Loop
  imports Raft_Node
begin

text \<open>
  The event loop of \<open>RaftNode::spawn\<close> in \<open>consensus/raft.rs\<close>: message dispatch, the branches of
  the \<open>select!\<close>, the loop that applies committed entries, and the bookkeeping after it
  (election deadline, readiness, transfer expiry, the published view).

  An iteration takes one event; which event the runtime picks, the clock and the random
  draws are arguments. The apply loop takes fuel: \<open>apply_fuel\<close> (twice the number of unapplied
  log positions, and one round for a missing entry) is enough, since an application either consumes a position or replaces a
  joint-starting entry by its finalizer.
\<close>

section \<open>Message dispatch\<close>

definition handle_membership_cmd ::
  "('s, 'm) raft_env \<Rightarrow> nodeid \<Rightarrow> membership_change \<Rightarrow> ('s, 'm) raft_node \<Rightarrow>
   ('s, 'm) raft_node option" where
  "handle_membership_cmd env from change n =
     (if role n \<noteq> Leader
      then Some (emit (Send from (MembershipChangeCmdReply False (Some (NotLeader None)))) n)
      else do {
        (n1, r) \<leftarrow> handle_client_command env (encode_membership_change (codec_of env) change) n;
        (case r of
           Inr index \<Rightarrow> do {
             n2 \<leftarrow> try_advance_commit
               (n1\<lparr>pending_membership_rpcs := AList.update index from (pending_membership_rpcs n1)\<rparr>);
             Some (send_heartbeats n2) }
         | Inl e \<Rightarrow> Some (emit (Send from (MembershipChangeCmdReply False (Some e))) n1)) })"

definition handle_message ::
  "('s, 'm) raft_env \<Rightarrow> nat \<Rightarrow> (nat \<Rightarrow> nat) \<Rightarrow> nodeid \<Rightarrow> raft_message \<Rightarrow> nat \<Rightarrow>
   ('s, 'm) raft_node \<Rightarrow> (('s, 'm) raft_node \<times> nat) option" where
  "handle_message env now draw from msg deadline n =
     (case msg of
        RequestVote args \<Rightarrow> do {
          (n1, reply) \<leftarrow> on_request_vote env args n;
          let n2 = emit (Send from (RequestVoteReply reply)) n1
          in Some (n2, if rvr_vote_granted reply then now + campaign_timeout draw n2 else deadline) }
      | RequestVoteReply reply \<Rightarrow> do {
          n1 \<leftarrow> on_request_vote_reply env from reply n; Some (n1, deadline) }
      | AppendEntries args \<Rightarrow>
          let reset = (accepts_replication_from n (ae_leader_id args) \<and>
                       current_term (ps n) \<le> ae_term args)
          in do {
            (n1, reply) \<leftarrow> on_append_entries env args n;
            let n2 = emit (Send from (AppendEntriesReply reply)) n1
            in Some (n2, if reset then now + election_timeout draw n2 else deadline) }
      | AppendEntriesReply reply \<Rightarrow> do {
          n1 \<leftarrow> on_append_entries_reply env from reply n; Some (n1, deadline) }
      | InstallSnapshot args \<Rightarrow>
          let reset = (accepts_replication_from n (is_leader_id args) \<and>
                       current_term (ps n) \<le> is_term args)
          in do {
            (n1, reply) \<leftarrow> on_install_snapshot env args n;
            let n2 = emit (Send from (InstallSnapshotReply reply)) n1
            in Some (n2, if reset then now + election_timeout draw n2 else deadline) }
      | InstallSnapshotReply reply \<Rightarrow> do {
          n1 \<leftarrow> on_install_snapshot_reply env from reply n; Some (n1, deadline) }
      | MembershipChangeCmd change \<Rightarrow> do {
          n1 \<leftarrow> handle_membership_cmd env from change n; Some (n1, deadline) }
      | MembershipChangeCmdReply _ _ \<Rightarrow> Some (n, deadline)
      | LeaderTransfer target \<Rightarrow> Some (on_leader_transfer now from target n, deadline)
      | LeaderTransferReply _ _ \<Rightarrow> Some (n, deadline)
      | TimeoutNow term \<Rightarrow> on_timeout_now env now draw from term deadline n)"

section \<open>Applying committed entries\<close>

text \<open>The hand-over of one entry to the state machine.\<close>

definition hand_over ::
  "('s, 'm) raft_env \<Rightarrow> log_entry \<Rightarrow> ('s, 'm) raft_node \<Rightarrow> ('s, 'm) raft_node \<times> raft_error option" where
  "hand_over env entry n =
     (if has_confirmed_apply_tx n then
        case sm_confirm env (machine n) entry of
          (mach, Applied) \<Rightarrow> (n\<lparr>machine := mach\<rparr>, None)
        | (mach, ApplyShutdown) \<Rightarrow> (n\<lparr>machine := mach\<rparr>, Some ShuttingDown)
        | (mach, ApplyClosed) \<Rightarrow> (n\<lparr>machine := mach\<rparr>, Some ApplyChannelClosed)
        | (mach, ApplyError e) \<Rightarrow> (n\<lparr>machine := mach\<rparr>, Some (ApplyFailed (last_applied n + 1) e))
        | (mach, ApplyDropped) \<Rightarrow> (n\<lparr>machine := mach\<rparr>, Some (CompletionDropped (last_applied n + 1)))
      else if has_apply_tx n then
        case sm_handoff env (machine n) entry of
          (mach, Applied) \<Rightarrow> (n\<lparr>machine := mach\<rparr>, None)
        | (mach, ApplyShutdown) \<Rightarrow> (n\<lparr>machine := mach\<rparr>, Some ShuttingDown)
        | (mach, _) \<Rightarrow> (n\<lparr>machine := mach\<rparr>, Some ApplyChannelClosed)
      else (n, None))"

definition opt_emit :: "'a option \<Rightarrow> ('a \<Rightarrow> effect) \<Rightarrow> ('s, 'm) raft_node \<Rightarrow> ('s, 'm) raft_node" where
  "opt_emit x e n = (case x of None \<Rightarrow> n | Some y \<Rightarrow> emit (e y) n)"

definition opt_update :: "'k \<Rightarrow> 'v option \<Rightarrow> ('k \<times> 'v) list \<Rightarrow> ('k \<times> 'v) list" where
  "opt_update k x al = (case x of None \<Rightarrow> al | Some v \<Rightarrow> AList.update k v al)"

text \<open>Answering the waiting client and the waiting admin RPC of the applied index: at once, or
  by moving them to the finalizer of the joint configuration the entry has started.\<close>

definition refuse_waiting ::
  "nat option \<Rightarrow> nodeid option \<Rightarrow> raft_error \<Rightarrow> ('s, 'm) raft_node \<Rightarrow> ('s, 'm) raft_node" where
  "refuse_waiting client_reply rpc_reply e n =
     opt_emit rpc_reply (\<lambda>from. Send from (MembershipChangeCmdReply False (Some e)))
       (opt_emit client_reply (\<lambda>c. ClientReply c (Inl e)) n)"

definition accept_waiting ::
  "nat option \<Rightarrow> nodeid option \<Rightarrow> nat \<Rightarrow> ('s, 'm) raft_node \<Rightarrow> ('s, 'm) raft_node" where
  "accept_waiting client_reply rpc_reply index n =
     opt_emit rpc_reply (\<lambda>from. Send from (MembershipChangeCmdReply True None))
       (opt_emit client_reply (\<lambda>c. ClientReply c (Inr index)) n)"

definition await_finalize ::
  "('s, 'm) raft_env \<Rightarrow> nat option \<Rightarrow> nodeid option \<Rightarrow> ('s, 'm) raft_node \<Rightarrow>
   ('s, 'm) raft_node option" where
  "await_finalize env client_reply rpc_reply n = do {
     (n1, r) \<leftarrow> ensure_joint_finalize_entry env n;
     (case r of
        Inr final_index \<Rightarrow> do {
          n2 \<leftarrow> try_advance_commit (n1\<lparr>
            pending_clients := opt_update final_index client_reply (pending_clients n1),
            pending_membership_rpcs :=
              opt_update final_index rpc_reply (pending_membership_rpcs n1)\<rparr>);
          Some (send_heartbeats n2) }
      | Inl e \<Rightarrow> Some (refuse_waiting client_reply rpc_reply e n1)) }"

definition acknowledge ::
  "('s, 'm) raft_env \<Rightarrow> nat \<Rightarrow> bool \<Rightarrow> ('s, 'm) raft_node \<Rightarrow> ('s, 'm) raft_node option" where
  "acknowledge env index joint_started n =
     (let client_reply = map_of (pending_clients n) index;
          rpc_reply = map_of (pending_membership_rpcs n) index;
          n1 = n\<lparr>pending_clients := AList.delete index (pending_clients n),
                 pending_membership_rpcs := AList.delete index (pending_membership_rpcs n)\<rparr>
      in if joint_started then
           if role n1 = Leader then await_finalize env client_reply rpc_reply n1
           else Some (refuse_waiting client_reply rpc_reply JointLeadershipChanged n1)
         else Some (accept_waiting client_reply rpc_reply index n1))"

text \<open>One round of the apply loop; the flag is false when the event loop ends. The subtraction
  that gives the position in the log wraps below the snapshot boundary, to a position that is
  beyond the end.\<close>

definition complete_entry ::
  "('s, 'm) raft_env \<Rightarrow> nat \<Rightarrow> log_entry \<Rightarrow> bool \<Rightarrow> ('s, 'm) raft_node \<Rightarrow>
   (('s, 'm) raft_node \<times> bool) option" where
  "complete_entry env index entry joint_started n =
     (case hand_over env entry n of
        (n1, Some e) \<Rightarrow> Some (fail_all_clients e n1, False)
      | (n1, None) \<Rightarrow> do {
          n2 \<leftarrow> acknowledge env index joint_started (n1\<lparr>last_applied := index\<rparr>);
          Some (n2, True) })"

definition apply_entry ::
  "('s, 'm) raft_env \<Rightarrow> ('s, 'm) raft_node \<Rightarrow> (('s, 'm) raft_node \<times> bool) option" where
  "apply_entry env n =
     (let index = last_applied n + 1; physical = index - snapshot_index (ps n) in
      if index < snapshot_index (ps n) \<or> length (ps_log (ps n)) \<le> physical
      then Some (fail_all_clients EntryMissing n, False)
      else
        let entry = ps_log (ps n) ! physical in do {
          (n1, r) \<leftarrow> (if starts_with (le_command entry) MEMBERSHIP_CHANGE_TAG
                       then apply_committed_membership env entry n else Some (n, Inr False));
          (case r of
             Inl e \<Rightarrow> Some (fail_all_clients (MembershipApplyFailed index e) n1, False)
           | Inr joint_started \<Rightarrow> complete_entry env index entry joint_started n1) })"

text \<open>\<open>None\<close> is a panic; running out of fuel is the flag \<open>Inl\<close>, so it is not a result.\<close>

fun apply_loop ::
  "nat \<Rightarrow> ('s, 'm) raft_env \<Rightarrow> ('s, 'm) raft_node \<Rightarrow> (unit + ('s, 'm) raft_node \<times> bool) option" where
  "apply_loop fuel env n =
     (if \<not> last_applied n < commit_index n then Some (Inr (n, True))
      else case fuel of
        0 \<Rightarrow> Some (Inl ())
      | Suc fuel' \<Rightarrow> do {
          (n1, go) \<leftarrow> apply_entry env n;
          if go then apply_loop fuel' env n1 else Some (Inr (n1, False)) })"

declare apply_loop.simps [simp del]

definition apply_fuel :: "('s, 'm) raft_node \<Rightarrow> nat" where
  "apply_fuel n = 2 * (last_log_index (ps n) - last_applied n) + 1"

section \<open>One iteration of the event loop\<close>

record raft_shared =
  sh_role :: raft_role
  sh_leader_id :: "nodeid option"
  sh_commit_index :: nat
  sh_last_applied :: nat
  sh_membership :: cluster_membership

record ('s, 'm) raft_task =
  t_node :: "('s, 'm) raft_node"
  t_deadline :: nat
  t_shared :: raft_shared
  t_running :: bool

datatype event =
    Shutdown
  | Received nodeid raft_message
  | TransportGone
  | HeartbeatTick
  | ElectionTimeout
  | ClientCommand nat bytes
  | StatusRequest nat
  | TransferControl nat membership_guard nodeid
  | TransferRequest nat

definition publish_shared :: "('s, 'm) raft_node \<Rightarrow> raft_shared" where
  "publish_shared n = \<lparr>sh_role = role n, sh_leader_id = leader_id n,
     sh_commit_index = commit_index n, sh_last_applied = last_applied n,
     sh_membership = effective_membership n\<rparr>"

definition spawn ::
  "nat \<Rightarrow> (nat \<Rightarrow> nat) \<Rightarrow> ('s, 'm) raft_node \<Rightarrow> ('s, 'm) raft_task option" where
  "spawn now draw n =
     (if some_and (pending_staged_snapshot n) (\<lambda>st. st_kind st = Installation) then None
      else Some \<lparr>t_node = n, t_deadline = now + election_timeout draw n,
        t_shared = \<lparr>sh_role = Follower, sh_leader_id = None, sh_commit_index = commit_index n,
          sh_last_applied = last_applied n, sh_membership = effective_membership n\<rparr>,
        t_running = True\<rparr>)"

text \<open>Start-up as in \<open>spawn_raft\<close> of \<open>main.rs\<close>: snapshot hooks, store, the durable apply frontier
  of the state machine, the confirmed apply channel, then the task.\<close>

definition boot_node ::
  "('s, 'm) raft_env \<Rightarrow> nat \<Rightarrow> (nat \<Rightarrow> nat) \<Rightarrow> ('m \<Rightarrow> nat) \<Rightarrow> nat \<Rightarrow> 's \<Rightarrow> ('s, 'm) raft_node \<Rightarrow>
   ('s, 'm) raft_task option" where
  "boot_node env now draw durable_apply_index timeout_ms store n = do {
     n1 \<leftarrow> with_snapshot_store env n;
     n2 \<leftarrow> with_persistence env store n1;
     n3 \<leftarrow> with_durable_apply_frontier (durable_apply_index (machine n2)) n2;
     n4 \<leftarrow> with_confirmed_apply_tx n3;
     spawn now draw (n4\<lparr>election_timeout_base_ms := timeout_ms\<rparr>) }"

definition on_client ::
  "('s, 'm) raft_env \<Rightarrow> nat \<Rightarrow> bytes \<Rightarrow> ('s, 'm) raft_node \<Rightarrow> ('s, 'm) raft_node option" where
  "on_client env client payload n = do {
     (n1, r) \<leftarrow> handle_client_command env payload n;
     (case r of
        Inl e \<Rightarrow> Some (emit (ClientReply client (Inl e)) n1)
      | Inr index \<Rightarrow>
          if starts_with payload COMPACT_LOG_TAG then Some (emit (ClientReply client (Inr index)) n1)
          else do {
            n2 \<leftarrow> try_advance_commit
              (n1\<lparr>pending_clients := AList.update index client (pending_clients n1)\<rparr>);
            Some (if role n2 = Leader then send_heartbeats n2 else n2) }) }"

definition on_control_transfer ::
  "nat \<Rightarrow> nat \<Rightarrow> membership_guard \<Rightarrow> nodeid \<Rightarrow> ('s, 'm) raft_node \<Rightarrow> ('s, 'm) raft_node" where
  "on_control_transfer now client guard target n =
     (case rbind (validate_operator_guard n guard) (\<lambda>_. initiate_leader_transfer now target n) of
        Inl e \<Rightarrow> emit (ControlReply client (Inl e)) n
      | Inr n1 \<Rightarrow> emit (ControlReply client (Inr ()))
                   (emit (Send target (TimeoutNow (current_term (ps n1)))) n1))"

definition on_transfer_request ::
  "nat \<Rightarrow> nat \<Rightarrow> ('s, 'm) raft_node \<Rightarrow> ('s, 'm) raft_node" where
  "on_transfer_request now client n =
     (case rbind (choose_transfer_target n) (\<lambda>target.
             rbind (initiate_leader_transfer now target n) (\<lambda>n1. Inr (target, n1))) of
        Inl e \<Rightarrow> emit (TransferReply client (Inl e)) n
      | Inr (target, n1) \<Rightarrow> emit (TransferReply client (Inr target))
                            (emit (Send target (TimeoutNow (current_term (ps n1)))) n1))"

text \<open>The branches of the \<open>select!\<close>: the node, the deadline, and whether the loop goes on.\<close>

definition select_event ::
  "('s, 'm) raft_env \<Rightarrow> nat \<Rightarrow> (nat \<Rightarrow> nat) \<Rightarrow> event \<Rightarrow> nat \<Rightarrow> ('s, 'm) raft_node \<Rightarrow>
   (('s, 'm) raft_node \<times> nat \<times> bool) option" where
  "select_event env now draw ev deadline n =
     (case ev of
        Shutdown \<Rightarrow> Some (fail_all_clients ShuttingDown n, deadline, False)
      | Received from msg \<Rightarrow> do {
          (n1, d) \<leftarrow> handle_message env now draw from msg deadline n; Some (n1, d, True) }
      | TransportGone \<Rightarrow> Some (fail_all_clients TransportClosed n, deadline, False)
      | HeartbeatTick \<Rightarrow> Some (if role n = Leader then send_heartbeats n else n, deadline, True)
      | ElectionTimeout \<Rightarrow> do {
          n1 \<leftarrow> (if role n \<noteq> Leader then start_election env n else Some n);
          Some (n1, now + (if role n1 = Candidate then campaign_timeout draw n1
                           else election_timeout draw n1), True) }
      | ClientCommand client payload \<Rightarrow> do {
          n1 \<leftarrow> on_client env client payload n; Some (n1, deadline, True) }
      | StatusRequest client \<Rightarrow>
          Some (emit (StatusReply client (operator_status n)) n, deadline, True)
      | TransferControl client guard target \<Rightarrow>
          Some (on_control_transfer now client guard target n, deadline, True)
      | TransferRequest client \<Rightarrow> Some (on_transfer_request now client n, deadline, True))"

definition update_readiness :: "('s, 'm) raft_node \<Rightarrow> ('s, 'm) raft_node" where
  "update_readiness n =
     (let removed = some_and (membership (ps n)) (\<lambda>m. is_removed m (node_id n)) in
      if recovery_readiness_pending n \<and> \<not> removed then
        let current_term_commit_proven =
              (snapshot_index (ps n) < commit_index n \<and>
               term_at (ps n) (commit_index n) = current_term (ps n));
            follower_has_no_unresolved_tail =
              (role n \<noteq> Leader \<and> successful_append_seen n \<and>
               commit_index n = last_log_index (ps n))
        in if commit_index n \<le> last_applied n \<and>
              (current_term_commit_proven \<or> follower_has_no_unresolved_tail)
           then n\<lparr>recovery_readiness_pending := False, serving_ready := True\<rparr> else n
      else if \<not> serving_ready n \<and> successful_append_seen n \<and>
              commit_index n \<le> last_applied n \<and> \<not> removed
      then n\<lparr>serving_ready := True\<rparr> else n)"

definition expire_transfer :: "nat \<Rightarrow> ('s, 'm) raft_node \<Rightarrow> ('s, 'm) raft_node" where
  "expire_transfer now n =
     (let n1 = (if some_and (transfer_in_progress n) (\<lambda>(_, deadline). deadline \<le> now)
                then n\<lparr>transfer_in_progress := None\<rparr> else n)
      in if transfer_in_progress n1 \<noteq> None \<and> role n1 \<noteq> Leader
         then n1\<lparr>transfer_in_progress := None\<rparr> else n1)"

text \<open>The result \<open>Inl ()\<close> is the apply loop out of fuel.\<close>

definition loop_body ::
  "('s, 'm) raft_env \<Rightarrow> nat \<Rightarrow> (nat \<Rightarrow> nat) \<Rightarrow> event \<Rightarrow> ('s, 'm) raft_task \<Rightarrow>
   (unit + ('s, 'm) raft_task) option" where
  "loop_body env now draw ev t = do {
     (n1, d1, go) \<leftarrow> select_event env now draw ev (t_deadline t) (t_node t);
     if \<not> go then Some (Inr (t\<lparr>t_node := n1, t_running := False\<rparr>))
     else do {
       r \<leftarrow> apply_loop (apply_fuel n1) env n1;
       (case r of
          Inl _ \<Rightarrow> Some (Inl ())
        | Inr (n2, False) \<Rightarrow> Some (Inr (t\<lparr>t_node := n2, t_deadline := d1, t_running := False\<rparr>))
        | Inr (n2, True) \<Rightarrow>
            let d2 = (if last_applied n1 < last_applied n2 \<and> role n2 = Follower \<and>
                        leader_id n2 \<noteq> None
                      then now + election_timeout draw n2 else d1);
                n3 = expire_transfer now (update_readiness n2)
            in Some (Inr \<lparr>t_node = n3, t_deadline = d2, t_shared = publish_shared n3,
                 t_running = True\<rparr>)) } }"

end
