(* ===== verification/Raft_Vote.thy ===== *)
theory Raft_Vote
  imports Raft_Loop
begin

text \<open>
  Terms and votes. Every handler is classified: most are \<open>quiet\<close> (they change neither term,
  vote, role nor the set of received votes, and emit no vote messages); the rest move the
  term forward or cast the one vote of a term. The relation \<open>vote_step\<close> collects what an
  iteration of the event loop may do, and \<open>durable\<close> says that the store holds the term and the
  vote of the running node.
\<close>

section \<open>Definitions\<close>

fun vote_message :: "effect \<Rightarrow> bool" where
  "vote_message (Send _ (RequestVote _)) = True"
| "vote_message (Send _ (RequestVoteReply r)) = rvr_vote_granted r"
| "vote_message _ = False"

definition stored ::
  "('s, 'm) raft_env \<Rightarrow> 's option \<Rightarrow> nat \<Rightarrow> nodeid option \<Rightarrow> bool" where
  "stored env handle tm vote =
     (case handle of
        None \<Rightarrow> True
      | Some s \<Rightarrow>
          (case store_load env s of
             Inl _ \<Rightarrow> False
           | Inr None \<Rightarrow> tm = 0 \<and> vote = None
           | Inr (Some (p, d)) \<Rightarrow> current_term p = tm \<and> voted_for p = vote))"

definition durable :: "('s, 'm) raft_env \<Rightarrow> ('s, 'm) raft_node \<Rightarrow> bool" where
  "durable env n = stored env (persistence n) (current_term (ps n)) (voted_for (ps n))"

definition quiet ::
  "('s, 'm) raft_env \<Rightarrow> ('s, 'm) raft_node \<Rightarrow> ('s, 'm) raft_node \<Rightarrow> bool" where
  "quiet env n n' \<longleftrightarrow> node_id n' = node_id n \<and> current_term (ps n') = current_term (ps n) \<and>
     voted_for (ps n') = voted_for (ps n) \<and> role n' = role n \<and>
     votes_received n' = votes_received n \<and>
     filter vote_message (out n') = filter vote_message (out n) \<and>
     (durable env n \<longrightarrow> durable env n')"

text \<open>Like \<open>quiet\<close>, but the role may change.\<close>

definition calm ::
  "('s, 'm) raft_env \<Rightarrow> ('s, 'm) raft_node \<Rightarrow> ('s, 'm) raft_node \<Rightarrow> bool" where
  "calm env n n' \<longleftrightarrow> quiet env n (n'\<lparr>role := role n\<rparr>)"

text \<open>The vote-related inputs of an event: a vote request, or a vote granted to this node in
  its current term.\<close>

fun incoming_request :: "event \<Rightarrow> (nodeid \<times> request_vote_args) option" where
  "incoming_request (Received from (RequestVote args)) = Some (from, args)"
| "incoming_request _ = None"

fun incoming_grant :: "nat \<Rightarrow> event \<Rightarrow> nodeid set" where
  "incoming_grant term (Received from (RequestVoteReply r)) =
     (if rvr_vote_granted r \<and> rvr_term r = term then {from} else {})"
| "incoming_grant _ _ = {}"

text \<open>A vote request in this node's own name, for its term; an answer to the request \<open>req\<close>
  that tells the truth about this node's vote.\<close>

fun own_request :: "nodeid \<Rightarrow> effect \<Rightarrow> bool" where
  "own_request i (Send _ (RequestVote args)) = (rv_candidate_id args = i)"
| "own_request _ _ = False"

fun truthful_grant ::
  "(nodeid \<times> request_vote_args) option \<Rightarrow> persistent_state \<Rightarrow> effect \<Rightarrow> bool" where
  "truthful_grant (Some (from, args)) p (Send dst (RequestVoteReply r)) =
     (dst = from \<and> rvr_term r = current_term p \<and> voted_for p = Some (rv_candidate_id args))"
| "truthful_grant _ _ _ = False"

definition vote_step ::
  "('s, 'm) raft_env \<Rightarrow> (nodeid \<times> request_vote_args) option \<Rightarrow> nodeid set \<Rightarrow>
   ('s, 'm) raft_node \<Rightarrow> ('s, 'm) raft_node \<Rightarrow> bool" where
  "vote_step env req grants n n' \<longleftrightarrow>
     node_id n' = node_id n \<and>
     (current_term (ps n) < current_term (ps n') \<or>
      current_term (ps n') = current_term (ps n) \<and>
        (voted_for (ps n) = None \<or> voted_for (ps n') = voted_for (ps n))) \<and>
     (durable env n \<longrightarrow> durable env n') \<and>
     (\<forall>e \<in> set (filter vote_message (out n')).
        e \<in> set (out n) \<or> own_request (node_id n) e \<or> truthful_grant req (ps n') e) \<and>
     (role n' = Follower \<or>
      (role n \<noteq> Follower \<and> current_term (ps n') = current_term (ps n) \<and>
        votes_received n' \<subseteq> votes_received n \<union> grants) \<or>
      (voted_for (ps n') = Some (node_id n) \<and> votes_received n' = {node_id n})) \<and>
     (role n' = Leader \<longrightarrow>
        (role n = Leader \<and> current_term (ps n') = current_term (ps n) \<and>
          votes_received n' = votes_received n) \<or>
        has_vote_quorum (effective_membership n) (votes_received n'))"

text \<open>What a handler without a part in elections does: it is quiet, or the node steps down,
  possibly into a later term.\<close>

definition settled ::
  "('s, 'm) raft_env \<Rightarrow> ('s, 'm) raft_node \<Rightarrow> ('s, 'm) raft_node \<Rightarrow> bool" where
  "settled env n n' \<longleftrightarrow> node_id n' = node_id n \<and>
     (current_term (ps n) < current_term (ps n') \<or>
      current_term (ps n') = current_term (ps n) \<and> voted_for (ps n') = voted_for (ps n)) \<and>
     (durable env n \<longrightarrow> durable env n') \<and>
     filter vote_message (out n') = filter vote_message (out n) \<and>
     (role n' = Follower \<and> votes_received n' = {} \<or>
      role n' = role n \<and> votes_received n' = votes_received n \<and>
      current_term (ps n') = current_term (ps n))"

text \<open>Equal up to the handle on the store.\<close>

definition same_but_store :: "('s, 'm) raft_node \<Rightarrow> ('s, 'm) raft_node \<Rightarrow> bool" where
  "same_but_store n n' \<longleftrightarrow>
    node_id n' = node_id n \<and>
    bootstrap_membership n' = bootstrap_membership n \<and>
    joining_learner n' = joining_learner n \<and>
    joining_seeds n' = joining_seeds n \<and>
    ps n' = ps n \<and>
    effective_membership n' = effective_membership n \<and>
    commit_index n' = commit_index n \<and>
    last_applied n' = last_applied n \<and>
    role n' = role n \<and>
    leader_id n' = leader_id n \<and>
    votes_received n' = votes_received n \<and>
    leader n' = leader n \<and>
    snapshot_data n' = snapshot_data n \<and>
    has_snapshot_store n' = has_snapshot_store n \<and>
    pending_staged_snapshot n' = pending_staged_snapshot n \<and>
    serving_ready n' = serving_ready n \<and>
    successful_append_seen n' = successful_append_seen n \<and>
    recovery_readiness_pending n' = recovery_readiness_pending n \<and>
    transfer_in_progress n' = transfer_in_progress n \<and>
    election_timeout_base_ms n' = election_timeout_base_ms n \<and>
    has_apply_tx n' = has_apply_tx n \<and>
    has_confirmed_apply_tx n' = has_confirmed_apply_tx n \<and>
    pending_clients n' = pending_clients n \<and>
    pending_membership_rpcs n' = pending_membership_rpcs n \<and>
    machine n' = machine n \<and>
    out n' = out n"

text \<open>A node that has recovered term and vote and has not started yet.\<close>

definition restarted ::
  "('s, 'm) raft_env \<Rightarrow> nodeid \<Rightarrow> nat \<Rightarrow> nodeid option \<Rightarrow> ('s, 'm) raft_node \<Rightarrow> bool" where
  "restarted env i tm vote n \<longleftrightarrow> node_id n = i \<and> current_term (ps n) = tm \<and> voted_for (ps n) = vote \<and>
     role n = Follower \<and> votes_received n = {} \<and> filter vote_message (out n) = [] \<and> durable env n"

text \<open>The candidate's log is at least as up to date as the log of \<open>p\<close>: its last term is later,
  or it is the same and the log is at least as long.\<close>

definition up_to_date :: "request_vote_args \<Rightarrow> persistent_state \<Rightarrow> bool" where
  "up_to_date args p \<longleftrightarrow> last_log_term p < rv_last_log_term args \<or>
     rv_last_log_term args = last_log_term p \<and> last_log_index p \<le> rv_last_log_index args"

section \<open>Language helpers\<close>

lemma some_and_simps [simp]: "some_and None f = False" "some_and (Some x) f = f x"
  by (simp_all add: some_and_def)

lemma unwrap_or_simps [simp]: "unwrap_or None d = d" "unwrap_or (Some x) d = x"
  by (simp_all add: unwrap_or_def)

lemma or_panic_simps [simp]: "or_panic (Inl e) = None" "or_panic (Inr x) = Some x"
  by (simp_all add: or_panic_def)

lemma emit_fields [simp]:
  "node_id (emit e n) = node_id n" "ps (emit e n) = ps n" "role (emit e n) = role n"
  "votes_received (emit e n) = votes_received n" "persistence (emit e n) = persistence n"
  "out (emit e n) = out n @ [e]" "effective_membership (emit e n) = effective_membership n"
  "commit_index (emit e n) = commit_index n" "last_applied (emit e n) = last_applied n"
  "machine (emit e n) = machine n" "leader (emit e n) = leader n"
  "pending_clients (emit e n) = pending_clients n" "snapshot_data (emit e n) = snapshot_data n"
  "bootstrap_membership (emit e n) = bootstrap_membership n" "leader_id (emit e n) = leader_id n"
  by (simp_all add: emit_def)

section \<open>Quiet operations\<close>

lemma quiet_refl [simp]: "quiet env n n"
  by (simp add: quiet_def)

lemma quiet_trans: "quiet env a b \<Longrightarrow> quiet env b c \<Longrightarrow> quiet env a c"
  by (simp add: quiet_def)

text \<open>Updates of fields that have no part in voting.\<close>

lemma quiet_fieldI:
  assumes "node_id n' = node_id n" "current_term (ps n') = current_term (ps n)"
    "voted_for (ps n') = voted_for (ps n)" "role n' = role n" "votes_received n' = votes_received n"
    "filter vote_message (out n') = filter vote_message (out n)" "persistence n' = persistence n"
  shows "quiet env n n'"
  using assms by (simp add: quiet_def durable_def stored_def split: option.split sum.split)

lemma filter_vote_replies [simp]:
  "filter vote_message (map (\<lambda>(i, c). ClientReply c r) xs) = []"
  by (induction xs) auto

lemma vote_message_heartbeat [simp]: "\<not> vote_message (Send p (heartbeat_for n q))"
  by (simp add: heartbeat_for_def Let_def)

lemma filter_vote_heartbeats [simp]:
  "filter vote_message (map (\<lambda>p. Send p (heartbeat_for n p)) xs) = []"
  by (induction xs) auto

lemma sync_leader_tracking_fields [simp]:
  "node_id (sync_leader_tracking n) = node_id n" "ps (sync_leader_tracking n) = ps n"
  "role (sync_leader_tracking n) = role n" "out (sync_leader_tracking n) = out n"
  "votes_received (sync_leader_tracking n) = votes_received n"
  "persistence (sync_leader_tracking n) = persistence n"
  "effective_membership (sync_leader_tracking n) = effective_membership n"
  "commit_index (sync_leader_tracking n) = commit_index n"
  "last_applied (sync_leader_tracking n) = last_applied n"
  "machine (sync_leader_tracking n) = machine n"
  "snapshot_data (sync_leader_tracking n) = snapshot_data n"
  "bootstrap_membership (sync_leader_tracking n) = bootstrap_membership n"
  "pending_clients (sync_leader_tracking n) = pending_clients n"
  "leader_id (sync_leader_tracking n) = leader_id n"
  "has_snapshot_store (sync_leader_tracking n) = has_snapshot_store n"
  "has_confirmed_apply_tx (sync_leader_tracking n) = has_confirmed_apply_tx n"
  "has_apply_tx (sync_leader_tracking n) = has_apply_tx n"
  by (simp_all add: sync_leader_tracking_def Let_def split: option.split)

lemma quiet_sync: "quiet env n (sync_leader_tracking n)"
  by (rule quiet_fieldI) simp_all

lemma recompute_ok:
  assumes "recompute_effective_membership env n = Inr n'"
  shows "n' = sync_leader_tracking (n\<lparr>effective_membership := effective_membership n'\<rparr>)"
    and "validate (effective_membership n') = Inr ()"
  using assms by (auto simp: recompute_effective_membership_def Let_def result_simps)

lemma quiet_recompute: "recompute_effective_membership env n = Inr n' \<Longrightarrow> quiet env n n'"
  by (subst recompute_ok(1), assumption) (rule quiet_fieldI; simp)

lemma quiet_send_heartbeats: "quiet env n (send_heartbeats n)"
  by (rule quiet_fieldI) (simp_all add: send_heartbeats_def)

lemma quiet_try_advance_commit: "all_opt (quiet env n) (try_advance_commit n)"
  by (auto simp: try_advance_commit_def Let_def intro: quiet_fieldI split: option.split)

lemma quiet_emit: "\<not> vote_message e \<Longrightarrow> quiet env n (emit e n)"
  by (rule quiet_fieldI) simp_all

lemma quiet_emitI: "quiet env n n1 \<Longrightarrow> \<not> vote_message e \<Longrightarrow> quiet env n (emit e n1)"
  using quiet_trans quiet_emit by blast

lemma quiet_opt_emit: "(\<And>y. \<not> vote_message (e y)) \<Longrightarrow> quiet env n (opt_emit x e n)"
  by (simp add: opt_emit_def quiet_emit split: option.split)

lemma quiet_fail_all_clients: "quiet env n (fail_all_clients e n)"
  by (rule quiet_fieldI) (simp_all add: fail_all_clients_def)

lemma quiet_fail_uncommitted: "quiet env n (fail_uncommitted_clients e n)"
  by (rule quiet_fieldI) (simp_all add: fail_uncommitted_clients_def Let_def)

lemma quiet_update_readiness: "quiet env n (update_readiness n)"
  by (simp add: update_readiness_def Let_def quiet_fieldI)

lemma quiet_expire_transfer: "quiet env n (expire_transfer now n)"
  by (simp add: expire_transfer_def Let_def quiet_fieldI)

lemma quiet_hand_over: "quiet env n (fst (hand_over env entry n))"
  by (auto simp: hand_over_def quiet_fieldI split: prod.split apply_outcome.split)

lemma initiate_transfer_quiet:
  "initiate_leader_transfer now target n = Inr n' \<Longrightarrow> quiet env n n'"
  by (auto simp: initiate_leader_transfer_def Let_def intro: quiet_fieldI split: if_splits)

lemma quiet_on_leader_transfer: "quiet env n (on_leader_transfer now from target n)"
  by (auto simp: on_leader_transfer_def intro!: quiet_emitI
      intro: initiate_transfer_quiet split: sum.split)

lemma quiet_on_control_transfer: "quiet env n (on_control_transfer now client guard target n)"
  by (auto simp: on_control_transfer_def result_simps intro!: quiet_emitI
      intro: initiate_transfer_quiet split: sum.split)

lemma quiet_on_transfer_request: "quiet env n (on_transfer_request now client n)"
  by (auto simp: on_transfer_request_def result_simps intro!: quiet_emitI
      intro: initiate_transfer_quiet split: sum.split)

lemma quiet_role: "quiet env n n' \<Longrightarrow> role n' = role n"
  by (simp add: quiet_def)

lemma durable_role: "durable env (n\<lparr>role := r\<rparr>) = durable env n"
  by (simp add: durable_def stored_def split: option.split sum.split)

lemma quiet_bind:
  "all_opt (quiet env n) x \<Longrightarrow> (\<And>m. all_opt (quiet env m) (f m)) \<Longrightarrow> all_opt (quiet env n) (x \<bind> f)"
  by (erule all_opt_bindI) (blast intro: all_opt_mono quiet_trans)

lemma calm_quiet: "calm env n m \<Longrightarrow> quiet env m m' \<Longrightarrow> calm env n m'"
  by (simp add: calm_def quiet_def durable_role)

lemma calm_fieldI:
  assumes "node_id n' = node_id n" "current_term (ps n') = current_term (ps n)"
    "voted_for (ps n') = voted_for (ps n)" "votes_received n' = votes_received n"
    "filter vote_message (out n') = filter vote_message (out n)" "persistence n' = persistence n"
  shows "calm env n n'"
  unfolding calm_def by (rule quiet_fieldI) (use assms in simp_all)

lemma quiet_settled: "quiet env n n' \<Longrightarrow> settled env n n'"
  by (simp add: quiet_def settled_def)

lemma settled_refl [simp]: "settled env n n"
  by (simp add: settled_def)

lemma settled_trans: "settled env a b \<Longrightarrow> settled env b c \<Longrightarrow> settled env a c"
  unfolding settled_def by (elim conjE disjE) simp_all

lemma settled_bind:
  "all_opt (settled env n) x \<Longrightarrow> (\<And>m. all_opt (settled env m) (f m)) \<Longrightarrow>
   all_opt (settled env n) (x \<bind> f)"
  by (erule all_opt_bindI) (blast intro: all_opt_mono settled_trans)

lemma vote_messages_eq:
  "filter vote_message (out n') = filter vote_message (out n) \<Longrightarrow>
   vote_message e \<Longrightarrow> e \<in> set (out n') \<longleftrightarrow> e \<in> set (out n)"
  by (drule arg_cong [where f = "\<lambda>es. e \<in> set es"]) simp

lemma settled_vote_step: "settled env n n' \<Longrightarrow> vote_step env req G n n'"
  using vote_messages_eq [of n' n] unfolding vote_step_def settled_def
  by (elim conjE disjE) simp_all

lemma truthful_grant_cong:
  "current_term p = current_term q \<Longrightarrow> voted_for p = voted_for q \<Longrightarrow>
   truthful_grant req p e = truthful_grant req q e"
  by (cases "(req, p, e)" rule: truthful_grant.cases) simp_all

lemma vote_step_quiet:
  assumes "vote_step env req G n m" "quiet env m m'"
  shows "vote_step env req G n m'"
proof -
  have "truthful_grant req (ps m') e = truthful_grant req (ps m) e" for e
    using assms(2) by (intro truthful_grant_cong) (simp_all add: quiet_def)
  then show ?thesis
    using assms vote_messages_eq [of m' m] unfolding vote_step_def by (simp add: quiet_def)
qed

section \<open>Handlers over a lawful store\<close>

text \<open>The node as a client of the stable-storage contract.\<close>

locale durable_raft = persistence_store "store_save env" "store_stage env"
    "store_load_staged env" "store_clear env" "store_load env"
  for env :: "('s, 'm) raft_env"
begin

lemma persist_shape:
  "all_opt (\<lambda>n'. same_but_store n n' \<and> durable env n') (persist env n)"
  using load_save
  by (auto simp: persist_def durable_def stored_def same_but_store_def split: option.split sum.split)

lemma quiet_persist: "all_opt (quiet env n) (persist env n)"
  using load_save by (auto simp: persist_def quiet_def durable_def stored_def split: option.split sum.split)

lemma quiet_then_persist: "quiet env n n1 \<Longrightarrow> all_opt (quiet env n) (persist env n1)"
  by (rule all_opt_mono [OF quiet_persist]) (rule quiet_trans)

lemma quiet_ensure_joint_finalize:
  "all_opt (\<lambda>(n', r). quiet env n n') (ensure_joint_finalize_entry env n)"
proof -
  have app: "quiet env n (n\<lparr>ps := fst (log_append (ps n) t c)\<rparr>)" for t c
    by (rule quiet_fieldI) simp_all
  then show ?thesis
    by (auto simp: ensure_joint_finalize_entry_def Let_def split_beta split: sum.split
        intro: quiet_trans [OF app quiet_recompute] quiet_then_persist)
qed

lemma become_follower_spec:
  "all_opt (\<lambda>n'. node_id n' = node_id n \<and> current_term (ps n') = max term (current_term (ps n)) \<and>
     voted_for (ps n') = (if current_term (ps n) < term then None else voted_for (ps n)) \<and>
     role n' = Follower \<and> votes_received n' = {} \<and>
     filter vote_message (out n') = filter vote_message (out n) \<and>
     effective_membership n' = effective_membership n \<and> durable env n')
   (become_follower env term n)"
  unfolding become_follower_def Let_def
  by (rule all_opt_mono [OF persist_shape])
    (simp add: same_but_store_def fail_uncommitted_clients_def Let_def)

lemma quiet_recovery_barrier: "all_opt (quiet env n) (recovery_barrier env n)"
  by (simp add: recovery_barrier_def quiet_then_persist quiet_fieldI)

lemma quiet_finish_joint: "all_opt (quiet env n) (finish_joint env n)"
  using quiet_ensure_joint_finalize [of n]
  by (auto simp: finish_joint_def all_opt_def split: option.splits sum.splits)

lemma become_leader_spec:
  "all_opt (\<lambda>n'. calm env n n' \<and> role n' \<noteq> Candidate) (become_leader env n)"
proof (cases "is_voter (effective_membership n) (node_id n)")
  case False
  then show ?thesis by (simp add: become_leader_def calm_fieldI)
next
  case True
  let ?n = "assume_leadership n"
  have lead: "calm env n ?n" "role ?n = Leader"
    by (simp_all add: assume_leadership_def Let_def calm_fieldI)
  have "all_opt (quiet env ?n) (recovery_barrier env ?n \<bind> (\<lambda>n3. finish_joint env n3 \<bind> (\<lambda>n4.
      try_advance_commit n4 \<bind> (\<lambda>n5. Some (send_heartbeats n5)))))"
    by (intro quiet_bind [OF quiet_recovery_barrier] quiet_bind [OF quiet_finish_joint]
        quiet_bind [OF quiet_try_advance_commit]) (simp add: quiet_send_heartbeats)
  then show ?thesis
    using True lead by (auto simp: become_leader_def elim!: all_opt_mono
        intro: calm_quiet dest: quiet_role)
qed

lemma settled_become_follower: "all_opt (settled env n) (become_follower env term n)"
  by (rule all_opt_mono [OF become_follower_spec]) (auto simp: settled_def max_def)

text \<open>Elections.\<close>

lemma become_leader_vote_step:
  assumes "vote_step env req G n m" "role m = Candidate"
    "has_vote_quorum (effective_membership n) (votes_received m)"
  shows "all_opt (vote_step env req G n) (become_leader env m)"
proof -
  have "vote_step env req G n m'" if m': "calm env m m'" "role m' \<noteq> Candidate" for m'
  proof -
    have "vote_step env req G n (m'\<lparr>role := role m\<rparr>)"
      using assms(1) m'(1) unfolding calm_def by (rule vote_step_quiet)
    moreover have "votes_received m' = votes_received m"
      using m'(1) by (simp add: calm_def quiet_def)
    ultimately show ?thesis
      using assms(2,3) m'(2) by (auto simp: vote_step_def durable_role)
  qed
  then show ?thesis by (auto intro: all_opt_mono [OF become_leader_spec])
qed

lemma own_requests:
  "e \<in> set (map (\<lambda>p. Send p (RequestVote args)) ts) \<Longrightarrow> own_request (rv_candidate_id args) e"
  by auto

lemma request_votes_fields [simp]:
  "node_id (request_votes n) = node_id n" "ps (request_votes n) = ps n"
  "role (request_votes n) = role n" "votes_received (request_votes n) = votes_received n"
  "persistence (request_votes n) = persistence n"
  "effective_membership (request_votes n) = effective_membership n"
  by (simp_all add: request_votes_def Let_def)

lemma request_votes_out: "e \<in> set (out (request_votes n)) \<Longrightarrow> e \<in> set (out n) \<or> own_request (node_id n) e"
  by (auto simp: request_votes_def Let_def)

lemma durable_fields:
  "persistence n' = persistence n \<Longrightarrow> ps n' = ps n \<Longrightarrow> durable env n' = durable env n"
  by (simp add: durable_def stored_def split: option.split sum.split)

lemma campaign_vote_step:
  assumes "same_but_store (campaign_state n) m" "durable env m"
  shows "vote_step env req G n (request_votes m)"
proof -
  have "durable env (request_votes m)" using assms(2) durable_fields [of "request_votes m" m] by simp
  then show ?thesis
    using assms(1) request_votes_out [of _ m]
    by (auto simp: vote_step_def same_but_store_def campaign_state_def)
qed

lemma start_election_spec: "all_opt (vote_step env req G n) (start_election env n)"
proof (cases "is_voter (effective_membership n) (node_id n)")
  case False
  have "settled env n (n\<lparr>role := Follower, votes_received := {}\<rparr>)"
    using durable_fields [of "n\<lparr>role := Follower, votes_received := {}\<rparr>" n]
    by (simp add: settled_def)
  then show ?thesis
    using False by (simp add: start_election_def settled_vote_step)
next
  case True
  have "all_opt (vote_step env req G n)
      (let n2 = request_votes m in if has_vote_quorum (effective_membership n2) (votes_received n2)
         then become_leader env n2 else Some n2)"
    if m: "same_but_store (campaign_state n) m \<and> durable env m" for m
  proof -
    have "vote_step env req G n (request_votes m)" using m by (simp add: campaign_vote_step)
    moreover have "role m = Candidate" "effective_membership m = effective_membership n"
      using m by (simp_all add: same_but_store_def campaign_state_def)
    ultimately show ?thesis by (simp add: Let_def become_leader_vote_step)
  qed
  then show ?thesis
    using True by (simp only: start_election_def not_True_eq_False if_False)
      (rule all_opt_bindI [OF persist_shape])
qed

lemma cast_vote_spec:
  assumes "settled env n m"
  shows "all_opt (\<lambda>(n', reply).
     vote_step env (Some (from, args)) G n (emit (Send from (RequestVoteReply reply)) n') \<and>
     (rvr_vote_granted reply \<longrightarrow> voted_for (ps n') = Some (rv_candidate_id args) \<and>
        current_term (ps n') = current_term (ps m) \<and> durable env n' \<and>
        rvr_term reply = current_term (ps n') \<and> up_to_date args (ps n')))
   (cast_vote env args m)"
proof (cases "grants_vote args m")
  case False
  have "settled env n (emit e m)" if "\<not> vote_message e" for e
    using assms quiet_settled [OF quiet_emit [OF that]] settled_trans by blast
  then show ?thesis using False by (simp add: cast_vote_def settled_vote_step)
next
  case True
  define v where "v = m\<lparr>ps := (ps m)\<lparr>voted_for := Some (rv_candidate_id args)\<rparr>\<rparr>"
  have up: "up_to_date args ((ps m)\<lparr>voted_for := v\<rparr>)" for v
    using True by (auto simp: grants_vote_def Let_def up_to_date_def last_log_term_def last_log_index_def)
  have free: "voted_for (ps m) \<in> {None, Some (rv_candidate_id args)}"
    using True by (auto simp: grants_vote_def Let_def some_and_def split: option.splits)
  have msgs: "vote_message e \<Longrightarrow> e \<in> set (out m) \<longleftrightarrow> e \<in> set (out n)" for e
    using assms by (intro vote_messages_eq) (simp_all add: settled_def)
  have "vote_step env (Some (from, args)) G n
      (emit (Send from (RequestVoteReply \<lparr>rvr_term = current_term (ps n'), rvr_vote_granted = True\<rparr>)) n')"
    if n': "same_but_store v n'" "durable env n'" for n'
  proof -
    let ?e = "emit (Send from (RequestVoteReply \<lparr>rvr_term = current_term (ps n'), rvr_vote_granted = True\<rparr>)) n'"
    have d: "durable env ?e" using n'(2) durable_fields [of ?e n'] by simp
    have f: "ps n' = (ps m)\<lparr>voted_for := Some (rv_candidate_id args)\<rparr>" "node_id n' = node_id m"
      "role n' = role m" "votes_received n' = votes_received m" "out n' = out m"
      using n'(1) by (simp_all add: same_but_store_def v_def)
    show ?thesis
      using assms free msgs d unfolding vote_step_def settled_def
      by (elim conjE disjE) (auto simp: f)
  qed
  then show ?thesis
    using True up
    by (simp add: cast_vote_def v_def [symmetric] Let_def)
      (rule all_opt_mono [OF persist_shape], simp add: same_but_store_def v_def)
qed

lemma on_request_vote_spec:
  "all_opt (\<lambda>(n', reply).
     vote_step env (Some (from, args)) G n (emit (Send from (RequestVoteReply reply)) n') \<and>
     (rvr_vote_granted reply \<longrightarrow> voted_for (ps n') = Some (rv_candidate_id args) \<and>
        current_term (ps n') = rv_term args \<and> durable env n' \<and>
        rvr_term reply = rv_term args \<and> up_to_date args (ps n')))
   (on_request_vote env args n)"
  (is "all_opt ?Q _")
proof -
  let ?reject = "\<lparr>rvr_term = current_term (ps n), rvr_vote_granted = False\<rparr>"
  have reject: "vote_step env (Some (from, args)) G n (emit (Send from (RequestVoteReply ?reject)) n)"
    by (intro settled_vote_step quiet_settled quiet_emit) simp
  have cast: "all_opt ?Q (cast_vote env args m)"
    if "settled env n m" "current_term (ps m) = rv_term args" for m
    by (rule all_opt_mono [OF cast_vote_spec [OF that(1), of "from" args G]]) (use that(2) in auto)
  show ?thesis
  proof (cases "\<not> is_voter (effective_membership n) (node_id n) \<or>
         \<not> is_voter (effective_membership n) (rv_candidate_id args) \<or>
         some_and (membership (ps n)) (\<lambda>m. is_removed m (rv_candidate_id args)) \<or>
         rv_term args < current_term (ps n)")
    case True
    then show ?thesis using reject by (auto simp: on_request_vote_def)
  next
    case False
    have "all_opt (\<lambda>m. settled env n m \<and> current_term (ps m) = rv_term args)
      (if current_term (ps n) < rv_term args then become_follower env (rv_term args) n else Some n)"
      using False all_opt_conj [OF settled_become_follower become_follower_spec,
          of n "rv_term args"]
      by (auto elim!: all_opt_mono)
    then show ?thesis
      using False unfolding on_request_vote_def
      by (simp del: all_opt_bind split del: if_split) (erule all_opt_bindI, simp add: cast)
  qed
qed

lemma on_request_vote_reply_spec:
  "all_opt (vote_step env req
      (if rvr_vote_granted reply \<and> rvr_term reply = current_term (ps n) then {from} else {}) n)
    (on_request_vote_reply env from reply n)"
proof -
  let ?n = "n\<lparr>votes_received := insert from (votes_received n)\<rparr>"
  have "vote_step env req {from} n ?n" if "role n = Candidate"
    using that durable_fields [of ?n n] by (auto simp: vote_step_def)
  then show ?thesis
    using settled_become_follower [of n "rvr_term reply"]
    by (auto simp: on_request_vote_reply_def Let_def settled_vote_step
        intro!: become_leader_vote_step elim: all_opt_mono)
qed

text \<open>Replication and snapshots.\<close>

lemma settled_recognise_leader: "all_opt (settled env n) (recognise_leader env term l n)"
proof -
  have "settled env n (m\<lparr>leader_id := l'\<rparr>)" if "settled env n m" for m l'
    using that by (rule settled_trans) (simp add: quiet_settled quiet_fieldI)
  then show ?thesis
    using settled_become_follower [of n "term"]
    by (auto simp: recognise_leader_def elim!: all_opt_mono)
qed

lemma quiet_store_entries: "all_opt (quiet env n) (store_entries env args n)"
proof -
  let ?n = "n\<lparr>ps := truncate_and_append (ps n) (ae_prev_log_index args) (ae_entries args)\<rparr>"
  have "quiet env n ?n" by (rule quiet_fieldI) simp_all
  then show ?thesis
    by (auto simp: store_entries_def or_panic_def split: sum.split
        intro: quiet_then_persist quiet_trans quiet_recompute)
qed

lemma quiet_follow_commit: "quiet env n (follow_commit args n)"
  by (simp add: follow_commit_def quiet_fieldI)

lemma settled_on_append_entries:
  "all_opt (\<lambda>(n', r). settled env n n') (on_append_entries env args n)"
proof -
  have fin: "all_opt (\<lambda>y. settled env n (follow_commit args y))
      (store_entries env args (m\<lparr>successful_append_seen := True\<rparr>))" if m: "settled env n m" for m
  proof (rule all_opt_mono [OF quiet_store_entries])
    fix k assume k: "quiet env (m\<lparr>successful_append_seen := True\<rparr>) k"
    have "quiet env m (m\<lparr>successful_append_seen := True\<rparr>)" by (rule quiet_fieldI) simp_all
    from quiet_trans [OF quiet_trans [OF this k] quiet_follow_commit] m
    show "settled env n (follow_commit args k)" by (blast intro: settled_trans quiet_settled)
  qed
  show ?thesis
    by (auto simp: on_append_entries_def Let_def fin intro: all_opt_mono [OF settled_recognise_leader])
qed

lemma settled_on_append_entries_reply:
  "all_opt (settled env n) (on_append_entries_reply env from reply n)"
proof -
  have q: "quiet env n (n\<lparr>leader := l\<rparr>)" for l by (rule quiet_fieldI) simp_all
  have "all_opt (settled env n) (try_advance_commit (n\<lparr>leader := l\<rparr>))" for l
    by (rule all_opt_mono [OF quiet_try_advance_commit [where env = env]])
      (blast intro: quiet_settled quiet_trans q)
  then show ?thesis
    by (auto simp: on_append_entries_reply_def Let_def settled_become_follower
        intro: quiet_settled [OF q] split: option.split)
qed

lemma quiet_restore_incoming:
  "all_opt (\<lambda>(n', go). quiet env n n') (restore_incoming env args sql n)"
  using load_stage load_clear
  by (auto simp: restore_incoming_def Let_def or_panic_def quiet_def durable_def stored_def
      split: option.split sum.split prod.split)

lemma quiet_adopt_snapshot: "quiet env n (adopt_snapshot m i tm d n)"
  by (rule quiet_fieldI) (simp_all add: adopt_snapshot_def Let_def split: option.split)

lemma quiet_adopt_and_save:
  "all_opt (quiet env n) (or_panic (recompute_effective_membership env (adopt_snapshot m i tm d n))
     \<bind> persist env)"
  by (auto simp: or_panic_def split: sum.split
      intro: quiet_then_persist quiet_trans [OF quiet_adopt_snapshot quiet_recompute])

lemma quiet_install_incoming:
  "all_opt (\<lambda>(n', ok). quiet env n n') (install_incoming env args incoming sql n)"
proof -
  have "all_opt (\<lambda>n2. all_opt (quiet env n) (persist env n2)) (or_panic
      (recompute_effective_membership env (adopt_snapshot c i tm d k)))" if "quiet env n k" for k c i tm d
    using quiet_adopt_and_save [of k c i tm d] quiet_trans [OF that]
    by (auto elim!: all_opt_mono)
  then show ?thesis
    by (auto simp: install_incoming_def intro!: all_opt_mono [OF quiet_restore_incoming])
qed

lemma settled_on_install_snapshot:
  "all_opt (\<lambda>(n', r). settled env n n') (on_install_snapshot env args n)"
proof -
  have "all_opt (\<lambda>(n', ok). settled env n n') (install_incoming env args c sql m)"
    if "settled env n m" for m c sql
    by (rule all_opt_mono [OF quiet_install_incoming])
      (use that in \<open>auto intro: settled_trans quiet_settled\<close>)
  then show ?thesis
    by (auto simp: on_install_snapshot_def Let_def case_prod_beta' split: option.split
        intro!: all_opt_mono [OF settled_recognise_leader])
qed

lemma settled_on_install_snapshot_reply:
  "all_opt (settled env n) (on_install_snapshot_reply env from reply n)"
proof -
  have q: "quiet env n (n\<lparr>leader := l\<rparr>)" for l by (rule quiet_fieldI) simp_all
  have "all_opt (settled env n) (try_advance_commit (n\<lparr>leader := l\<rparr>))" for l
    by (rule all_opt_mono [OF quiet_try_advance_commit [where env = env]])
      (blast intro: quiet_settled quiet_trans q)
  moreover have "all_opt (settled env n) (try_advance_commit n)"
    by (rule all_opt_mono [OF quiet_try_advance_commit]) (rule quiet_settled)
  ultimately show ?thesis
    by (auto simp: on_install_snapshot_reply_def Let_def settled_become_follower split: option.split)
qed

text \<open>Commands.\<close>

lemma quiet_append_command: "all_opt (\<lambda>(n', r). quiet env n n') (append_command env payload n)"
proof -
  have app: "quiet env n (n\<lparr>ps := fst (log_append (ps n) t c)\<rparr>)" for t c
    by (rule quiet_fieldI) simp_all
  then show ?thesis
    by (auto simp: append_command_def Let_def split_beta split: sum.split
        intro: quiet_trans [OF app quiet_recompute] quiet_then_persist)
qed

lemma quiet_publish_snapshot:
  "all_opt (\<lambda>(n', r). quiet env n n') (publish_snapshot env i tm d n)"
proof -
  have q: "quiet env n (n\<lparr>ps := install_snapshot (ps n) i tm, snapshot_data := d\<rparr>)"
    by (rule quiet_fieldI) simp_all
  then show ?thesis
    by (auto simp: publish_snapshot_def Let_def split: sum.split
        intro: quiet_trans [OF q quiet_recompute] quiet_then_persist)
qed

lemma quiet_compact_with_store:
  "all_opt (\<lambda>(n', r). quiet env n n') (compact_with_store env li m n)"
proof -
  have stage: "quiet env n (n\<lparr>persistence := Some s'\<rparr>)"
    if "persistence n = Some s" "store_stage env g s = Inr s'" for s s' g
    using load_stage [OF that(2)] that(1) by (simp add: quiet_def durable_def stored_def)
  have "all_opt (\<lambda>(n', r). quiet env n n') (publish_snapshot env i tm d (n\<lparr>persistence := Some s'\<rparr>))"
    if "persistence n = Some s" "store_stage env g s = Inr s'" for s s' g i tm d
    by (rule all_opt_mono [OF quiet_publish_snapshot])
      (use stage [OF that] in \<open>auto intro: quiet_trans\<close>)
  then show ?thesis
    by (auto simp: compact_with_store_def Let_def result_simps split: sum.split)
qed

lemma quiet_handle_client_command:
  "all_opt (\<lambda>(n', r). quiet env n n') (handle_client_command env payload n)"
  by (auto simp: handle_client_command_def handle_compact_log_cmd_def compact_without_store_def Let_def
      quiet_append_command quiet_compact_with_store quiet_publish_snapshot
      split: sum.split option.split)

lemma quiet_handle_membership_cmd:
  "all_opt (quiet env n) (handle_membership_cmd env from change n)"
proof -
  have adv: "all_opt (\<lambda>n2. quiet env n (send_heartbeats n2))
      (try_advance_commit (m\<lparr>pending_membership_rpcs := x\<rparr>))" if "quiet env n m" for m x
  proof (rule all_opt_mono [OF quiet_try_advance_commit [where env = env]])
    fix k assume "quiet env (m\<lparr>pending_membership_rpcs := x\<rparr>) k"
    moreover have "quiet env m (m\<lparr>pending_membership_rpcs := x\<rparr>)" by (rule quiet_fieldI) simp_all
    ultimately show "quiet env n (send_heartbeats k)"
      using that quiet_send_heartbeats by (blast intro: quiet_trans)
  qed
  show ?thesis
    by (auto simp: handle_membership_cmd_def adv quiet_emit split: sum.split
        intro!: all_opt_mono [OF quiet_handle_client_command] quiet_emitI)
qed

lemma quiet_on_client: "all_opt (quiet env n) (on_client env client payload n)"
proof -
  have adv: "all_opt (\<lambda>n2. quiet env n (if role n2 = Leader then send_heartbeats n2 else n2))
      (try_advance_commit (m\<lparr>pending_clients := x\<rparr>))" if "quiet env n m" for m x
  proof (rule all_opt_mono [OF quiet_try_advance_commit [where env = env]])
    fix k assume "quiet env (m\<lparr>pending_clients := x\<rparr>) k"
    moreover have "quiet env m (m\<lparr>pending_clients := x\<rparr>)" by (rule quiet_fieldI) simp_all
    ultimately show "quiet env n (if role k = Leader then send_heartbeats k else k)"
      using that quiet_send_heartbeats by (simp, blast intro: quiet_trans)
  qed
  show ?thesis
    by (auto simp: on_client_def adv [simplified] split: sum.split
        intro!: all_opt_mono [OF quiet_handle_client_command] quiet_emitI)
qed

text \<open>The apply loop.\<close>

lemma quiet_retire: "quiet env n (retire_if_removed n)"
  by (simp add: retire_if_removed_def quiet_fieldI)

lemma quiet_apply_committed_membership:
  "all_opt (\<lambda>(n', r). quiet env n n') (apply_committed_membership env e n)"
proof -
  have q: "quiet env n (n\<lparr>ps := (ps n)\<lparr>membership := m\<rparr>\<rparr>)" for m
    by (rule quiet_fieldI) simp_all
  have "all_opt (\<lambda>k. quiet env n (retire_if_removed k)) (persist env m)"
    if "quiet env n m" for m
    by (rule all_opt_mono [OF quiet_then_persist [OF that]]) (blast intro: quiet_trans quiet_retire)
  then show ?thesis
    by (auto simp: apply_committed_membership_def Let_def split: sum.split option.split
        intro: q quiet_trans [OF q quiet_recompute])
qed

lemma quiet_refuse_waiting: "quiet env n m \<Longrightarrow> quiet env n (refuse_waiting c r e m)"
  unfolding refuse_waiting_def by (erule quiet_trans, rule quiet_trans; rule quiet_opt_emit; simp)

lemma quiet_accept_waiting: "quiet env n m \<Longrightarrow> quiet env n (accept_waiting c r i m)"
  unfolding accept_waiting_def by (erule quiet_trans, rule quiet_trans; rule quiet_opt_emit; simp)

lemma quiet_await_finalize: "all_opt (quiet env n) (await_finalize env c r n)"
proof -
  have adv: "all_opt (\<lambda>k. quiet env n (send_heartbeats k))
      (try_advance_commit (m\<lparr>pending_clients := x, pending_membership_rpcs := y\<rparr>))"
    if "quiet env n m" for m x y
  proof (rule all_opt_mono [OF quiet_try_advance_commit [where env = env]])
    fix k assume "quiet env (m\<lparr>pending_clients := x, pending_membership_rpcs := y\<rparr>) k"
    moreover have "quiet env m (m\<lparr>pending_clients := x, pending_membership_rpcs := y\<rparr>)"
      by (rule quiet_fieldI) simp_all
    ultimately show "quiet env n (send_heartbeats k)"
      using that quiet_send_heartbeats by (blast intro: quiet_trans)
  qed
  then show ?thesis
    by (auto simp: await_finalize_def split: sum.split
        intro!: all_opt_mono [OF quiet_ensure_joint_finalize] quiet_refuse_waiting)
qed

lemma quiet_acknowledge: "all_opt (quiet env n) (acknowledge env index joint_started n)"
proof -
  let ?n = "n\<lparr>pending_clients := AList.delete index (pending_clients n),
      pending_membership_rpcs := AList.delete index (pending_membership_rpcs n)\<rparr>"
  have n: "quiet env n ?n" by (rule quiet_fieldI) simp_all
  have "all_opt (quiet env n) (await_finalize env c r ?n)" for c r
    by (rule all_opt_mono [OF quiet_await_finalize]) (rule quiet_trans [OF n])
  then show ?thesis
    by (simp add: acknowledge_def Let_def quiet_refuse_waiting [OF n] quiet_accept_waiting [OF n])
qed

lemma quiet_complete_entry:
  assumes "quiet env n m"
  shows "all_opt (\<lambda>(n', go). quiet env n n') (complete_entry env i e j m)"
proof -
  have h: "quiet env n (fst (hand_over env e m))"
    using assms quiet_hand_over by (rule quiet_trans)
  have "all_opt (quiet env n) (acknowledge env i j (k\<lparr>last_applied := l\<rparr>))"
    if "quiet env n k" for k l
  proof (rule all_opt_mono [OF quiet_acknowledge])
    fix k' assume "quiet env (k\<lparr>last_applied := l\<rparr>) k'"
    moreover have "quiet env k (k\<lparr>last_applied := l\<rparr>)" by (rule quiet_fieldI) simp_all
    ultimately show "quiet env n k'" using that by (blast intro: quiet_trans)
  qed
  then show ?thesis
    using h by (auto simp: complete_entry_def split: prod.split option.split
        intro: quiet_trans [OF _ quiet_fail_all_clients])
qed

lemma quiet_apply_entry: "all_opt (\<lambda>(n', go). quiet env n n') (apply_entry env n)"
proof -
  have "all_opt (\<lambda>(n1, r). all_opt (\<lambda>(n', go). quiet env n n') (case r of
        Inl e \<Rightarrow> Some (fail_all_clients (MembershipApplyFailed i e) n1, False)
      | Inr j \<Rightarrow> complete_entry env i entry j n1))
      (if b then apply_committed_membership env entry n else Some (n, Inr False))" for i entry b
    by (cases b) (auto simp: quiet_complete_entry split: sum.split
        intro!: all_opt_mono [OF quiet_apply_committed_membership]
        intro: quiet_trans [OF _ quiet_fail_all_clients])
  then show ?thesis
    by (simp add: apply_entry_def Let_def case_prod_beta' quiet_fail_all_clients)
qed

lemma quiet_apply_loop:
  "all_opt (\<lambda>r. case r of Inl _ \<Rightarrow> True | Inr (n', go) \<Rightarrow> quiet env n n') (apply_loop fuel env n)"
proof (induction fuel arbitrary: n)
  case 0
  then show ?case by (simp add: apply_loop.simps)
next
  case (Suc fuel)
  have "all_opt (\<lambda>(m, go). all_opt (\<lambda>r. case r of Inl _ \<Rightarrow> True | Inr (n', go) \<Rightarrow> quiet env n n')
      (if go then apply_loop fuel env m else Some (Inr (m, False)))) (apply_entry env n)"
    by (rule all_opt_mono [OF quiet_apply_entry])
      (auto intro!: all_opt_mono [OF Suc.IH] intro: quiet_trans split: sum.split)
  then show ?case by (subst apply_loop.simps) (simp add: case_prod_beta')
qed

text \<open>The event loop.\<close>

lemma settled_then_vote_step:
  assumes "settled env n m" "effective_membership m = effective_membership n"
    "vote_step env req G m m'"
  shows "vote_step env req G n m'"
proof -
  have msgs: "vote_message e \<Longrightarrow> e \<in> set (out m) \<longleftrightarrow> e \<in> set (out n)" for e
    using assms(1) by (intro vote_messages_eq) (simp_all add: settled_def)
  show ?thesis
    using assms msgs unfolding vote_step_def settled_def
    by (elim conjE disjE) auto
qed

lemma on_timeout_now_spec:
  "all_opt (\<lambda>(n', d). vote_step env req G n n') (on_timeout_now env now draw from term deadline n)"
proof -
  have start: "all_opt (vote_step env req G n) (start_election env m)"
    if "settled env n m" "effective_membership m = effective_membership n" for m
    by (rule all_opt_mono [OF start_election_spec]) (rule settled_then_vote_step [OF that])
  have "all_opt (\<lambda>m. all_opt (vote_step env req G n) (start_election env m))
      (become_follower env term n)"
    by (rule all_opt_mono [OF all_opt_conj [OF settled_become_follower become_follower_spec]])
      (auto intro: start)
  then show ?thesis
    using start [of n] by (auto simp: on_timeout_now_def settled_vote_step)
qed

lemma handle_message_spec:
  "all_opt (\<lambda>(n', d). vote_step env (incoming_request (Received from msg))
       (incoming_grant (current_term (ps n)) (Received from msg)) n n')
     (handle_message env now draw from msg deadline n)"
proof -
  have emit: "vote_step env req G n (emit e m)" if "settled env n m" "\<not> vote_message e" for req G e m
    using that by (blast intro: settled_vote_step settled_trans quiet_settled quiet_emit)
  show ?thesis
  proof (cases msg)
    case (RequestVote args)
    show ?thesis
      unfolding RequestVote
      by (auto simp: handle_message_def Let_def intro!: all_opt_mono [OF on_request_vote_spec])
  next
    case (RequestVoteReply r)
    show ?thesis
      unfolding RequestVoteReply using on_request_vote_reply_spec [of None r n "from"]
      by (simp add: handle_message_def split del: if_split)
  next
    case (AppendEntries args)
    show ?thesis
      unfolding AppendEntries
      by (auto simp: handle_message_def Let_def emit
          intro!: all_opt_mono [OF settled_on_append_entries])
  next
    case (InstallSnapshot args)
    show ?thesis
      unfolding InstallSnapshot
      by (auto simp: handle_message_def Let_def emit
          intro!: all_opt_mono [OF settled_on_install_snapshot])
  next
    case (MembershipChangeCmd c)
    show ?thesis
      unfolding MembershipChangeCmd
      by (auto simp: handle_message_def intro!: all_opt_mono [OF quiet_handle_membership_cmd]
          settled_vote_step quiet_settled)
  next
    case (TimeoutNow tm)
    show ?thesis unfolding TimeoutNow by (simp add: handle_message_def on_timeout_now_spec)
  qed (auto simp: handle_message_def quiet_on_leader_transfer quiet_settled settled_vote_step
      intro!: all_opt_mono [OF settled_on_append_entries_reply]
        all_opt_mono [OF settled_on_install_snapshot_reply])
qed

lemma select_event_spec:
  "all_opt (\<lambda>(n', d, go). vote_step env (incoming_request ev)
       (incoming_grant (current_term (ps n)) ev) n n')
     (select_event env now draw ev deadline n)"
proof (cases ev)
  case (Received sender msg)
  show ?thesis
    unfolding Received select_event_def event.case
    by (simp del: incoming_request.simps incoming_grant.simps)
      (rule all_opt_mono [OF handle_message_spec], auto)
next
  case ElectionTimeout
  show ?thesis
    unfolding ElectionTimeout
    using start_election_spec [of None "{}" n] by (auto simp: select_event_def settled_vote_step)
next
  case (ClientCommand c p)
  show ?thesis
    unfolding ClientCommand
    by (auto simp: select_event_def intro!: all_opt_mono [OF quiet_on_client]
        settled_vote_step quiet_settled)
qed (auto simp: select_event_def quiet_settled settled_vote_step quiet_fail_all_clients
    quiet_send_heartbeats quiet_emit quiet_on_control_transfer quiet_on_transfer_request)

lemma loop_body_spec:
  "all_opt (\<lambda>r. case r of Inl _ \<Rightarrow> True | Inr t' \<Rightarrow>
       vote_step env (incoming_request ev) (incoming_grant (current_term (ps (t_node t))) ev)
         (t_node t) (t_node t'))
     (loop_body env now draw ev t)"
proof -
  let ?V = "vote_step env (incoming_request ev) (incoming_grant (current_term (ps (t_node t))) ev) (t_node t)"
  have fin: "?V (expire_transfer now (update_readiness m))" if "?V m" for m
    using that by (blast intro: vote_step_quiet quiet_update_readiness quiet_expire_transfer)
  have app: "all_opt (\<lambda>r. case r of Inl _ \<Rightarrow> True | Inr (m, go) \<Rightarrow> ?V m) (apply_loop k env n)"
    if "?V n" for k n
    by (rule all_opt_mono [OF quiet_apply_loop])
      (use that in \<open>auto intro: vote_step_quiet split: sum.splits\<close>)
  show ?thesis
    unfolding loop_body_def
    by (rule all_opt_bindI [OF select_event_spec])
      (auto simp: Let_def fin split: sum.split bool.split intro!: all_opt_mono [OF app])
qed

text \<open>Restart.\<close>

lemma quiet_clear_staged:
  "persistence n = Some s \<Longrightarrow> all_opt (quiet env n) (clear_staged env n s)"
  using load_clear
  by (auto simp: clear_staged_def quiet_def durable_def stored_def split: sum.split)

lemma quiet_restore_active: "all_opt (quiet env n) (restore_active_snapshot_if_possible env n)"
  by (auto simp: restore_active_snapshot_if_possible_def Let_def or_panic_def quiet_fieldI
      split: sum.split option.split prod.split)

lemma quiet_recover_staged:
  "all_opt (\<lambda>(n', b). quiet env n n') (recover_staged_snapshot_if_possible env n)"
proof -
  have save: "all_opt (\<lambda>s'. quiet env n (m\<lparr>persistence := Some s', pending_staged_snapshot := None\<rparr>))
      (or_panic (store_save env (ps m) (snapshot_data m) s))" if "quiet env n m" for m s
    using that load_save
    by (auto simp: or_panic_def quiet_def durable_def stored_def split: sum.split)
  have mach: "quiet env n (n\<lparr>machine := m\<rparr>)" for m by (rule quiet_fieldI) simp_all
  have adopt: "all_opt (\<lambda>n2. all_opt (\<lambda>s'. quiet env n (n2\<lparr>persistence := Some s',
        pending_staged_snapshot := None\<rparr>)) (or_panic (store_save env (ps n2) (snapshot_data n2) s)))
      (or_panic (recompute_effective_membership env (adopt_snapshot c i tm d (n\<lparr>machine := m\<rparr>))))"
    for c i tm d m s
  proof (cases "recompute_effective_membership env (adopt_snapshot c i tm d (n\<lparr>machine := m\<rparr>))")
    case (Inr k)
    have "quiet env n k"
      by (rule quiet_trans [OF mach quiet_trans [OF quiet_adopt_snapshot quiet_recompute [OF Inr]]])
    then show ?thesis using Inr by (simp add: save)
  qed simp
  show ?thesis
    unfolding recover_staged_snapshot_if_possible_def
    by (auto simp: quiet_clear_staged adopt or_panic_def [of "sm_validate _ _ _ _ _"] all_opt_def [of _ "staged_snapshot_contents _ _ _"]
        split: option.split staged_kind.split sum.split prod.split)
qed

lemma restarted_quiet: "restarted env i tm v n \<Longrightarrow> quiet env n n' \<Longrightarrow> restarted env i tm v n'"
  by (simp add: restarted_def quiet_def)

lemma restarted_bind:
  "all_opt (restarted env i tm v) x \<Longrightarrow> (\<And>m. all_opt (quiet env m) (f m)) \<Longrightarrow>
   all_opt (restarted env i tm v) (x \<bind> f)"
  by (erule all_opt_bindI) (blast intro: all_opt_mono restarted_quiet)

lemma with_snapshot_store_quiet: "all_opt (quiet env n) (with_snapshot_store env n)"
proof -
  have q: "quiet env n (n\<lparr>has_snapshot_store := True\<rparr>)" by (rule quiet_fieldI) simp_all
  have "all_opt (\<lambda>(m, b). all_opt (quiet env n)
      (if \<not> b then restore_active_snapshot_if_possible env m else Some m))
      (recover_staged_snapshot_if_possible env (n\<lparr>has_snapshot_store := True\<rparr>))"
    by (rule all_opt_mono [OF quiet_recover_staged])
      (auto intro!: all_opt_mono [OF quiet_restore_active] intro: quiet_trans quiet_trans [OF q])
  then show ?thesis by (simp add: with_snapshot_store_def case_prod_beta')
qed

lemma adopt_stored:
  assumes "store_load env s = Inr loaded" "stored env (Some s) tm vote" "restarted env i 0 None n"
  shows "all_opt (\<lambda>(m, b). restarted env i tm vote (m\<lparr>persistence := Some s, pending_staged_snapshot := g\<rparr>))
    (case loaded of None \<Rightarrow> Some (n, False) | Some (p, snap) \<Rightarrow> adopt_loaded n p snap)"
  using assms
  by (auto simp: restarted_def stored_def adopt_loaded_def Let_def durable_def or_panic_def
      split: option.split sum.split)

lemma quiet_settle_readiness: "quiet env n (settle_readiness b n)"
  by (auto simp: settle_readiness_def retire_if_removed_def Let_def intro!: quiet_fieldI)

lemma recover_bind:
  "all_opt (quiet env n) (recover_staged_snapshot_if_possible env n \<bind> (\<lambda>(n3, b).
     (if \<not> b then restore_active_snapshot_if_possible env n3 else Some n3) \<bind> (\<lambda>n4.
     (if c \<and> pending_staged_snapshot n4 = None then persist env n4 else Some n4) \<bind> (\<lambda>n5.
     Some (settle_readiness d n5)))))"
proof (rule all_opt_bindI [OF quiet_recover_staged], clarify)
  fix m b assume m: "quiet env n m"
  have "all_opt (quiet env m)
     ((if \<not> b then restore_active_snapshot_if_possible env m else Some m) \<bind> (\<lambda>n4.
     (if c \<and> pending_staged_snapshot n4 = None then persist env n4 else Some n4) \<bind> (\<lambda>n5.
     Some (settle_readiness d n5))))"
    by (intro quiet_bind) (simp_all add: quiet_restore_active quiet_persist quiet_settle_readiness)
  then show "all_opt (quiet env n)
     ((if \<not> b then restore_active_snapshot_if_possible env m else Some m) \<bind> (\<lambda>n4.
     (if c \<and> pending_staged_snapshot n4 = None then persist env n4 else Some n4) \<bind> (\<lambda>n5.
     Some (settle_readiness d n5))))"
    by (rule all_opt_mono) (rule quiet_trans [OF m])
qed

lemma with_persistence_spec:
  assumes "stored env (Some s) tm vote" "restarted env i 0 None n"
  shows "all_opt (restarted env i tm vote) (with_persistence env s n)"
proof (cases "store_load env s")
  case (Inr loaded)
  show ?thesis
  proof (cases "store_load_staged env s")
    case (Inr g)
    have "all_opt (restarted env i tm vote) (or_panic (recompute_effective_membership env k) \<bind> f)"
      if "restarted env i tm vote k" "\<And>m. all_opt (quiet env m) (f m)" for k f
      by (rule restarted_bind [OF _ that(2)])
        (auto simp: or_panic_def split: sum.split intro: restarted_quiet [OF that(1)] quiet_recompute)
    note * = this [OF _ recover_bind]
    show ?thesis
      unfolding with_persistence_def \<open>store_load env s = Inr loaded\<close> Inr or_panic_simps bind.bind_lunit
      by (rule all_opt_bindI [OF adopt_stored [OF \<open>store_load env s = Inr loaded\<close> assms]])
        (auto intro: *)
  qed (simp add: with_persistence_def Inr)
qed (simp add: with_persistence_def)

lemma boot_node_spec:
  assumes "stored env (Some s) tm vote" "restarted env i 0 None n"
  shows "all_opt (\<lambda>t. restarted env i tm vote (t_node t)) (boot_node env now draw f ms s n)"
proof -
  have fin: "all_opt (\<lambda>n3. all_opt (\<lambda>n4. all_opt (\<lambda>t. restarted env i tm vote (t_node t))
      (spawn now draw (n4\<lparr>election_timeout_base_ms := ms\<rparr>))) (with_confirmed_apply_tx n3))
      (with_durable_apply_frontier k m)" if "restarted env i tm vote m" for k m
    using that
    by (auto simp: with_durable_apply_frontier_def with_confirmed_apply_tx_def spawn_def Let_def
        restarted_def durable_def)
  have "all_opt (restarted env i 0 None) (with_snapshot_store env n)"
    by (rule all_opt_mono [OF with_snapshot_store_quiet]) (rule restarted_quiet [OF assms(2)])
  then show ?thesis
    unfolding boot_node_def
    by (rule all_opt_bindI) (auto intro!: all_opt_mono [OF with_persistence_spec [OF assms(1)]] fin)
qed

end

lemma restarted_new: "restarted env i 0 None (raft_new i peers mach)"
  by (simp add: restarted_def raft_new_def from_bootstrap_def ps_new_def durable_def stored_def Let_def)

lemma restarted_learner:
  "new_learner_from_genesis i genesis seeds mach = Inr n \<Longrightarrow> restarted env i 0 None n"
  by (auto simp: new_learner_from_genesis_def new_learner_def restarted_def from_bootstrap_def
      ps_new_def durable_def stored_def result_simps split: if_splits)

section \<open>The in-memory environment\<close>

text \<open>The node over the in-memory store: a concrete environment for evaluation, whose state
  machine is the list of the entries it has applied.\<close>

definition mem_env :: "(mem_store, log_entry list) raft_env" where
  "mem_env = \<lparr>codec_of = sample_codec, store_save = mem_save, store_stage = mem_stage_snapshot,
     store_load_staged = mem_load_staged_snapshot, store_clear = mem_clear_staged_snapshot,
     store_load = mem_load,
     sm_create = (\<lambda>m i t. Inr [7]), sm_validate = (\<lambda>m i t d. Inr ()),
     sm_restore = (\<lambda>m i t d. (m, Inr ())),
     sm_confirm = (\<lambda>m e. (m @ [e], Applied)), sm_handoff = (\<lambda>m e. (m @ [e], Applied))\<rparr>"

interpretation mem_raft: durable_raft mem_env
  unfolding durable_raft_def mem_env_def
  by (simp add: mem_persistence.persistence_store_axioms)

section \<open>Properties\<close>

text \<open>C15. A vote is given once per term and is durable before it is announced: when a node
  answers a vote request with a grant, it had not voted for anybody else in that term, the
  candidate's log is at least as up to date as its own, and term and vote are in the node
  and in its store.\<close>

theorem vote_granted_once:
  assumes "durable_raft env" "on_request_vote env args n = Some (n', reply)" "rvr_vote_granted reply"
  shows "rvr_term reply = rv_term args \<and> current_term (ps n') = rv_term args \<and>
    voted_for (ps n') = Some (rv_candidate_id args) \<and> up_to_date args (ps n') \<and>
    stored env (persistence n') (rv_term args) (Some (rv_candidate_id args)) \<and>
    (current_term (ps n) = rv_term args \<longrightarrow>
       voted_for (ps n) \<in> {None, Some (rv_candidate_id args)}) \<and>
    current_term (ps n) \<le> rv_term args"
proof -
  have spec: "voted_for (ps n') = Some (rv_candidate_id args)" "current_term (ps n') = rv_term args"
    "durable env n'" "rvr_term reply = rv_term args" "up_to_date args (ps n')"
    and step: "vote_step env (Some (''x'', args)) {} n (emit (Send ''x'' (RequestVoteReply reply)) n')"
    using all_opt_D [OF durable_raft.on_request_vote_spec [OF assms(1)] assms(2)] assms(3) by simp_all
  have "current_term (ps n) < current_term (ps n') \<or> current_term (ps n') = current_term (ps n) \<and>
      (voted_for (ps n) = None \<or> voted_for (ps n') = voted_for (ps n))"
    using step by (simp add: vote_step_def)
  moreover have "stored env (persistence n') (rv_term args) (Some (rv_candidate_id args))"
    using spec by (simp add: durable_def)
  ultimately show ?thesis using spec(1,2,4,5) by (elim disjE conjE) simp_all
qed

definition sample_node :: "(mem_store, log_entry list) raft_node" where
  "sample_node = (raft_new ''n1'' [''n2'', ''n3''] [])\<lparr>persistence := Some mem_new\<rparr>"

definition sample_vote_request :: request_vote_args where
  "sample_vote_request = \<lparr>rv_term = 4, rv_candidate_id = ''n2'', rv_last_log_index = 0, rv_last_log_term = 0\<rparr>"

theorem vote_granted_once_witness:
  "case on_request_vote mem_env sample_vote_request sample_node of
     Some (n', reply) \<Rightarrow> rvr_vote_granted reply \<and>
       stored mem_env (persistence n') 4 (Some ''n2'')
   | None \<Rightarrow> False"
proof -
  have "case on_request_vote mem_env sample_vote_request sample_node of
     Some (n', reply) \<Rightarrow> rvr_vote_granted reply | None \<Rightarrow> False" by code_simp
  then obtain n' reply where *: "on_request_vote mem_env sample_vote_request sample_node = Some (n', reply)"
    "rvr_vote_granted reply" by (auto split: option.splits)
  from vote_granted_once [OF mem_raft.durable_raft_axioms this]
  have "stored mem_env (persistence n') 4 (Some ''n2'')" by (simp add: sample_vote_request_def)
  then show ?thesis using * by simp
qed

text \<open>Terms never go back and a vote is never changed within a term, over any iteration of
  the event loop: whatever the event, the term grows, or it is the same and a vote that was
  cast stays. The store of the node keeps up with both.\<close>

theorem term_and_vote_monotone:
  assumes "durable_raft env" "loop_body env now draw ev t = Some (Inr t')"
  shows "(current_term (ps (t_node t)) < current_term (ps (t_node t')) \<or>
      current_term (ps (t_node t')) = current_term (ps (t_node t)) \<and>
      (voted_for (ps (t_node t)) = None \<or> voted_for (ps (t_node t')) = voted_for (ps (t_node t)))) \<and>
    (durable env (t_node t) \<longrightarrow> durable env (t_node t'))"
  using all_opt_D [OF durable_raft.loop_body_spec [OF assms(1)] assms(2)]
  by (simp add: vote_step_def)

definition sample_task :: "(mem_store, log_entry list) raft_task" where
  "sample_task = \<lparr>t_node = sample_node, t_deadline = 750, t_shared = publish_shared sample_node,
     t_running = True\<rparr>"

theorem term_and_vote_monotone_witness:
  "case loop_body mem_env 5 (\<lambda>_. 0) (Received ''n2'' (RequestVote sample_vote_request)) sample_task of
     Some (Inr t') \<Rightarrow> durable mem_env (t_node t') | _ \<Rightarrow> False"
proof -
  have "case loop_body mem_env 5 (\<lambda>_. 0) (Received ''n2'' (RequestVote sample_vote_request)) sample_task of
     Some (Inr t') \<Rightarrow> True | _ \<Rightarrow> False" by code_simp
  then obtain t' where *: "loop_body mem_env 5 (\<lambda>_. 0) (Received ''n2'' (RequestVote sample_vote_request))
      sample_task = Some (Inr t')" by (auto split: option.splits sum.splits)
  have "durable mem_env (t_node sample_task)"
    by (simp add: sample_task_def sample_node_def durable_def stored_def mem_env_def mem_load_def
        mem_new_def raft_new_def from_bootstrap_def ps_new_def Let_def)
  then show ?thesis
    using term_and_vote_monotone [OF mem_raft.durable_raft_axioms *] * by simp
qed

text \<open>A crash loses no vote: when a node restarts over the store it was using, through the
  whole start-up sequence, it comes back as a follower with the term and the vote it had.\<close>

theorem restart_recovers_vote:
  assumes "durable_raft env" "durable env n" "persistence n = Some store"
    and "boot_node env now draw frontier ms store (raft_new i peers mach) = Some t"
  shows "current_term (ps (t_node t)) = current_term (ps n) \<and>
    voted_for (ps (t_node t)) = voted_for (ps n) \<and> role (t_node t) = Follower \<and>
    durable env (t_node t)"
proof -
  have "stored env (Some store) (current_term (ps n)) (voted_for (ps n))"
    using assms(2,3) by (simp add: durable_def)
  from all_opt_D [OF durable_raft.boot_node_spec [OF assms(1) this restarted_new] assms(4)]
  show ?thesis by (simp add: restarted_def)
qed

theorem restart_recovers_vote_witness:
  "case on_request_vote mem_env sample_vote_request sample_node of None \<Rightarrow> False
   | Some (n', reply) \<Rightarrow> (case persistence n' of None \<Rightarrow> False | Some store \<Rightarrow>
       (case boot_node mem_env 9 (\<lambda>_. 0) (\<lambda>_. 0) 750 store (raft_new ''n1'' [''n2'', ''n3''] []) of
          None \<Rightarrow> False
        | Some t \<Rightarrow> current_term (ps (t_node t)) = 4 \<and> voted_for (ps (t_node t)) = Some ''n2''))"
proof -
  have "case on_request_vote mem_env sample_vote_request sample_node of None \<Rightarrow> False
   | Some (n', reply) \<Rightarrow> current_term (ps n') = 4 \<and> voted_for (ps n') = Some ''n2'' \<and>
      (case persistence n' of None \<Rightarrow> False | Some store \<Rightarrow>
       (case boot_node mem_env 9 (\<lambda>_. 0) (\<lambda>_. 0) 750 store (raft_new ''n1'' [''n2'', ''n3''] []) of
          None \<Rightarrow> False | Some t \<Rightarrow> True))" by code_simp
  then obtain n' reply store t where n': "on_request_vote mem_env sample_vote_request sample_node = Some (n', reply)"
    "current_term (ps n') = 4" "voted_for (ps n') = Some ''n2''" "persistence n' = Some store"
    and t: "boot_node mem_env 9 (\<lambda>_. 0) (\<lambda>_. 0) 750 store (raft_new ''n1'' [''n2'', ''n3''] []) = Some t"
    by (auto split: option.splits)
  have "durable mem_env sample_node"
    by (simp add: sample_node_def durable_def stored_def mem_env_def mem_load_def
        mem_new_def raft_new_def from_bootstrap_def ps_new_def Let_def)
  then have "durable mem_env n'"
    using all_opt_D [OF mem_raft.on_request_vote_spec n'(1)]
    by (simp add: vote_step_def durable_def)
  from restart_recovers_vote [OF mem_raft.durable_raft_axioms this n'(4) t] n' t
  show ?thesis by simp
qed

end
