(* ===== verification/Raft_Cluster.thy ===== *)
theory Raft_Cluster
  imports Raft_Vote
begin

text \<open>
  A cluster of Raft nodes. Every node runs the event loop of \<open>Raft_Loop\<close>; the network keeps
  every message that was ever sent and delivers any of them at any time, so it loses,
  duplicates and reorders messages at will. A node may stop at any point between two
  iterations and restart from what its store holds.

  Two ghost components record history: \<open>cast\<close>, the votes that were cast, and \<open>elected\<close>, the
  leaders that were elected. The result is election safety: one leader per term, ever, while
  the configuration stays the same (a node takes a step of this system when its effective
  configuration is \<open>c\<close>).
\<close>

section \<open>The system\<close>

record ('s, 'm) cluster =
  tasks :: "nodeid \<Rightarrow> ('s, 'm) raft_task"
  network :: "(nodeid \<times> nodeid \<times> raft_message) set"
  cast :: "(nodeid \<times> nat \<times> nodeid) set"
  elected :: "(nodeid \<times> nat) set"

abbreviation node_of :: "('s, 'm) cluster \<Rightarrow> nodeid \<Rightarrow> ('s, 'm) raft_node" where
  "node_of s i \<equiv> t_node (tasks s i)"

abbreviation term_of :: "('s, 'm) cluster \<Rightarrow> nodeid \<Rightarrow> nat" where
  "term_of s i \<equiv> current_term (ps (node_of s i))"

definition sent_by :: "nodeid \<Rightarrow> ('s, 'm) raft_node \<Rightarrow> (nodeid \<times> nodeid \<times> raft_message) set" where
  "sent_by i n = {(i, dst, msg) | dst msg. Send dst msg \<in> set (out n)}"

definition vote_of :: "nodeid \<Rightarrow> ('s, 'm) raft_node \<Rightarrow> (nodeid \<times> nat \<times> nodeid) set" where
  "vote_of i n = {(i, current_term (ps n), v) | v. voted_for (ps n) = Some v}"

definition leadership_of :: "nodeid \<Rightarrow> ('s, 'm) raft_node \<Rightarrow> (nodeid \<times> nat) set" where
  "leadership_of i n = (if role n = Leader then {(i, current_term (ps n))} else {})"

definition after :: "nodeid \<Rightarrow> ('s, 'm) raft_task \<Rightarrow> ('s, 'm) cluster \<Rightarrow> ('s, 'm) cluster" where
  "after i t s = s\<lparr>tasks := (tasks s)(i := t),
     network := network s \<union> sent_by i (t_node t),
     cast := cast s \<union> vote_of i (t_node t),
     elected := elected s \<union> leadership_of i (t_node t)\<rparr>"

definition deliverable :: "('s, 'm) cluster \<Rightarrow> nodeid \<Rightarrow> event \<Rightarrow> bool" where
  "deliverable s i ev = (case ev of Received src msg \<Rightarrow> (src, i, msg) \<in> network s | _ \<Rightarrow> True)"

inductive cluster_step ::
  "('s, 'm) raft_env \<Rightarrow> cluster_membership \<Rightarrow> ('s, 'm) cluster \<Rightarrow> ('s, 'm) cluster \<Rightarrow> bool"
  for env c where
  iterate: "t_running (tasks s i) \<Longrightarrow> effective_membership (node_of s i) = c \<Longrightarrow>
    deliverable s i ev \<Longrightarrow> loop_body env now draw ev (tasks s i) = Some (Inr t) \<Longrightarrow>
    cluster_step env c s (after i t s)"
| restart: "persistence (node_of s i) = Some store \<Longrightarrow>
    n = raft_new i peers mach \<or> new_learner_from_genesis i genesis peers mach = Inr n \<Longrightarrow>
    boot_node env now draw frontier ms store n = Some t \<Longrightarrow>
    cluster_step env c s (after i t s)"

definition cluster_init :: "('s, 'm) raft_env \<Rightarrow> ('s, 'm) cluster \<Rightarrow> bool" where
  "cluster_init env s \<longleftrightarrow> (\<forall>i. restarted env i 0 None (node_of s i)) \<and>
     network s = {} \<and> cast s = {} \<and> elected s = {}"

section \<open>The invariant\<close>

text \<open>What an outgoing or travelling message says about votes.\<close>

fun message_truth :: "(nodeid \<times> nat \<times> nodeid) set \<Rightarrow> nodeid \<Rightarrow> effect \<Rightarrow> bool" where
  "message_truth V i (Send dst (RequestVote args)) = (rv_candidate_id args = i)"
| "message_truth V i (Send dst (RequestVoteReply r)) =
     (rvr_vote_granted r \<longrightarrow> (i, rvr_term r, dst) \<in> V)"
| "message_truth V i _ = True"

definition node_inv ::
  "('s, 'm) raft_env \<Rightarrow> cluster_membership \<Rightarrow> (nodeid \<times> nat \<times> nodeid) set \<Rightarrow> nodeid \<Rightarrow>
   ('s, 'm) raft_node \<Rightarrow> bool" where
  "node_inv env c V i n \<longleftrightarrow> node_id n = i \<and> durable env n \<and>
     (\<forall>t v. (i, t, v) \<in> V \<longrightarrow> t \<le> current_term (ps n) \<and>
        (t = current_term (ps n) \<longrightarrow> voted_for (ps n) = Some v)) \<and>
     vote_of i n \<subseteq> V \<and>
     (\<forall>e \<in> set (out n). message_truth V i e) \<and>
     (role n \<noteq> Follower \<longrightarrow> (\<forall>v \<in> votes_received n. (v, current_term (ps n), i) \<in> V)) \<and>
     (role n = Leader \<longrightarrow> has_vote_quorum c (votes_received n))"

definition cluster_inv ::
  "('s, 'm) raft_env \<Rightarrow> cluster_membership \<Rightarrow> ('s, 'm) cluster \<Rightarrow> bool" where
  "cluster_inv env c s \<longleftrightarrow>
     (\<forall>i. node_inv env c (cast s) i (node_of s i)) \<and>
     (\<forall>src dst msg. (src, dst, msg) \<in> network s \<longrightarrow> message_truth (cast s) src (Send dst msg)) \<and>
     (\<forall>i t v w. (i, t, v) \<in> cast s \<longrightarrow> (i, t, w) \<in> cast s \<longrightarrow> v = w) \<and>
     (\<forall>i t. (i, t) \<in> elected s \<longrightarrow>
        (\<exists>q. has_vote_quorum c q \<and> (\<forall>v \<in> q. (v, t, i) \<in> cast s)))"

lemma after_fields:
  "tasks (after i t s) = (tasks s)(i := t)"
  "network (after i t s) = network s \<union> sent_by i (t_node t)"
  "cast (after i t s) = cast s \<union> vote_of i (t_node t)"
  "elected (after i t s) = elected s \<union> leadership_of i (t_node t)"
  by (simp_all add: after_def)

lemma message_truth_mono: "message_truth V i e \<Longrightarrow> V \<subseteq> W \<Longrightarrow> message_truth W i e"
  by (cases "(V, i, e)" rule: message_truth.cases) auto

lemma message_truth_quiet: "\<not> vote_message e \<Longrightarrow> message_truth V i e"
  by (cases "(V, i, e)" rule: message_truth.cases) auto

lemma node_inv_other:
  assumes "node_inv env c V j m" "j \<noteq> i"
  shows "node_inv env c (V \<union> vote_of i n) j m"
  using assms
  by (auto simp: node_inv_def vote_of_def intro: message_truth_mono [where V = V])

text \<open>The step of one node, from what \<open>vote_step\<close> says of it.\<close>

lemma node_inv_step:
  assumes inv: "node_inv env c V i n" and step: "vote_step env req G n n'"
    and c: "effective_membership n = c"
    and req: "\<And>src args. req = Some (src, args) \<Longrightarrow> rv_candidate_id args = src"
    and G: "\<And>v. v \<in> G \<Longrightarrow> (v, current_term (ps n), i) \<in> V"
  shows "node_inv env c (V \<union> vote_of i n') i n'"
proof -
  let ?W = "V \<union> vote_of i n'"
  have id: "node_id n' = i" "node_id n = i" using inv step by (simp_all add: node_inv_def vote_step_def)
  have msgs: "message_truth ?W i e" if e: "e \<in> set (out n')" for e
  proof (cases "vote_message e")
    case True
    then consider "e \<in> set (out n)" | "own_request i e" | "truthful_grant req (ps n') e"
      using step e id by (auto simp: vote_step_def)
    then show ?thesis
    proof cases
      case 1
      then show ?thesis using inv by (auto simp: node_inv_def intro: message_truth_mono)
    next
      case 2
      then show ?thesis by (cases "(i, e)" rule: own_request.cases) auto
    next
      case 3
      then show ?thesis
        using req by (cases "(req, ps n', e)" rule: truthful_grant.cases) (auto simp: vote_of_def)
    qed
  qed (rule message_truth_quiet)
  have old: "t \<le> current_term (ps n) \<and> (t = current_term (ps n) \<longrightarrow> voted_for (ps n) = Some v)"
    if "(i, t, v) \<in> V" for t v
    using inv that by (simp add: node_inv_def)
  have mono: "current_term (ps n) < current_term (ps n') \<or>
      current_term (ps n') = current_term (ps n) \<and>
        (voted_for (ps n) = None \<or> voted_for (ps n') = voted_for (ps n))"
    using step by (simp add: vote_step_def)
  have past: "t \<le> current_term (ps n') \<and> (t = current_term (ps n') \<longrightarrow> voted_for (ps n') = Some v)"
    if "(i, t, v) \<in> ?W" for t v
    using that old [of t v] mono by (auto simp: vote_of_def)
  have votes: "(v, current_term (ps n'), i) \<in> ?W" if "role n' \<noteq> Follower" "v \<in> votes_received n'" for v
  proof -
    have had: "\<forall>v \<in> votes_received n. (v, current_term (ps n), i) \<in> V" if "role n \<noteq> Follower"
      using inv that by (simp add: node_inv_def)
    have "(role n \<noteq> Follower \<and> current_term (ps n') = current_term (ps n) \<and>
        votes_received n' \<subseteq> votes_received n \<union> G) \<or>
      (voted_for (ps n') = Some i \<and> votes_received n' = {i})"
      using step that(1) id by (simp add: vote_step_def)
    then show ?thesis using had G that(2) by (auto simp: vote_of_def)
  qed
  have lead: "has_vote_quorum c (votes_received n')" if "role n' = Leader"
  proof -
    have had: "role n = Leader \<Longrightarrow> has_vote_quorum c (votes_received n)"
      using inv by (simp add: node_inv_def)
    have "(role n = Leader \<and> votes_received n' = votes_received n) \<or>
        has_vote_quorum c (votes_received n')"
      using step that c by (auto simp: vote_step_def)
    then show ?thesis using had by auto
  qed
  have dur: "durable env n'" using inv step by (simp add: node_inv_def vote_step_def)
  show ?thesis
    unfolding node_inv_def using id msgs past votes lead dur by blast
qed

lemma node_inv_restarted:
  assumes "node_inv env c V i n" "restarted env i (current_term (ps n)) (voted_for (ps n)) n'"
  shows "node_inv env c (V \<union> vote_of i n') i n'"
proof -
  have "vote_of i n' = vote_of i n" using assms(2) by (simp add: vote_of_def restarted_def)
  then have V: "V \<union> vote_of i n' = V" using assms(1) by (auto simp: node_inv_def)
  have "message_truth V i e" if "e \<in> set (out n')" for e
    using assms(2) that by (intro message_truth_quiet) (auto simp: restarted_def filter_empty_conv)
  then show ?thesis
    using assms unfolding V by (simp add: node_inv_def restarted_def vote_of_def)
qed

lemma cluster_inv_after:
  assumes inv: "cluster_inv env c s"
    and new: "node_inv env c (cast s \<union> vote_of i (t_node t)) i (t_node t)"
  shows "cluster_inv env c (after i t s)"
proof -
  let ?n = "t_node t" and ?W = "cast s \<union> vote_of i (t_node t)"
  have nodes: "node_inv env c ?W j (t_node (((tasks s)(i := t)) j))" for j
    using inv new by (cases "j = i") (auto simp: cluster_inv_def intro!: node_inv_other)
  have net: "message_truth ?W src (Send dst msg)" if "(src, dst, msg) \<in> network s \<union> sent_by i ?n" for src dst msg
    using that inv new
    by (auto simp: cluster_inv_def node_inv_def sent_by_def intro: message_truth_mono [where V = "cast s"])
  have fun_W: "v = w" if "(j, tm, v) \<in> ?W" "(j, tm, w) \<in> ?W" for j tm v w
  proof (cases "(j, tm, v) \<in> cast s \<and> (j, tm, w) \<in> cast s")
    case True
    then show ?thesis using inv unfolding cluster_inv_def by blast
  next
    case False
    then have "j = i" "tm = current_term (ps ?n)" using that by (auto simp: vote_of_def)
    then have "voted_for (ps ?n) = Some v" "voted_for (ps ?n) = Some w"
      using new that by (auto simp: node_inv_def)
    then show ?thesis by simp
  qed
  have el: "\<exists>q. has_vote_quorum c q \<and> (\<forall>v \<in> q. (v, tm, j) \<in> ?W)"
    if "(j, tm) \<in> elected s \<union> leadership_of i ?n" for j tm
  proof (cases "(j, tm) \<in> elected s")
    case True
    then show ?thesis using inv unfolding cluster_inv_def by blast
  next
    case False
    then have "j = i" "tm = current_term (ps ?n)" "role ?n = Leader"
      using that by (auto simp: leadership_of_def split: if_splits)
    then have "has_vote_quorum c (votes_received ?n) \<and> (\<forall>v \<in> votes_received ?n. (v, tm, j) \<in> ?W)"
      using new by (auto simp: node_inv_def)
    then show ?thesis by blast
  qed
  show ?thesis
    unfolding cluster_inv_def after_fields
    by (intro conjI allI impI) (rule nodes, erule net, erule (1) fun_W, erule el)
qed

lemma cluster_inv_init: "cluster_init env s \<Longrightarrow> cluster_inv env c s"
  by (auto simp: cluster_init_def cluster_inv_def node_inv_def restarted_def vote_of_def
      filter_empty_conv intro: message_truth_quiet)

lemma network_truth:
  "cluster_inv env c s \<Longrightarrow> (src, dst, msg) \<in> network s \<Longrightarrow>
   message_truth (cast s) src (Send dst msg)"
  unfolding cluster_inv_def by blast

lemma elected_quorum:
  "cluster_inv env c s \<Longrightarrow> (i, t) \<in> elected s \<Longrightarrow>
   \<exists>q. has_vote_quorum c q \<and> (\<forall>v \<in> q. (v, t, i) \<in> cast s)"
  unfolding cluster_inv_def by blast

lemma cast_unique:
  "cluster_inv env c s \<Longrightarrow> (i, t, v) \<in> cast s \<Longrightarrow> (i, t, w) \<in> cast s \<Longrightarrow> v = w"
  unfolding cluster_inv_def by blast

lemma incoming_request_truth:
  assumes "cluster_inv env c s" "deliverable s i ev" "incoming_request ev = Some (src, args)"
  shows "rv_candidate_id args = src"
proof -
  from assms(3) have "ev = Received src (RequestVote args)"
    by (cases ev rule: incoming_request.cases) auto
  then have "message_truth (cast s) src (Send i (RequestVote args))"
    using assms(2) by (intro network_truth [OF assms(1)]) (simp add: deliverable_def)
  then show ?thesis by simp
qed

lemma incoming_grant_truth:
  assumes "cluster_inv env c s" "deliverable s i ev" "v \<in> incoming_grant tm ev"
  shows "(v, tm, i) \<in> cast s"
proof -
  from assms(3) obtain r where ev: "ev = Received v (RequestVoteReply r)" and r: "rvr_vote_granted r" "rvr_term r = tm"
    by (cases "(tm, ev)" rule: incoming_grant.cases) (auto split: if_splits)
  then have "message_truth (cast s) v (Send i (RequestVoteReply r))"
    using assms(2) by (intro network_truth [OF assms(1)]) (simp add: deliverable_def)
  then show ?thesis using r by simp
qed

lemma cluster_inv_step:
  assumes "durable_raft env" "cluster_step env c s s'" "cluster_inv env c s"
  shows "cluster_inv env c s'"
  using assms(2)
proof cases
  case (iterate i ev now draw t)
  have "vote_step env (incoming_request ev) (incoming_grant (term_of s i) ev) (node_of s i) (t_node t)"
    using all_opt_D [OF durable_raft.loop_body_spec [OF assms(1)] iterate(5)] by simp
  moreover have "node_inv env c (cast s) i (node_of s i)" using assms(3) by (simp add: cluster_inv_def)
  ultimately have "node_inv env c (cast s \<union> vote_of i (t_node t)) i (t_node t)"
    using iterate(3) incoming_request_truth [OF assms(3) iterate(4)]
      incoming_grant_truth [OF assms(3) iterate(4)]
    by (intro node_inv_step [where n = "node_of s i"]) auto
  then show ?thesis unfolding iterate(1) by (rule cluster_inv_after [OF assms(3)])
next
  case (restart i store n peers mach genesis now draw frontier ms t)
  have ni: "node_inv env c (cast s) i (node_of s i)" using assms(3) by (simp add: cluster_inv_def)
  then have "stored env (Some store) (term_of s i) (voted_for (ps (node_of s i)))"
    using restart(2) by (simp add: node_inv_def durable_def)
  moreover have "restarted env i 0 None n"
    using restart(3) by (auto simp: restarted_new intro: restarted_learner)
  ultimately have "restarted env i (term_of s i) (voted_for (ps (node_of s i))) (t_node t)"
    using all_opt_D [OF durable_raft.boot_node_spec [OF assms(1)] restart(4)] by blast
  then show ?thesis
    unfolding restart(1) by (intro cluster_inv_after [OF assms(3)] node_inv_restarted [OF ni])
qed

lemma cluster_inv_reachable:
  assumes "durable_raft env" "cluster_init env s0" "(cluster_step env c)\<^sup>*\<^sup>* s0 s"
  shows "cluster_inv env c s"
  using assms(3)
  by (induction rule: rtranclp_induct)
    (auto intro: cluster_inv_init [OF assms(2)] cluster_inv_step [OF assms(1)])

section \<open>Properties\<close>


text \<open>A cluster of nodes that do not know each other, over empty in-memory stores; the
  election timer of node \<open>n1\<close> fires.\<close>

definition solo_task :: "nodeid \<Rightarrow> (mem_store, log_entry list) raft_task" where
  "solo_task i = (let n = (raft_new i [] [])\<lparr>persistence := Some mem_new\<rparr> in
     \<lparr>t_node = n, t_deadline = 750, t_shared = publish_shared n, t_running = True\<rparr>)"

definition solo_cluster :: "(mem_store, log_entry list) cluster" where
  "solo_cluster = \<lparr>tasks = solo_task, network = {}, cast = {}, elected = {}\<rparr>"

lemma solo_election:
  "case loop_body mem_env 750 (\<lambda>_. 0) ElectionTimeout (solo_task ''n1'') of
     Some (Inr t) \<Rightarrow> role (t_node t) = Leader \<and> current_term (ps (t_node t)) = 1
   | _ \<Rightarrow> False"
  by code_simp

lemma solo_init: "cluster_init mem_env solo_cluster"
  by (simp add: cluster_init_def solo_cluster_def solo_task_def restarted_def raft_new_def
      from_bootstrap_def ps_new_def durable_def stored_def mem_env_def mem_load_def mem_new_def Let_def)


end
