(* ===== verification/Raft_Apply.thy ===== *)
theory Raft_Apply
  imports Raft_Vote
begin

text \<open>
  The loop that applies committed entries. A round consumes one log position and may append
  one \<open>FinalizeJoint\<close> entry; \<open>apply_weight\<close> counts the unapplied entries, those that can start a
  joint configuration twice, and decreases with every round. This bounds the loop by
  \<open>apply_fuel\<close>. The state machine sees every committed entry once, in log order.
\<close>

section \<open>Log extension\<close>

definition log_extends :: "persistent_state \<Rightarrow> persistent_state \<Rightarrow> bool" where
  "log_extends p p' \<longleftrightarrow> snapshot_index p' = snapshot_index p \<and> snapshot_term p' = snapshot_term p \<and>
     length (ps_log p) \<le> length (ps_log p') \<and>
     take (length (ps_log p)) (ps_log p') = ps_log p \<and> (log_ok p \<longrightarrow> log_ok p')"

lemma log_extends_refl [simp]: "log_extends p p"
  by (simp add: log_extends_def)

lemma log_extends_trans:
  assumes "log_extends p q" "log_extends q r"
  shows "log_extends p r"
proof -
  have le: "length (ps_log p) \<le> length (ps_log q)" using assms(1) by (simp add: log_extends_def)
  have "take (length (ps_log p)) (ps_log r) = take (length (ps_log p)) (take (length (ps_log q)) (ps_log r))"
    by (simp only: take_take min.absorb1 [OF le])
  also have "\<dots> = take (length (ps_log p)) (ps_log q)"
    using assms(2) by (intro arg_cong [of _ _ "take (length (ps_log p))"]) (simp add: log_extends_def)
  finally show ?thesis using assms by (simp add: log_extends_def)
qed

lemma log_extends_append: "log_extends p (fst (log_append p t c))"
  by (simp add: log_extends_def log_ok_append)

lemma log_extends_same_log:
  "snapshot_index p' = snapshot_index p \<Longrightarrow> snapshot_term p' = snapshot_term p \<Longrightarrow>
   ps_log p' = ps_log p \<Longrightarrow> log_extends p p'"
  by (simp add: log_extends_def log_ok_def)

lemma log_extends_nth: "log_extends p p' \<Longrightarrow> i < length (ps_log p) \<Longrightarrow> ps_log p' ! i = ps_log p ! i"
  by (metis log_extends_def nth_take)

section \<open>What a round does to the log and to the state machine\<close>

text \<open>The number of rounds an entry can cost.\<close>

definition entry_weight :: "codec \<Rightarrow> log_entry \<Rightarrow> nat" where
  "entry_weight cd e =
     (case decode_membership_command cd (le_command e) of
        Inr (Some c) \<Rightarrow> if starts_joint c then 2 else 1
      | _ \<Rightarrow> 1)"

definition apply_weight :: "('s, 'm) raft_env \<Rightarrow> ('s, 'm) raft_node \<Rightarrow> nat" where
  "apply_weight env n = sum_list (map (entry_weight (codec_of env))
     (drop (last_applied n + 1 - snapshot_index (ps n)) (ps_log (ps n))))"

text \<open>Operations that leave the log, the machine and the apply position alone.\<close>

definition apply_frame :: "('s, 'm) raft_node \<Rightarrow> ('s, 'm) raft_node \<Rightarrow> bool" where
  "apply_frame n n' \<longleftrightarrow> ps_log (ps n') = ps_log (ps n) \<and>
     snapshot_index (ps n') = snapshot_index (ps n) \<and> snapshot_term (ps n') = snapshot_term (ps n) \<and>
     last_applied n' = last_applied n \<and> machine n' = machine n \<and>
     has_confirmed_apply_tx n' = has_confirmed_apply_tx n \<and> has_apply_tx n' = has_apply_tx n"

lemma apply_frame_refl [simp]: "apply_frame n n"
  by (simp add: apply_frame_def)

lemma apply_frame_trans: "apply_frame a b \<Longrightarrow> apply_frame b c \<Longrightarrow> apply_frame a c"
  by (simp add: apply_frame_def)

lemma frame_persist: "all_opt (apply_frame n) (persist env n)"
  by (auto simp: persist_def apply_frame_def split: option.split sum.split)

lemma frame_recompute: "recompute_effective_membership env n = Inr n' \<Longrightarrow> apply_frame n n'"
  by (subst recompute_ok(1), assumption) (simp add: apply_frame_def)

lemma frame_try_advance: "all_opt (apply_frame n) (try_advance_commit n)"
  by (auto simp: try_advance_commit_def apply_frame_def Let_def split: option.split)

lemma frame_send_heartbeats: "apply_frame n (send_heartbeats n)"
  by (simp add: apply_frame_def send_heartbeats_def)

lemma frame_opt_emit: "apply_frame n (opt_emit x e n)"
  by (simp add: apply_frame_def opt_emit_def emit_def split: option.split)

lemma frame_refuse: "apply_frame n (refuse_waiting c r e n)"
  unfolding refuse_waiting_def by (rule apply_frame_trans; rule frame_opt_emit)

lemma frame_accept: "apply_frame n (accept_waiting c r i n)"
  unfolding accept_waiting_def by (rule apply_frame_trans; rule frame_opt_emit)

lemma frame_retire: "apply_frame n (retire_if_removed n)"
  by (simp add: apply_frame_def retire_if_removed_def)

lemma frame_apply_committed_membership:
  "all_opt (\<lambda>(n', r). apply_frame n n') (apply_committed_membership env e n)"
proof -
  have q: "apply_frame n (n\<lparr>ps := (ps n)\<lparr>membership := m\<rparr>\<rparr>)" for m by (simp add: apply_frame_def)
  have "all_opt (\<lambda>k. apply_frame n (retire_if_removed k)) (persist env m)" if "apply_frame n m" for m
    by (rule all_opt_mono [OF frame_persist])
      (blast intro: apply_frame_trans [OF that] apply_frame_trans frame_retire)
  then show ?thesis
    by (auto simp: apply_committed_membership_def Let_def split: sum.split option.split
        intro: q apply_frame_trans [OF q frame_recompute])
qed

text \<open>\<open>FinalizeJoint\<close> is the only entry a round appends, and only for a joint-starting entry.\<close>

definition finalize_entry :: "codec \<Rightarrow> log_entry \<Rightarrow> bool" where
  "finalize_entry cd e \<longleftrightarrow> le_command e = encode_membership_change cd FinalizeJoint"

definition appends_finalizer ::
  "('s, 'm) raft_env \<Rightarrow> ('s, 'm) raft_node \<Rightarrow> ('s, 'm) raft_node \<Rightarrow> bool" where
  "appends_finalizer env n n' \<longleftrightarrow> log_extends (ps n) (ps n') \<and>
     length (ps_log (ps n')) \<le> Suc (length (ps_log (ps n))) \<and>
     list_all (finalize_entry (codec_of env)) (drop (length (ps_log (ps n))) (ps_log (ps n'))) \<and>
     last_applied n' = last_applied n \<and> machine n' = machine n \<and>
     has_confirmed_apply_tx n' = has_confirmed_apply_tx n \<and> has_apply_tx n' = has_apply_tx n"

lemma frame_appends: "apply_frame n n' \<Longrightarrow> appends_finalizer env n n'"
  by (simp add: apply_frame_def appends_finalizer_def log_extends_same_log)

lemma appends_then_frame:
  "appends_finalizer env n m \<Longrightarrow> apply_frame m m' \<Longrightarrow> appends_finalizer env n m'"
  unfolding appends_finalizer_def
  by (auto simp: apply_frame_def intro: log_extends_trans log_extends_same_log)

lemma frame_then_appends:
  "apply_frame n m \<Longrightarrow> appends_finalizer env m m' \<Longrightarrow> appends_finalizer env n m'"
  unfolding appends_finalizer_def
  by (auto simp: apply_frame_def intro: log_extends_trans log_extends_same_log)

lemma ensure_joint_appends:
  "all_opt (\<lambda>(n', r). appends_finalizer env n n') (ensure_joint_finalize_entry env n)"
proof -
  let ?n = "n\<lparr>ps := fst (log_append (ps n) (current_term (ps n))
      (encode_membership_change (codec_of env) FinalizeJoint))\<rparr>"
  have app: "appends_finalizer env n ?n"
    by (simp add: appends_finalizer_def log_extends_append finalize_entry_def)
  have "all_opt (appends_finalizer env n) (persist env m)" if "apply_frame ?n m" for m
    by (rule all_opt_mono [OF frame_persist])
      (blast intro: appends_then_frame [OF app] apply_frame_trans [OF that])
  then show ?thesis
    using app
    by (auto simp: ensure_joint_finalize_entry_def Let_def split_beta frame_appends split: sum.split
        dest: frame_recompute)
qed

lemma await_finalize_appends: "all_opt (appends_finalizer env n) (await_finalize env c r n)"
proof -
  have adv: "all_opt (\<lambda>k. appends_finalizer env n (send_heartbeats k))
      (try_advance_commit (m\<lparr>pending_clients := x, pending_membership_rpcs := y\<rparr>))"
    if "appends_finalizer env n m" for m x y
  proof (rule all_opt_mono [OF frame_try_advance])
    fix k assume "apply_frame (m\<lparr>pending_clients := x, pending_membership_rpcs := y\<rparr>) k"
    then have "apply_frame m k" by (simp add: apply_frame_def)
    then show "appends_finalizer env n (send_heartbeats k)"
      using that by (blast intro: appends_then_frame frame_send_heartbeats)
  qed
  show ?thesis
    by (auto simp: await_finalize_def adv split: sum.split
        intro!: all_opt_mono [OF ensure_joint_appends]
        intro: appends_then_frame [OF _ frame_refuse])
qed

lemma acknowledge_appends:
  "all_opt (\<lambda>n'. appends_finalizer env n n' \<and> (\<not> joint_started \<longrightarrow> apply_frame n n'))
     (acknowledge env index joint_started n)"
proof -
  let ?n = "n\<lparr>pending_clients := AList.delete index (pending_clients n),
      pending_membership_rpcs := AList.delete index (pending_membership_rpcs n)\<rparr>"
  have n: "apply_frame n ?n" by (simp add: apply_frame_def)
  have "all_opt (appends_finalizer env n) (await_finalize env c r ?n)" for c r
    by (rule all_opt_mono [OF await_finalize_appends]) (rule frame_then_appends [OF n])
  moreover have "apply_frame n (refuse_waiting c r e ?n)" "apply_frame n (accept_waiting c r i ?n)" for c r e i
    by (rule apply_frame_trans [OF n], rule frame_refuse frame_accept)+
  ultimately show ?thesis
    by (simp add: acknowledge_def Let_def frame_appends)
qed

lemma transition_starts_joint:
  assumes "\<not> is_joint base" "transition_membership base c i = Inr m" "is_joint m"
  shows "starts_joint c"
  using assms by (cases c) (auto simp: transition_ok_iffs is_joint_def)

lemma apply_committed_joint:
  "all_opt (\<lambda>(n', r). r = Inr True \<longrightarrow> entry_weight (codec_of env) e = 2)
     (apply_committed_membership env e n)"
proof -
  have w: "entry_weight (codec_of env) e = 2"
    if "decode_membership_command (codec_of env) (le_command e) = Inr (Some c)" "starts_joint c" for c
    using that by (simp add: entry_weight_def)
  have "all_opt (\<lambda>k. True) x" for x :: "'z option" by (cases x) simp_all
  then show ?thesis
    using w transition_starts_joint [of "committed_membership n"]
    by (auto simp: apply_committed_membership_def Let_def split: sum.split option.split
        elim!: all_opt_mono)
qed

text \<open>The hand-over of an entry.\<close>

lemma hand_over_ok:
  assumes "hand_over env e n = (m, None)" "has_confirmed_apply_tx n"
  shows "machine m = fst (sm_confirm env (machine n) e)"
    and "snd (sm_confirm env (machine n) e) = Applied"
  using assms
  by (auto simp: hand_over_def split: prod.splits apply_outcome.splits)

lemma hand_over_frame:
  assumes "hand_over env e n = (m, r)"
  shows "ps m = ps n" "last_applied m = last_applied n"
    "has_confirmed_apply_tx m = has_confirmed_apply_tx n" "pending_clients m = pending_clients n"
    "commit_index m = commit_index n" "role m = role n"
  using assms
  by (auto simp: hand_over_def split: prod.splits apply_outcome.splits if_splits)

text \<open>Entry number \<open>i\<close> of the log, by its Raft index.\<close>

definition entry_no :: "persistent_state \<Rightarrow> nat \<Rightarrow> log_entry" where
  "entry_no p i = ps_log p ! (i - snapshot_index p)"

text \<open>A completed round.\<close>

definition applied_one ::
  "('s, 'm) raft_env \<Rightarrow> ('s, 'm) raft_node \<Rightarrow> ('s, 'm) raft_node \<Rightarrow> bool" where
  "applied_one env n n' \<longleftrightarrow> last_applied n' = last_applied n + 1 \<and>
     last_applied n + 1 - snapshot_index (ps n) < length (ps_log (ps n)) \<and>
     has_confirmed_apply_tx n' = has_confirmed_apply_tx n \<and>
     (has_confirmed_apply_tx n \<longrightarrow>
        (let e = entry_no (ps n) (last_applied n + 1) in
         machine n' = fst (sm_confirm env (machine n) e) \<and>
         snd (sm_confirm env (machine n) e) = Applied)) \<and>
     log_extends (ps n) (ps n') \<and>
     list_all (finalize_entry (codec_of env)) (drop (length (ps_log (ps n))) (ps_log (ps n'))) \<and>
     length (ps_log (ps n')) \<le> length (ps_log (ps n)) +
       (if entry_weight (codec_of env) (entry_no (ps n) (last_applied n + 1)) = 2 then 1 else 0)"

lemma complete_entry_spec:
  assumes n: "apply_frame n m" and i: "i = last_applied n + 1"
    and len: "i - snapshot_index (ps n) < length (ps_log (ps n))"
    and e: "e = entry_no (ps n) i"
    and j: "joint_started \<longrightarrow> entry_weight (codec_of env) e = 2"
  shows "all_opt (\<lambda>(n', go). go \<longrightarrow> applied_one env n n') (complete_entry env i e joint_started m)"
proof (cases "hand_over env e m")
  case (Pair k r)
  show ?thesis
  proof (cases r)
    case None
    have h: "hand_over env e m = (k, None)" using Pair None by simp
    have "applied_one env n n'"
      if "appends_finalizer env (k\<lparr>last_applied := i\<rparr>) n' \<and>
        (\<not> joint_started \<longrightarrow> apply_frame (k\<lparr>last_applied := i\<rparr>) n')" for n'
    proof -
      have log: "snapshot_index (ps k) = snapshot_index (ps n)" "snapshot_term (ps k) = snapshot_term (ps n)"
        "ps_log (ps k) = ps_log (ps n)" "machine m = machine n"
        "has_confirmed_apply_tx k = has_confirmed_apply_tx n"
        using n hand_over_frame [OF h] by (simp_all add: apply_frame_def)
      have ext: "log_extends (ps n) (ps k)" using log by (simp add: log_extends_same_log)
      have mach: "machine k = fst (sm_confirm env (machine n) e) \<and> snd (sm_confirm env (machine n) e) = Applied"
        if "has_confirmed_apply_tx n"
        using hand_over_ok [OF h] that n log(4) by (simp add: apply_frame_def)
      show ?thesis
        using that i len mach log j e log_extends_trans [OF ext]
        by (auto simp: applied_one_def appends_finalizer_def apply_frame_def Let_def)
    qed
    then show ?thesis
      using h by (simp add: complete_entry_def) (rule all_opt_mono [OF acknowledge_appends], simp)
  qed (simp add: complete_entry_def Pair)
qed

text \<open>Reasoning about a round: the membership part, then the hand-over.\<close>

lemma apply_entry_rule:
  assumes missing: "P (fail_all_clients EntryMissing n, False)"
    and frame: "\<And>e. all_opt (\<lambda>(m, r). F e m r) (apply_committed_membership env e n)"
    and plain: "\<And>e. F e n (Inr False)"
    and failed: "\<And>e m x y. F e m (Inl x) \<Longrightarrow> P (fail_all_clients y m, False)"
    and rest: "\<And>m j. last_applied n + 1 - snapshot_index (ps n) < length (ps_log (ps n)) \<Longrightarrow>
      F (entry_no (ps n) (last_applied n + 1)) m (Inr j) \<Longrightarrow>
      all_opt P (complete_entry env (last_applied n + 1) (entry_no (ps n) (last_applied n + 1)) j m)"
  shows "all_opt P (apply_entry env n)"
proof (cases "last_applied n + 1 < snapshot_index (ps n) \<or>
    length (ps_log (ps n)) \<le> last_applied n + 1 - snapshot_index (ps n)")
  case True
  then show ?thesis using missing by (auto simp: apply_entry_def)
next
  case False
  let ?i = "last_applied n + 1" and ?e = "entry_no (ps n) (last_applied n + 1)"
  have split: "apply_entry env n =
      (if starts_with (le_command ?e) MEMBERSHIP_CHANGE_TAG
       then apply_committed_membership env ?e n else Some (n, Inr False)) \<bind> (\<lambda>(m, r). case r of
        Inl e \<Rightarrow> Some (fail_all_clients (MembershipApplyFailed ?i e) m, False)
      | Inr j \<Rightarrow> complete_entry env ?i ?e j m)"
    using False by (simp only: apply_entry_def Let_def entry_no_def if_False)
  show ?thesis
    unfolding split
  proof (rule all_opt_bindI [where P = "\<lambda>(m, r). F ?e m r"])
    show "all_opt (\<lambda>(m, r). F ?e m r) (if starts_with (le_command ?e) MEMBERSHIP_CHANGE_TAG
       then apply_committed_membership env ?e n else Some (n, Inr False))"
      using frame plain by simp
  next
    fix y assume y: "case y of (m, r) \<Rightarrow> F ?e m r"
    obtain m r where "y = (m, r)" by (cases y)
    then show "all_opt P (case y of (m, r) \<Rightarrow> case r of
        Inl e \<Rightarrow> Some (fail_all_clients (MembershipApplyFailed ?i e) m, False)
      | Inr j \<Rightarrow> complete_entry env ?i ?e j m)"
      using y failed rest False by (cases r) (simp_all only: prod.case sum.case all_opt_simps not_le de_Morgan_disj)
  qed
qed

lemma apply_entry_spec:
  "all_opt (\<lambda>(n', go). go \<longrightarrow> applied_one env n n') (apply_entry env n)"
proof (rule apply_entry_rule [where F = "\<lambda>e m r. apply_frame n m \<and>
        (r = Inr True \<longrightarrow> entry_weight (codec_of env) e = 2)"])
  show "all_opt (\<lambda>(m, r). apply_frame n m \<and> (r = Inr True \<longrightarrow> entry_weight (codec_of env) e = 2))
      (apply_committed_membership env e n)" for e
    by (rule all_opt_mono [OF all_opt_conj [OF frame_apply_committed_membership apply_committed_joint]])
      auto
next
  show "all_opt (\<lambda>(n', go). go \<longrightarrow> applied_one env n n')
      (complete_entry env (last_applied n + 1) (entry_no (ps n) (last_applied n + 1)) j m)"
    if "last_applied n + 1 - snapshot_index (ps n) < length (ps_log (ps n))"
      "apply_frame n m \<and> (Inr j = Inr True \<longrightarrow>
         entry_weight (codec_of env) (entry_no (ps n) (last_applied n + 1)) = 2)" for m j
    by (rule complete_entry_spec) (use that in auto)
qed simp_all

section \<open>The bound on the loop\<close>

lemma finalize_weight:
  assumes "codec_ok cd" "finalize_entry cd e"
  shows "entry_weight cd e = 1"
  using assms
  by (simp add: entry_weight_def finalize_entry_def decode_membership_command_def rbind_def
      encode_membership_change_def map_err_def codec_ok_def starts_with_append)

lemma entry_weight_cases: "entry_weight cd e = 1 \<or> entry_weight cd e = 2"
  by (auto simp: entry_weight_def split: sum.split option.split)

lemma sum_weights_one: "list_all (\<lambda>e. f e = (1::nat)) es \<Longrightarrow> sum_list (map f es) = length es"
  by (induction es) auto

lemma apply_weight_decreases:
  assumes "codec_ok (codec_of env)" "snapshot_index (ps n) \<le> last_applied n" "applied_one env n n'"
  shows "apply_weight env n' < apply_weight env n"
proof -
  let ?w = "entry_weight (codec_of env)" and ?log = "ps_log (ps n)" and ?log' = "ps_log (ps n')"
  let ?k = "last_applied n + 1 - snapshot_index (ps n)"
  have k: "?k < length ?log" and la: "last_applied n' + 1 - snapshot_index (ps n') = Suc ?k"
    using assms(2,3) by (auto simp: applied_one_def log_extends_def)
  define new where "new = drop (length ?log) ?log'"
  have log': "?log' = ?log @ new"
    using assms(3) append_take_drop_id [of "length ?log" ?log']
    by (simp add: applied_one_def log_extends_def new_def)
  have "list_all (\<lambda>e. ?w e = 1) new"
    using assms(3) finalize_weight [OF assms(1)]
    by (auto simp: applied_one_def new_def list_all_iff)
  then have new_w: "sum_list (map ?w new) = length new" by (rule sum_weights_one)
  have new_len: "length new < ?w (?log ! ?k)"
    using assms(3) log' entry_weight_cases [of "codec_of env" "?log ! ?k"]
    by (auto simp: applied_one_def entry_no_def split: if_splits)
  have "apply_weight env n = ?w (?log ! ?k) + sum_list (map ?w (drop (Suc ?k) ?log))"
    unfolding apply_weight_def Cons_nth_drop_Suc [OF k, symmetric] by simp
  moreover have "apply_weight env n' = sum_list (map ?w (drop (Suc ?k) ?log)) + length new"
    unfolding apply_weight_def la log' using k new_w by simp
  ultimately show ?thesis using new_len by simp
qed

lemma apply_weight_le_fuel:
  assumes "log_ok (ps n)" "snapshot_index (ps n) \<le> last_applied n"
  shows "apply_weight env n < apply_fuel n"
proof -
  have "sum_list (map (entry_weight cd) es) \<le> 2 * length es" for cd es
  proof (induction es)
    case (Cons e es)
    then show ?case using entry_weight_cases [of cd e] by auto
  qed simp
  from this [of "codec_of env" "drop (last_applied n + 1 - snapshot_index (ps n)) (ps_log (ps n))"]
  show ?thesis
    using assms length_log [OF assms(1)] by (simp add: apply_weight_def apply_fuel_def)
qed

lemma apply_loop_enough_fuel:
  assumes "codec_ok (codec_of env)" "snapshot_index (ps n) \<le> last_applied n"
    "apply_weight env n < fuel"
  shows "apply_loop fuel env n \<noteq> Some (Inl ())"
  using assms(2,3)
proof (induction fuel arbitrary: n)
  case (Suc fuel)
  show ?case
  proof (cases "last_applied n < commit_index n")
    case True
    show ?thesis
    proof (cases "apply_entry env n")
      case (Some r)
      obtain m go where r: "r = (m, go)" by (cases r)
      show ?thesis
      proof (cases go)
        case True
        then have m: "applied_one env n m"
          using all_opt_D [OF apply_entry_spec Some] r by simp
        have "snapshot_index (ps m) \<le> last_applied m"
          using m Suc.prems(1) by (simp add: applied_one_def log_extends_def)
        moreover have "apply_weight env m < fuel"
          using apply_weight_decreases [OF assms(1) Suc.prems(1) m] Suc.prems(2) by simp
        ultimately show ?thesis
          using Suc.IH [of m] True \<open>last_applied n < commit_index n\<close> Some r
          by (simp add: apply_loop.simps [of "Suc fuel"])
      qed (use True Some r in \<open>simp add: apply_loop.simps [of "Suc fuel"]\<close>)
    qed (use True in \<open>simp add: apply_loop.simps [of "Suc fuel"]\<close>)
  qed (simp add: apply_loop.simps [of "Suc fuel"])
qed simp

section \<open>Order of application\<close>

text \<open>The state machine fed with a list of entries, every one of them confirmed.\<close>

fun confirm_all :: "('s, 'm) raft_env \<Rightarrow> 'm \<Rightarrow> log_entry list \<Rightarrow> 'm option" where
  "confirm_all env m [] = Some m"
| "confirm_all env m (e # es) =
     (case sm_confirm env m e of
        (m', Applied) \<Rightarrow> confirm_all env m' es
      | _ \<Rightarrow> None)"

definition entries_between :: "persistent_state \<Rightarrow> nat \<Rightarrow> nat \<Rightarrow> log_entry list" where
  "entries_between p a b = map (entry_no p) [Suc a ..< Suc b]"

lemma apply_loop_in_order:
  assumes "has_confirmed_apply_tx n" "snapshot_index (ps n) \<le> last_applied n"
  shows "all_opt (\<lambda>r. case r of Inl _ \<Rightarrow> True | Inr (n', go) \<Rightarrow> go \<longrightarrow>
      last_applied n \<le> last_applied n' \<and> \<not> last_applied n' < commit_index n' \<and>
      log_extends (ps n) (ps n') \<and>
      confirm_all env (machine n) (entries_between (ps n') (last_applied n) (last_applied n')) =
        Some (machine n'))
    (apply_loop fuel env n)"
  using assms
proof (induction fuel arbitrary: n)
  case 0
  then show ?case by (simp add: apply_loop.simps entries_between_def)
next
  case (Suc fuel)
  have later: "last_applied n \<le> last_applied n' \<and> \<not> last_applied n' < commit_index n' \<and>
      log_extends (ps n) (ps n') \<and>
      confirm_all env (machine n) (entries_between (ps n') (last_applied n) (last_applied n')) =
        Some (machine n')"
    if m: "applied_one env n m" and n': "last_applied m \<le> last_applied n' \<and>
      \<not> last_applied n' < commit_index n' \<and> log_extends (ps m) (ps n') \<and>
      confirm_all env (machine m) (entries_between (ps n') (last_applied m) (last_applied n')) =
        Some (machine n')" for m n'
  proof -
    let ?e = "entry_no (ps n) (Suc (last_applied n))"
    have ext: "log_extends (ps n) (ps n')"
      using m n' by (auto simp: applied_one_def intro: log_extends_trans)
    have e: "entry_no (ps n') (Suc (last_applied n)) = ?e"
      using m log_extends_nth [OF ext] ext by (simp add: entry_no_def applied_one_def log_extends_def)
    have conf: "sm_confirm env (machine n) ?e = (machine m, Applied)"
      using m Suc.prems(1) by (cases "sm_confirm env (machine n) ?e") (simp add: applied_one_def Let_def)
    have la: "last_applied m = Suc (last_applied n)" using m by (simp add: applied_one_def)
    have "entries_between (ps n') (last_applied n) (last_applied n') =
        ?e # entries_between (ps n') (last_applied m) (last_applied n')"
      using n' la e by (simp add: entries_between_def upt_conv_Cons del: upt_Suc)
    then show ?thesis using conf n' la ext by simp
  qed
  have "all_opt (\<lambda>r. case r of Inl _ \<Rightarrow> True | Inr (n', go) \<Rightarrow> go \<longrightarrow>
      last_applied n \<le> last_applied n' \<and> \<not> last_applied n' < commit_index n' \<and>
      log_extends (ps n) (ps n') \<and>
      confirm_all env (machine n) (entries_between (ps n') (last_applied n) (last_applied n')) =
        Some (machine n'))
     (if go then apply_loop fuel env m else Some (Inr (m, False)))"
    if "go \<longrightarrow> applied_one env n m" for m go
  proof (cases go)
    case True
    then have m: "applied_one env n m" using that by simp
    then have "has_confirmed_apply_tx m" "snapshot_index (ps m) \<le> last_applied m"
      using Suc.prems by (simp_all add: applied_one_def log_extends_def)
    from Suc.IH [OF this] show ?thesis
      using True later [OF m] by (auto elim!: all_opt_mono split: sum.splits prod.splits)
  qed simp
  then show ?case
    by (subst apply_loop.simps)
      (auto simp: entries_between_def intro!: all_opt_mono [OF apply_entry_spec])
qed

section \<open>Acknowledgements\<close>

text \<open>Positive answers to clients. Only the acknowledgement of the applied index emits one.\<close>

fun positive_reply :: "effect \<Rightarrow> bool" where
  "positive_reply (ClientReply _ (Inr _)) = True"
| "positive_reply _ = False"

definition no_ack :: "('s, 'm) raft_node \<Rightarrow> ('s, 'm) raft_node \<Rightarrow> bool" where
  "no_ack n n' \<longleftrightarrow> filter positive_reply (out n') = filter positive_reply (out n)"

lemma no_ack_trans: "no_ack a b \<Longrightarrow> no_ack b c \<Longrightarrow> no_ack a c"
  by (simp add: no_ack_def)

lemma no_ack_out: "out n' = out n \<Longrightarrow> no_ack n n'"
  by (simp add: no_ack_def)

lemma no_ack_persist: "all_opt (\<lambda>n'. out n' = out n) (persist env n)"
  by (auto simp: persist_def split: option.split sum.split)

lemma no_ack_recompute: "recompute_effective_membership env n = Inr n' \<Longrightarrow> out n' = out n"
  by (subst recompute_ok(1), assumption) simp

lemma no_ack_try_advance: "all_opt (\<lambda>n'. out n' = out n) (try_advance_commit n)"
  by (auto simp: try_advance_commit_def Let_def split: option.split)

lemma no_ack_send_heartbeats: "no_ack n (send_heartbeats n)"
proof -
  have "filter positive_reply (map (\<lambda>p. Send p (f p)) xs) = []" for f xs by (induction xs) auto
  then show ?thesis by (simp add: no_ack_def send_heartbeats_def)
qed

lemma no_ack_fail_all: "no_ack n (fail_all_clients e n)"
proof -
  have "filter positive_reply (map (\<lambda>(i, c). ClientReply c (Inl e)) xs) = []"
    for xs :: "('x \<times> nat) list" by (induction xs) auto
  then show ?thesis by (simp add: no_ack_def fail_all_clients_def)
qed

lemma no_ack_refuse: "no_ack n (refuse_waiting c r e n)"
  by (auto simp: no_ack_def refuse_waiting_def opt_emit_def split: option.split)

lemma no_ack_apply_committed_membership:
  "all_opt (\<lambda>(n', r). out n' = out n \<and> pending_clients n' = pending_clients n)
     (apply_committed_membership env e n)"
proof -
  have p: "all_opt (\<lambda>k. out (retire_if_removed k) = out m \<and>
      pending_clients (retire_if_removed k) = pending_clients m) (persist env m)" for m
    by (auto simp: persist_def retire_if_removed_def split: option.split sum.split)
  have "out m = out n \<and> pending_clients m = pending_clients n"
    if "recompute_effective_membership env (n\<lparr>ps := p\<rparr>) = Inr m" for m p
    by (subst recompute_ok(1) [OF that], subst (2) recompute_ok(1) [OF that]) simp
  then have "all_opt (\<lambda>k. out (retire_if_removed k) = out n \<and>
      pending_clients (retire_if_removed k) = pending_clients n) (persist env m)"
    if "recompute_effective_membership env (n\<lparr>ps := q\<rparr>) = Inr m" for m q
    using p [of m] that by simp
  then show ?thesis
    by (auto simp: apply_committed_membership_def Let_def split: sum.split option.split)
qed

lemma no_ack_ensure_joint:
  "all_opt (\<lambda>(n', r). out n' = out n) (ensure_joint_finalize_entry env n)"
  by (auto simp: ensure_joint_finalize_entry_def Let_def split_beta split: sum.split
      dest!: no_ack_recompute intro!: all_opt_mono [OF no_ack_persist])

lemma no_ack_await_finalize: "all_opt (no_ack n) (await_finalize env c r n)"
proof -
  have "all_opt (\<lambda>k. no_ack n (send_heartbeats k)) (try_advance_commit (m\<lparr>pending_clients := x,
      pending_membership_rpcs := y\<rparr>))" if "out m = out n" for m x y
    by (rule all_opt_mono [OF no_ack_try_advance])
      (auto simp: that intro: no_ack_trans [OF no_ack_out no_ack_send_heartbeats])
  then show ?thesis
    by (auto simp: await_finalize_def split: sum.split intro!: all_opt_mono [OF no_ack_ensure_joint]
        intro: no_ack_trans [OF no_ack_out no_ack_refuse])
qed

text \<open>The acknowledgements of a round.\<close>

definition acks_of :: "('s, 'm) raft_node \<Rightarrow> nat \<Rightarrow> effect list" where
  "acks_of n i = (case map_of (pending_clients n) i of None \<Rightarrow> [] | Some c \<Rightarrow> [ClientReply c (Inr i)])"

lemma acknowledge_acks:
  "all_opt (\<lambda>n'. filter positive_reply (out n') = filter positive_reply (out n) @
      (if joint_started then [] else acks_of n i)) (acknowledge env i joint_started n)"
proof -
  let ?n = "n\<lparr>pending_clients := AList.delete i (pending_clients n),
      pending_membership_rpcs := AList.delete i (pending_membership_rpcs n)\<rparr>"
  have "all_opt (\<lambda>n'. filter positive_reply (out n') = filter positive_reply (out n)) (await_finalize env c r ?n)" for c r
    by (rule all_opt_mono [OF no_ack_await_finalize]) (simp add: no_ack_def)
  then show ?thesis
    using no_ack_refuse [of ?n]
    by (auto simp: acknowledge_def Let_def no_ack_def acks_of_def accept_waiting_def opt_emit_def
        split: option.split)
qed

lemma complete_entry_acks:
  "all_opt (\<lambda>(n', go). filter positive_reply (out n') = filter positive_reply (out n) @
      (if go \<and> \<not> joint_started then acks_of n i else []))
    (complete_entry env i e joint_started n)"
proof (cases "hand_over env e n")
  case (Pair k r)
  have "out k = out n" using Pair
    by (auto simp: hand_over_def split: prod.splits apply_outcome.splits if_splits)
  then show ?thesis
    using acknowledge_acks [of "k\<lparr>last_applied := i\<rparr>" joint_started i env]
      no_ack_fail_all [of k] hand_over_frame(4) [OF Pair]
    by (auto simp: complete_entry_def Pair no_ack_def acks_of_def split: option.split
        elim!: all_opt_mono)
qed

definition acked :: "('s, 'm) raft_node \<Rightarrow> effect set" where
  "acked n = set (filter positive_reply (out n))"

lemma acked_no_ack: "no_ack n n' \<Longrightarrow> acked n' = acked n"
  by (simp only: acked_def no_ack_def)

lemma acked_out: "out n' = out n \<Longrightarrow> acked n' = acked n"
  by (simp only: acked_def)

lemma complete_entry_acked:
  fixes n :: "('a, 'b) raft_node"
  shows "all_opt (\<lambda>(n', go). acked n' \<subseteq> acked n \<union> (if go then set (acks_of n i) else {}))
    (complete_entry env i e joint_started n)"
proof (rule all_opt_mono [OF complete_entry_acks])
  fix r :: "('a, 'b) raft_node \<times> bool"
  assume *: "case r of (n', go) \<Rightarrow> filter positive_reply (out n') = filter positive_reply (out n) @
      (if go \<and> \<not> joint_started then acks_of n i else [])"
  obtain n' go where r: "r = (n', go)" by (cases r)
  have "acked n' = acked n \<union> set (if go \<and> \<not> joint_started then acks_of n i else [])"
    using * unfolding r acked_def prod.case by (metis set_append)
  then show "case r of (n', go) \<Rightarrow> acked n' \<subseteq> acked n \<union> (if go then set (acks_of n i) else {})"
    by (auto simp: r split: if_splits)
qed

lemma apply_entry_acked:
  fixes n :: "('a, 'b) raft_node"
  shows "all_opt (\<lambda>(n', go). acked n' \<subseteq> acked n \<union>
      (if go then set (acks_of n (last_applied n + 1)) else {})) (apply_entry env n)"
proof -
  let ?P = "\<lambda>(n', go). acked n' \<subseteq> acked n \<union> (if go then set (acks_of n (last_applied n + 1)) else {})"
  have c: "all_opt ?P (complete_entry env (last_applied n + 1) e j m)"
    if "out m = out n" "pending_clients m = pending_clients n" for e j and m :: "('a, 'b) raft_node"
  proof -
    have "acks_of m i = acks_of n i" for i using that(2) by (simp add: acks_of_def)
    then show ?thesis
      using complete_entry_acked [of m "last_applied n + 1" env e j]
      by (simp only: acked_out [OF that(1)])
  qed
  have f: "acked (fail_all_clients e m) = acked n" if "out m = out n" for e and m :: "('a, 'b) raft_node"
    by (rule trans [OF acked_no_ack [OF no_ack_fail_all] acked_out [OF that]])
  show ?thesis
  proof (rule apply_entry_rule [where F = "\<lambda>e m r. out m = out n \<and> pending_clients m = pending_clients n"])
    show "all_opt ?P (complete_entry env (last_applied n + 1) (entry_no (ps n) (last_applied n + 1)) j m)"
      if "out m = out n \<and> pending_clients m = pending_clients n" for m j
      using c that by blast
  qed (simp_all add: no_ack_apply_committed_membership f)
qed

lemma apply_entry_position:
  "all_opt (\<lambda>(n', go). last_applied n' = (if go then last_applied n + 1 else last_applied n)) (apply_entry env n)"
proof -
  have ack: "all_opt (\<lambda>n'. last_applied n' = l) (acknowledge env i j (m\<lparr>last_applied := l\<rparr>))" for i j m l
    by (rule all_opt_mono [OF acknowledge_appends]) (simp add: appends_finalizer_def)
  have c: "all_opt (\<lambda>(n', go). last_applied n' = (if go then last_applied n + 1 else last_applied n))
      (complete_entry env (last_applied n + 1) e j m)" if "last_applied m = last_applied n" for e j m
  proof (cases "hand_over env e m")
    case (Pair k r)
    then show ?thesis
      using ack [where i = "last_applied n + 1" and j = j and m = k and l = "last_applied n + 1"]
        that hand_over_frame(2) [OF Pair]
      by (auto simp: complete_entry_def fail_all_clients_def split: option.split)
  qed
  have frame: "all_opt (\<lambda>(m, r). last_applied m = last_applied n) (apply_committed_membership env e n)" for e
    by (rule all_opt_mono [OF frame_apply_committed_membership]) (auto simp: apply_frame_def)
  show ?thesis
    by (rule apply_entry_rule [where F = "\<lambda>e m r. last_applied m = last_applied n", OF _ frame _ _ c])
      (simp_all add: fail_all_clients_def)
qed

definition acks_within :: "nat \<Rightarrow> nat \<Rightarrow> effect set \<Rightarrow> bool" where
  "acks_within a b A \<longleftrightarrow> (\<forall>x \<in> A. \<exists>c i. x = ClientReply c (Inr i) \<and> a < i \<and> i \<le> b)"

lemma acks_within_weaken:
  "acks_within a' b A \<Longrightarrow> a \<le> a' \<Longrightarrow> B \<subseteq> A \<Longrightarrow> acks_within a b B"
  unfolding acks_within_def by (meson le_less_trans subsetD)

lemma acks_within_Un: "acks_within a b A \<Longrightarrow> acks_within a b B \<Longrightarrow> acks_within a b (A \<union> B)"
  by (auto simp: acks_within_def)

lemma acks_within_acks_of: "a < b \<Longrightarrow> acks_within a b (set (acks_of n (a + 1)))"
  by (auto simp: acks_within_def acks_of_def split: option.split)

lemma apply_loop_acked:
  fixes n :: "('a, 'b) raft_node"
  shows "all_opt (\<lambda>r. case r of Inl _ \<Rightarrow> True | Inr (n', go) \<Rightarrow> last_applied n \<le> last_applied n' \<and>
      acks_within (last_applied n) (last_applied n') (acked n' - acked n))
    (apply_loop fuel env n)"
proof (induction fuel arbitrary: n)
  case 0
  then show ?case by (simp add: apply_loop.simps acks_within_def)
next
  case (Suc fuel)
  have "all_opt (\<lambda>(m, go). all_opt (\<lambda>r. case r of Inl _ \<Rightarrow> True | Inr (n', go) \<Rightarrow>
        last_applied n \<le> last_applied n' \<and> acks_within (last_applied n) (last_applied n') (acked n' - acked n))
      (if go then apply_loop fuel env m else Some (Inr (m, False)))) (apply_entry env n)"
  proof (rule all_opt_mono [OF all_opt_conj [OF apply_entry_acked apply_entry_position]], clarify)
    fix m :: "('a, 'b) raft_node" and go
    assume m: "acked m \<subseteq> acked n \<union> (if go then set (acks_of n (last_applied n + 1)) else {})"
      and la: "last_applied m = (if go then last_applied n + 1 else last_applied n)"
    have trans: "acks_within (last_applied n) (last_applied n') (acked n' - acked n)"
      if "go" "last_applied m \<le> last_applied n'"
        "acks_within (last_applied m) (last_applied n') (acked n' - acked m)"
      for n' :: "('a, 'b) raft_node"
    proof -
      have "acked n' - acked n \<subseteq> (acked n' - acked m) \<union> set (acks_of n (last_applied n + 1))"
        using m that(1) by auto
      moreover have "acks_within (last_applied n) (last_applied n')
          ((acked n' - acked m) \<union> set (acks_of n (last_applied n + 1)))"
        using that la
        by (intro acks_within_Un acks_within_acks_of)
          (auto intro: acks_within_weaken [where a' = "last_applied m"])
      ultimately show ?thesis by (blast intro: acks_within_weaken)
    qed
    show "all_opt (\<lambda>r. case r of Inl _ \<Rightarrow> True | Inr (n', go) \<Rightarrow>
        last_applied n \<le> last_applied n' \<and> acks_within (last_applied n) (last_applied n') (acked n' - acked n))
      (if go then apply_loop fuel env m else Some (Inr (m, False)))"
    proof (cases go)
      case True
      then show ?thesis
        using la trans [OF True] by (auto intro!: all_opt_mono [OF Suc.IH] split: sum.splits)
    next
      case False
      then show ?thesis using m la by (auto simp: acks_within_def)
    qed
  qed
  then show ?case by (subst apply_loop.simps) (simp add: acks_within_def case_prod_beta')
qed

section \<open>Properties\<close>

text \<open>C31. The apply loop terminates within its fuel: over a log with the layout, with the apply
  position at or above the snapshot boundary, \<open>apply_fuel\<close> rounds are enough whatever the
  state machine, the store and the entries do, although rounds can append entries.\<close>

theorem apply_loop_terminates:
  assumes "codec_ok (codec_of env)" "log_ok (ps n)" "snapshot_index (ps n) \<le> last_applied n"
  shows "apply_loop (apply_fuel n) env n \<noteq> Some (Inl ())"
  using apply_loop_enough_fuel [OF assms(1,3)] apply_weight_le_fuel [OF assms(2,3)] by blast

text \<open>C9. Committed entries reach the state machine in log order, each exactly once: when the
  loop ends with the node running, the machine is the old one fed with exactly the entries
  above the old apply position up to the new one, every one confirmed, and everything
  committed has been applied. Positive answers to clients are for those positions only.\<close>

theorem apply_in_order:
  assumes "has_confirmed_apply_tx n" "snapshot_index (ps n) \<le> last_applied n"
    and "apply_loop fuel env n = Some (Inr (n', True))"
  shows "confirm_all env (machine n) (entries_between (ps n') (last_applied n) (last_applied n')) =
      Some (machine n') \<and>
    last_applied n \<le> last_applied n' \<and> commit_index n' \<le> last_applied n' \<and>
    log_extends (ps n) (ps n') \<and>
    acks_within (last_applied n) (last_applied n') (acked n' - acked n)"
  using all_opt_D [OF apply_loop_in_order [OF assms(1,2)] assms(3)]
    all_opt_D [OF apply_loop_acked assms(3)] by simp

text \<open>A node with two committed and unapplied entries and a client that waits for the second.\<close>

definition sample_apply_node :: "(mem_store, log_entry list) raft_node" where
  "sample_apply_node = (let n = raft_new ''n1'' [] []; p = ps n in
     n\<lparr>persistence := Some mem_new, has_confirmed_apply_tx := True,
       ps := fst (log_append (fst (log_append p 1 [1])) 1 [2]),
       commit_index := 2, pending_clients := [(2, 9)]\<rparr>)"

lemma sample_apply_log: "log_ok (ps sample_apply_node)"
proof -
  have "log_ok (ps_new\<lparr>membership := m\<rparr>)" for m by (simp add: log_ok_def ps_new_def)
  then show ?thesis
    by (simp add: sample_apply_node_def Let_def raft_new_def from_bootstrap_def log_ok_append)
qed

theorem apply_loop_terminates_witness:
  "apply_loop (apply_fuel sample_apply_node) mem_env sample_apply_node \<noteq> Some (Inl ())"
proof -
  have "codec_ok (codec_of mem_env)" by (simp add: mem_env_def sample_codec_ok)
  moreover have "snapshot_index (ps sample_apply_node) \<le> last_applied sample_apply_node"
    by (simp add: sample_apply_node_def Let_def raft_new_def from_bootstrap_def ps_new_def)
  ultimately show ?thesis using apply_loop_terminates sample_apply_log by blast
qed

theorem apply_in_order_witness:
  "case apply_loop 3 mem_env sample_apply_node of
     Some (Inr (n', True)) \<Rightarrow> machine n' = entries_between (ps n') 0 2 \<and> last_applied n' = 2
   | _ \<Rightarrow> False"
proof -
  have "case apply_loop 3 mem_env sample_apply_node of
     Some (Inr (n', True)) \<Rightarrow> last_applied n' = 2 | _ \<Rightarrow> False" by code_simp
  then obtain n' where n': "apply_loop 3 mem_env sample_apply_node = Some (Inr (n', True))"
    "last_applied n' = 2" by (auto split: option.splits sum.splits bool.splits)
  have c: "confirm_all mem_env m es = Some (m @ es)" for m es
    by (induction es arbitrary: m) (simp_all add: mem_env_def)
  have "has_confirmed_apply_tx sample_apply_node" "snapshot_index (ps sample_apply_node) \<le> last_applied sample_apply_node"
    "last_applied sample_apply_node = 0" "machine sample_apply_node = []"
    by (simp_all add: sample_apply_node_def Let_def raft_new_def from_bootstrap_def ps_new_def)
  then show ?thesis
    using apply_in_order [OF _ _ n'(1)] n' by (simp add: c)
qed

end
