(* ===== verification/Raft_Commit.thy ===== *)
theory Raft_Commit
  imports Raft_Apply
begin

text \<open>
  Commitment, commands, compaction, snapshot installation and leadership transfer: what each
  of these handlers of \<open>consensus/raft.rs\<close> guarantees on every branch, and the cases in which
  replication falls short of what its comments promise.
\<close>

section \<open>Advancing the commit index\<close>

lemma find_rev_upt:
  assumes "find P (filter Q (rev [a..<b])) = Some x"
  shows "P x \<and> Q x \<and> a \<le> x \<and> x < b \<and> (\<forall>y. x < y \<longrightarrow> y < b \<longrightarrow> \<not> (P y \<and> Q y))"
  using assms
proof (induction b)
  case (Suc b)
  then show ?case
    by (cases "a \<le> b"; cases "Q b"; cases "P b") (auto simp: less_Suc_eq split: if_splits)
qed simp

lemma find_rev_upt_None:
  assumes "find P (filter Q (rev [a..<b])) = None" "a \<le> y" "y < b"
  shows "\<not> (P y \<and> Q y)"
  using assms by (auto simp: find_None_iff)

lemma advance_commit_spec:
  assumes "try_advance_commit n = Some n'" "role n = Leader" "leader n = Some l"
  defines "committable \<equiv> \<lambda>idx. term_at (ps n) idx = current_term (ps n) \<and>
    has_match_quorum (effective_membership n) (node_id n) (match_index l) idx"
  shows "n' = n\<lparr>commit_index := commit_index n'\<rparr>"
    and "commit_index n' \<noteq> commit_index n \<Longrightarrow> commit_index n < commit_index n' \<and>
      commit_index n' \<le> last_log_index (ps n) \<and> committable (commit_index n')"
    and "commit_index n' < idx \<Longrightarrow> idx \<le> last_log_index (ps n) \<Longrightarrow> \<not> committable idx"
proof -
  let ?Q = "\<lambda>idx. term_at (ps n) idx = current_term (ps n)"
  let ?P = "\<lambda>idx. has_match_quorum (effective_membership n) (node_id n) (match_index l) idx"
  define f where "f = find ?P (filter ?Q (rev [commit_index n + 1 ..< last_log_index (ps n) + 1]))"
  have eq: "Some n' = (case f of None \<Rightarrow> Some n | Some idx \<Rightarrow> Some (n\<lparr>commit_index := idx\<rparr>))"
    using assms(1-3)
    by (simp only: try_advance_commit_def Let_def option.case simp_thms if_False f_def)
  note found = find_rev_upt [OF f_def [symmetric, THEN trans]]
    and none = find_rev_upt_None [OF f_def [symmetric, THEN trans]]
  show "n' = n\<lparr>commit_index := commit_index n'\<rparr>"
    using eq by (cases f) simp_all
  show "commit_index n < commit_index n' \<and> commit_index n' \<le> last_log_index (ps n) \<and>
      committable (commit_index n')" if "commit_index n' \<noteq> commit_index n"
  proof (cases f)
    case (Some idx)
    then show ?thesis using eq found [OF Some] by (simp add: committable_def)
  qed (use eq that in simp)
  show "\<not> committable idx" if "commit_index n' < idx" "idx \<le> last_log_index (ps n)"
  proof (cases f)
    case None
    then show ?thesis
      using eq that none [OF None, of idx] by (auto simp: committable_def)
  next
    case (Some i)
    then show ?thesis
      using eq that found [OF Some] by (auto simp: committable_def)
  qed
qed

text \<open>C10. A leader commits by counting replicas of entries of its own term only, with the
  quorum rule of its effective configuration: the commit index moves forward to the highest
  index that holds an entry of the current term and that a quorum has acknowledged, and it
  stays where it is when there is none.\<close>

theorem leader_commit_rule:
  assumes "try_advance_commit n = Some n'" "role n = Leader" "leader n = Some l"
  shows "(commit_index n' = commit_index n \<or> commit_index n < commit_index n' \<and>
      commit_index n' \<le> last_log_index (ps n) \<and>
      term_at (ps n) (commit_index n') = current_term (ps n) \<and>
      has_match_quorum (effective_membership n) (node_id n) (match_index l) (commit_index n')) \<and>
    (\<forall>idx. commit_index n' < idx \<longrightarrow> idx \<le> last_log_index (ps n) \<longrightarrow>
      \<not> (term_at (ps n) idx = current_term (ps n) \<and>
         has_match_quorum (effective_membership n) (node_id n) (match_index l) idx))"
  using advance_commit_spec(2,3) [OF assms] by blast

definition sample_leader :: "(mem_store, log_entry list) raft_node" where
  "sample_leader = (let n = raft_new ''n1'' [''n2'', ''n3''] []; p = ps n in
     n\<lparr>persistence := Some mem_new, role := Leader, leader_id := Some ''n1'',
       ps := fst (log_append (fst (log_append (p\<lparr>current_term := 2\<rparr>) 1 [1])) 2 [2]),
       leader := Some \<lparr>next_index = [''n2'' \<mapsto> 3, ''n3'' \<mapsto> 1],
         match_index = [''n2'' \<mapsto> 2, ''n3'' \<mapsto> 0]\<rparr>\<rparr>)"

theorem leader_commit_rule_witness:
  "case try_advance_commit sample_leader of
     None \<Rightarrow> False
   | Some n' \<Rightarrow> term_at (ps sample_leader) (commit_index n') = 2"
proof -
  have "case try_advance_commit sample_leader of None \<Rightarrow> False | Some n' \<Rightarrow> commit_index n' = 2"
    by code_simp
  then obtain n' where n': "try_advance_commit sample_leader = Some n'" "commit_index n' = 2"
    by (auto split: option.splits)
  have "role sample_leader = Leader" "leader sample_leader = Some \<lparr>next_index = [''n2'' \<mapsto> 3, ''n3'' \<mapsto> 1],
      match_index = [''n2'' \<mapsto> 2, ''n3'' \<mapsto> 0]\<rparr>" "commit_index sample_leader = 0"
    "current_term (ps sample_leader) = 2"
    by (simp_all add: sample_leader_def Let_def raft_new_def from_bootstrap_def)
  with leader_commit_rule [OF n'(1)] n' show ?thesis by auto
qed

section \<open>Effective membership\<close>

text \<open>The effective configuration is what replaying the log over the committed one gives.\<close>

definition config_ok :: "('s, 'm) raft_env \<Rightarrow> ('s, 'm) raft_node \<Rightarrow> bool" where
  "config_ok env n \<longleftrightarrow> log_ok (ps n) \<and> last_log_index (ps n) < u64_max \<and>
     config_index (committed_membership n) \<le> last_log_index (ps n) \<and>
     replay_membership (codec_of env) (config_index (committed_membership n)) (ps_log (ps n))
       (committed_membership n) = Inr (effective_membership n) \<and>
     validate (effective_membership n) = Inr ()"

lemma replay_append:
  "replay_membership cd c (es @ fs) m =
     rbind (replay_membership cd c es m) (\<lambda>m'. replay_membership cd c fs m')"
proof (induction es arbitrary: m)
  case (Cons e es)
  show ?case
    by (cases "le_index e \<le> c"; cases "decode_membership_command cd (le_command e)")
      (auto simp: Cons.IH rbind_def split: option.split sum.split)
qed (simp add: rbind_def)

lemma replay_plain:
  assumes "\<And>e. e \<in> set es \<Longrightarrow> c < le_index e \<Longrightarrow> \<not> starts_with (le_command e) MEMBERSHIP_CHANGE_TAG"
  shows "replay_membership cd c es m = Inr m"
  using assms
  by (induction es arbitrary: m) (auto simp: decode_membership_command_def rbind_def not_le)

lemma recompute_Inr:
  assumes "replay_membership (codec_of env) (config_index (committed_membership n)) (ps_log (ps n))
      (committed_membership n) = Inr m" "validate m = Inr ()"
  shows "recompute_effective_membership env n = Inr (sync_leader_tracking (n\<lparr>effective_membership := m\<rparr>))"
  using assms by (simp add: recompute_effective_membership_def Let_def rbind_def map_err_def)

lemma validated_request:
  assumes "validate_membership_request n change = Inr ()" "last_log_index (ps n) < u64_max"
  shows "is_ok (transition_membership (effective_membership n) change (Suc (last_log_index (ps n))))"
proof -
  have s: "sat_add (last_log_index (ps n)) (Suc 0) = Suc (last_log_index (ps n))"
    using assms(2) by (simp add: sat_add_eq)
  show ?thesis
    using assms(1)
    by (cases change)
      (auto simp: validate_membership_request_def Let_def s result_simps is_ok_def split: if_splits sum.splits)
qed

lemma committed_append [simp]:
  "committed_membership (n\<lparr>ps := fst (log_append (ps n) t c)\<rparr>) = committed_membership n"
  by (simp add: committed_membership_def)

lemma committed_field [simp]:
  "committed_membership (n\<lparr>effective_membership := m\<rparr>) = committed_membership n"
  "committed_membership (sync_leader_tracking n) = committed_membership n"
  by (simp_all add: committed_membership_def)

text \<open>Appending a command whose membership part has been validated recomputes the effective
  configuration without failing.\<close>

lemma append_recompute:
  assumes ok: "config_ok env n"
    and c: "decode_membership_command (codec_of env) payload = Inr c"
    and v: "case c of None \<Rightarrow> True | Some change \<Rightarrow> validate_membership_request n change = Inr ()"
  shows "is_ok (recompute_effective_membership env (n\<lparr>ps := fst (log_append (ps n) t payload)\<rparr>))"
proof -
  let ?n = "n\<lparr>ps := fst (log_append (ps n) t payload)\<rparr>" and ?b = "committed_membership n"
  let ?i = "snapshot_index (ps n) + length (ps_log (ps n))"
  have i: "?i = Suc (last_log_index (ps n))"
    using ok log_append_index [of "ps n" 0 "[]"] by (auto simp: config_ok_def log_ok_def)
  have step: "replay_membership (codec_of env) (config_index ?b) (ps_log (ps ?n)) ?b =
      (case c of None \<Rightarrow> Inr (effective_membership n)
       | Some change \<Rightarrow> map_err RaftMembership (transition_membership (effective_membership n) change ?i))"
    using ok c i
    by (auto simp: config_ok_def replay_append rbind_def map_err_def split: option.split sum.split)
  show ?thesis
  proof (cases c)
    case None
    then show ?thesis
      using step ok recompute_Inr [of env ?n "effective_membership n"] by (simp add: config_ok_def is_ok_def)
  next
    case (Some change)
    then obtain m where m: "transition_membership (effective_membership n) change ?i = Inr m"
      using validated_request [of n change] v ok i by (auto simp: config_ok_def is_ok_def split: sum.splits)
    then show ?thesis
      using step Some recompute_Inr [of env ?n m] transition_shape [OF m]
      by (simp add: is_ok_def map_err_def)
  qed
qed

section \<open>Commands\<close>

text \<open>The store holds the persistent state and the snapshot bytes of the node.\<close>

definition saved :: "('s, 'm) raft_env \<Rightarrow> ('s, 'm) raft_node \<Rightarrow> bool" where
  "saved env n \<longleftrightarrow> (case persistence n of None \<Rightarrow> True
     | Some s \<Rightarrow> store_load env s = Inr (Some (ps n, snapshot_data n)))"

context durable_raft begin

lemma persist_saved: "all_opt (\<lambda>n'. same_but_store n n' \<and> saved env n') (persist env n)"
  using load_save
  by (auto simp: persist_def saved_def same_but_store_def split: option.split sum.split)

lemma append_command_spec:
  assumes "config_ok env n" "decode_membership_command (codec_of env) payload = Inr c"
    "case c of None \<Rightarrow> True | Some change \<Rightarrow> validate_membership_request n change = Inr ()"
  shows "all_opt (\<lambda>(n', r). r = Inr (Suc (last_log_index (ps n))) \<and>
      ps n' = fst (log_append (ps n) (current_term (ps n)) payload) \<and>
      commit_index n' = commit_index n \<and> saved env n')
    (append_command env payload n)"
proof -
  let ?n = "n\<lparr>ps := fst (log_append (ps n) (current_term (ps n)) payload)\<rparr>"
  obtain m where m: "recompute_effective_membership env ?n = Inr m"
    using append_recompute [OF assms, of "current_term (ps n)"] unfolding is_ok_iff by blast
  have f: "ps m = ps ?n" "commit_index m = commit_index n"
    by (subst recompute_ok(1) [OF m], simp)+
  have i: "snd (log_append (ps n) (current_term (ps n)) payload) = Suc (last_log_index (ps n))"
    using assms(1) by (intro log_append_index) (simp add: config_ok_def log_ok_def)
  show ?thesis
    using m i f
    by (simp add: append_command_def Let_def split_beta)
      (rule all_opt_mono [OF persist_saved], simp add: same_but_store_def)
qed

end

text \<open>Compaction.\<close>

lemma no_transition_plain:
  assumes "\<not> membership_transition_active n" "e \<in> set (ps_log (ps n))"
    "config_index (committed_membership n) < le_index e"
  shows "\<not> starts_with (le_command e) MEMBERSHIP_CHANGE_TAG"
  using assms by (auto simp: membership_transition_active_def Let_def list_ex_iff)

lemma no_transition_effective:
  assumes "config_ok env n" "\<not> membership_transition_active n"
  shows "effective_membership n = committed_membership n"
proof -
  have "replay_membership (codec_of env) (config_index (committed_membership n)) (ps_log (ps n))
      (committed_membership n) = Inr (committed_membership n)"
    using no_transition_plain [OF assms(2)] by (intro replay_plain)
  then show ?thesis using assms(1) by (simp add: config_ok_def)
qed

lemma install_log_set:
  "set (ps_log (install_snapshot p i t)) \<subseteq>
     insert \<lparr>le_term = t, le_index = i, le_command = []\<rparr> (set (ps_log p))"
  by (auto simp: install_snapshot_def Let_def dest: in_set_dropD)

lemma publish_recompute:
  assumes "config_ok env n" "\<not> membership_transition_active n"
  shows "is_ok (recompute_effective_membership env
    (n\<lparr>ps := install_snapshot (ps n) i t, snapshot_data := d\<rparr>))"
proof -
  let ?n = "n\<lparr>ps := install_snapshot (ps n) i t, snapshot_data := d\<rparr>" and ?b = "committed_membership n"
  have b: "committed_membership ?n = ?b" by (simp add: committed_membership_def)
  have "replay_membership (codec_of env) (config_index ?b) (ps_log (ps ?n)) ?b = Inr ?b"
  proof (rule replay_plain)
    fix e assume e: "e \<in> set (ps_log (ps ?n))" "config_index ?b < le_index e"
    have "le_command e = [] \<or> e \<in> set (ps_log (ps n))" using e(1) install_log_set by fastforce
    then show "\<not> starts_with (le_command e) MEMBERSHIP_CHANGE_TAG"
      using no_transition_plain [OF assms(2) _ e(2)]
      by (auto simp: starts_with_def MEMBERSHIP_CHANGE_TAG_def)
  qed
  moreover have "validate ?b = Inr ()"
    using assms(1) no_transition_effective [OF assms] by (simp add: config_ok_def)
  ultimately show ?thesis using recompute_Inr [of env ?n ?b] b by (simp add: is_ok_def)
qed

context durable_raft begin

lemma publish_snapshot_spec:
  assumes "config_ok env n" "\<not> membership_transition_active n"
  shows "all_opt (\<lambda>(n', r). r = Inr i \<and> ps n' = install_snapshot (ps n) i t \<and>
      snapshot_data n' = d \<and> commit_index n' = commit_index n \<and> last_applied n' = last_applied n \<and>
      machine n' = machine n \<and> saved env n')
    (publish_snapshot env i t d n)"
proof -
  let ?n = "n\<lparr>ps := install_snapshot (ps n) i t, snapshot_data := d\<rparr>"
  obtain m where m: "recompute_effective_membership env ?n = Inr m"
    using publish_recompute [OF assms] unfolding is_ok_iff by blast
  have f: "ps m = ps ?n" "commit_index m = commit_index n" "last_applied m = last_applied n"
    "snapshot_data m = d" "machine m = machine n"
    by (subst recompute_ok(1) [OF m], simp)+
  show ?thesis
    using m f by (simp add: publish_snapshot_def Let_def)
      (rule all_opt_mono [OF persist_saved], simp add: same_but_store_def)
qed

end

text \<open>What a successful command does: one more entry, or a new snapshot boundary.\<close>

definition appended ::
  "('s, 'm) raft_env \<Rightarrow> ('s, 'm) raft_node \<Rightarrow> bytes \<Rightarrow> ('s, 'm) raft_node \<Rightarrow> nat \<Rightarrow> bool" where
  "appended env n payload n' i \<longleftrightarrow> i = Suc (last_log_index (ps n)) \<and>
     ps n' = fst (log_append (ps n) (current_term (ps n)) payload) \<and>
     commit_index n' = commit_index n \<and> saved env n'"

definition compacted ::
  "('s, 'm) raft_env \<Rightarrow> ('s, 'm) raft_node \<Rightarrow> ('s, 'm) raft_node \<Rightarrow> nat \<Rightarrow> bool" where
  "compacted env n n' i \<longleftrightarrow> n' = n \<and> (i = snapshot_index (ps n) \<or> i = 0) \<or>
     snapshot_index (ps n) < i \<and> i \<le> commit_index n \<and> (has_snapshot_store n \<longrightarrow> i \<le> last_applied n) \<and>
     config_index (committed_membership n) \<le> i \<and>
     ps n' = install_snapshot (ps n) i (term_at (ps n) i) \<and> commit_index n' = commit_index n \<and>
     last_applied n' = last_applied n \<and> machine n' = machine n \<and> saved env n'"

lemma config_ok_persistence [simp]:
  "config_ok env (n\<lparr>persistence := x\<rparr>) = config_ok env n"
  "membership_transition_active (n\<lparr>persistence := x\<rparr>) = membership_transition_active n"
  by (simp_all add: config_ok_def membership_transition_active_def committed_membership_def)

context durable_raft begin

lemma compact_with_store_spec:
  assumes "config_ok env n" "\<not> membership_transition_active n" "membership (ps n) = Some m"
    "has_snapshot_store n"
  shows "all_opt (\<lambda>(n', r). case r of Inl e \<Rightarrow> n' = n | Inr i \<Rightarrow> compacted env n n' i)
    (compact_with_store env li m n)"
proof -
  have c: "committed_membership n = m" using assms(3) by (simp add: committed_membership_def)
  have "all_opt (\<lambda>(n', r). case r of Inl e \<Rightarrow> n' = n | Inr i \<Rightarrow> compacted env n n' i)
      (publish_snapshot env i (term_at (ps n) i) d (n\<lparr>persistence := Some s\<rparr>))"
    if "snapshot_index (ps n) < i" "i \<le> commit_index n" "i \<le> last_applied n" "config_index m \<le> i" for i d s
    using that c assms(1,2)
    by (intro all_opt_mono [OF publish_snapshot_spec]) (auto simp: compacted_def)
  then show ?thesis
    using c by (auto simp: compact_with_store_def Let_def compacted_def not_le not_less split: sum.split)
qed

lemma compact_without_store_spec:
  assumes "config_ok env n" "\<not> membership_transition_active n" "membership (ps n) = Some m"
    "\<not> has_snapshot_store n"
  shows "all_opt (\<lambda>(n', r). case r of Inl e \<Rightarrow> n' = n | Inr i \<Rightarrow> compacted env n n' i)
    (compact_without_store env li raw m n)"
proof -
  have c: "committed_membership n = m" using assms(3) by (simp add: committed_membership_def)
  have "all_opt (\<lambda>(n', r). case r of Inl e \<Rightarrow> n' = n | Inr i \<Rightarrow> compacted env n n' i)
      (publish_snapshot env i (term_at (ps n) i) d n)"
    if "snapshot_index (ps n) < i" "i \<le> commit_index n" "config_index m \<le> i" for i d
    using that c assms
    by (intro all_opt_mono [OF publish_snapshot_spec]) (auto simp: compacted_def)
  then show ?thesis
    using c by (auto simp: compact_without_store_def Let_def compacted_def not_le not_less split: sum.split)
qed

lemma handle_compact_spec:
  assumes "config_ok env n"
  shows "all_opt (\<lambda>(n', r). case r of Inl e \<Rightarrow> n' = n | Inr i \<Rightarrow> compacted env n n' i)
      (handle_compact_log_cmd env p n)"
  using assms compact_with_store_spec compact_without_store_spec
  by (auto simp: handle_compact_log_cmd_def Let_def split: option.split)

lemma handle_client_command_spec:
  assumes "config_ok env n"
  shows "all_opt (\<lambda>(n', r). case r of Inl e \<Rightarrow> n' = n
      | Inr i \<Rightarrow> (case strip_guard env n payload of Inl _ \<Rightarrow> False | Inr p \<Rightarrow>
          if starts_with p COMPACT_LOG_TAG then compacted env n n' i else appended env n p n' i))
    (handle_client_command env payload n)"
proof -
  have append: "all_opt (\<lambda>(n', r). case r of Inl e \<Rightarrow> n' = n | Inr i \<Rightarrow> appended env n p n' i)
      (append_command env p n)"
    if ok: "rbind (decode_membership_command (codec_of env) p) (\<lambda>c. case c of None \<Rightarrow> Inr ()
       | Some change \<Rightarrow> validate_membership_request n change) = Inr ()" for p
  proof -
    obtain c where d: "decode_membership_command (codec_of env) p = Inr c"
      and v: "(case c of None \<Rightarrow> Inr () | Some change \<Rightarrow> validate_membership_request n change) = Inr ()"
      using ok by (cases "decode_membership_command (codec_of env) p") (auto simp: rbind_def)
    from v have c: "case c of None \<Rightarrow> True | Some change \<Rightarrow> validate_membership_request n change = Inr ()"
      by (cases c) simp_all
    show ?thesis
      by (rule all_opt_mono [OF append_command_spec [OF assms d c]]) (auto simp: appended_def)
  qed
  show ?thesis
  proof (cases "strip_guard env n payload")
    case (Inr p)
    then show ?thesis
      using handle_compact_spec [OF assms, of p] append [of p]
      by (auto simp: handle_client_command_def split: sum.split)
  qed (simp add: handle_client_command_def)
qed

end

text \<open>A client or admin command takes effect completely or not at all: on every error the
  node is exactly as before. On success it is either one new entry in the current term at
  the next index, or a snapshot boundary that covers committed and (with a state machine
  attached) applied entries only, and in both cases the store holds the new state before the
  command is answered.\<close>

theorem client_command_atomic:
  assumes "durable_raft env" "config_ok env n" "handle_client_command env payload n = Some (n', r)"
  shows "case r of Inl e \<Rightarrow> n' = n
    | Inr i \<Rightarrow> (case strip_guard env n payload of Inl _ \<Rightarrow> False | Inr p \<Rightarrow>
        if starts_with p COMPACT_LOG_TAG then compacted env n n' i else appended env n p n' i)"
  using all_opt_D [OF durable_raft.handle_client_command_spec [OF assms(1,2)] assms(3)] by simp

lemma sample_leader_ps:
  "ps sample_leader = fst (log_append (fst (log_append (ps_new\<lparr>membership :=
      Some sample_membership, current_term := 2\<rparr>) 1 [1])) 2 [2])"
  "effective_membership sample_leader = sample_membership"
  by (simp_all add: sample_leader_def Let_def raft_new_def from_bootstrap_def sample_membership_def)

lemma sample_leader_config: "config_ok mem_env sample_leader"
proof -
  have "log_ok (ps_new\<lparr>membership := x, current_term := y\<rparr>)" for x y by (simp add: log_ok_def ps_new_def)
  then have "log_ok (ps sample_leader)" unfolding sample_leader_ps(1) by (intro log_ok_append)
  moreover have c: "committed_membership sample_leader = sample_membership"
    by (simp add: committed_membership_def sample_leader_ps)
  moreover have "last_log_index (ps sample_leader) = 2"
    by (simp add: sample_leader_ps last_log_index_def ps_new_def)
  moreover have "replay_membership (codec_of mem_env) (config_index sample_membership)
      (ps_log (ps sample_leader)) sample_membership = Inr sample_membership"
    by (rule replay_plain)
      (auto simp: sample_leader_ps ps_new_def starts_with_def MEMBERSHIP_CHANGE_TAG_def)
  moreover have "config_index sample_membership = 0" by (simp add: sample_membership_def bootstrap_def)
  ultimately show ?thesis
    by (simp add: config_ok_def sample_leader_ps(2) sample_membership_valid u64_max_def)
qed

theorem client_command_atomic_witness:
  "case handle_client_command mem_env [5, 6] sample_leader of
     Some (n', Inr i) \<Rightarrow> ps n' = fst (log_append (ps sample_leader) 2 [5, 6])
   | _ \<Rightarrow> False"
proof -
  have "case handle_client_command mem_env [5, 6] sample_leader of
     Some (n', Inr i) \<Rightarrow> True | _ \<Rightarrow> False" by code_simp
  then obtain n' i where n': "handle_client_command mem_env [5, 6] sample_leader = Some (n', Inr i)"
    by (rule eval_result)
  have "strip_guard mem_env sample_leader [5, 6] = Inr [5, 6]"
    by (simp add: strip_guard_def starts_with_def GUARDED_MEMBERSHIP_TAG_def)
  moreover have "current_term (ps sample_leader) = 2" by (simp add: sample_leader_ps)
  ultimately show ?thesis
    using client_command_atomic [OF mem_raft.durable_raft_axioms sample_leader_config n'] n'
    by (simp add: starts_with_def COMPACT_LOG_TAG_def appended_def)
qed

text \<open>Compaction never gives up an entry it may still need: the new boundary is committed,
  and applied when a state machine is attached, and everything above it is still in the log
  at the same index; the layout and the end of the log do not change.\<close>

theorem compaction_keeps_suffix:
  assumes "durable_raft env" "config_ok env n" "commit_index n \<le> last_log_index (ps n)"
    and "handle_compact_log_cmd env payload n = Some (n', Inr i)"
  shows "log_ok (ps n') \<and> last_log_index (ps n') = last_log_index (ps n) \<and>
    (\<forall>j. snapshot_index (ps n') < j \<longrightarrow> entry_at (ps n') j = entry_at (ps n) j) \<and>
    (snapshot_index (ps n') = snapshot_index (ps n) \<or> snapshot_index (ps n') \<le> commit_index n \<and>
      (has_snapshot_store n \<longrightarrow> snapshot_index (ps n') \<le> last_applied n))"
proof -
  have log: "log_ok (ps n)" using assms(2) by (simp add: config_ok_def)
  have "compacted env n n' i"
    using all_opt_D [OF durable_raft.handle_compact_spec [OF assms(1,2)] assms(4)] by simp
  then consider "n' = n" | "snapshot_index (ps n) < i" "i \<le> commit_index n"
      "has_snapshot_store n \<longrightarrow> i \<le> last_applied n"
      "ps n' = install_snapshot (ps n) i (term_at (ps n) i)"
    unfolding compacted_def by blast
  then show ?thesis
  proof cases
    case 2
    then show ?thesis
      using log assms(3)
      by (auto simp: log_ok_install last_log_index_install entry_at_install)
  qed (use log in simp)
qed

definition sample_compact_node :: "(mem_store, log_entry list) raft_node" where
  "sample_compact_node = sample_leader\<lparr>commit_index := 1, last_applied := 1\<rparr>"

theorem compaction_keeps_suffix_witness:
  "case handle_compact_log_cmd mem_env (encode_compact_log 2 [4]) sample_compact_node of
     Some (n', Inr i) \<Rightarrow> snapshot_index (ps n') = 1 \<and> entry_at (ps n') 2 = entry_at (ps sample_compact_node) 2
   | _ \<Rightarrow> False"
proof -
  have "case handle_compact_log_cmd mem_env (encode_compact_log 2 [4]) sample_compact_node of
     Some (n', Inr i) \<Rightarrow> snapshot_index (ps n') = 1 | _ \<Rightarrow> False" by code_simp
  then obtain n' i where n': "handle_compact_log_cmd mem_env (encode_compact_log 2 [4]) sample_compact_node =
      Some (n', Inr i)" "snapshot_index (ps n') = 1" by (rule eval_result)
  have "config_ok mem_env sample_compact_node"
    using sample_leader_config by (simp add: config_ok_def sample_compact_node_def committed_membership_def)
  moreover have "commit_index sample_compact_node \<le> last_log_index (ps sample_compact_node)"
    by (simp add: sample_compact_node_def sample_leader_ps last_log_index_def ps_new_def)
  ultimately have "\<forall>j. 1 < j \<longrightarrow> entry_at (ps n') j = entry_at (ps sample_compact_node) j"
    using compaction_keeps_suffix [OF mem_raft.durable_raft_axioms _ _ n'(1)] n'(2) by simp
  then show ?thesis using n' by simp
qed

section \<open>Followers\<close>

context durable_raft begin

lemma recognise_leader_ps:
  "all_opt (\<lambda>m. ps_log (ps m) = ps_log (ps n) \<and> snapshot_index (ps m) = snapshot_index (ps n) \<and>
      snapshot_term (ps m) = snapshot_term (ps n) \<and> commit_index m = commit_index n \<and>
      last_applied m = last_applied n \<and> membership (ps m) = membership (ps n) \<and>
      has_snapshot_store m = has_snapshot_store n) (recognise_leader env tm l n)"
  by (auto simp: recognise_leader_def become_follower_def Let_def fail_uncommitted_clients_def
      same_but_store_def intro!: all_opt_mono [OF persist_saved])

lemma store_entries_spec:
  assumes "ae_entries args \<noteq> []"
  shows "all_opt (\<lambda>m. ps m = truncate_and_append (ps n) (ae_prev_log_index args) (ae_entries args) \<and>
    commit_index m = commit_index n \<and> saved env m) (store_entries env args n)"
proof -
  let ?n = "n\<lparr>ps := truncate_and_append (ps n) (ae_prev_log_index args) (ae_entries args)\<rparr>"
  show ?thesis
  proof (cases "recompute_effective_membership env ?n")
    case (Inr m)
    have f: "ps m = ps ?n" "commit_index m = commit_index n"
      by (subst recompute_ok(1) [OF Inr], simp)+
    show ?thesis
      using assms f by (simp add: store_entries_def Inr)
        (rule all_opt_mono [OF persist_saved], simp add: same_but_store_def)
  qed (simp add: store_entries_def assms)
qed

end

lemma log_fields_cong:
  assumes "ps_log p = ps_log q" "snapshot_index p = snapshot_index q" "snapshot_term p = snapshot_term q"
  shows "log_ok p = log_ok q" "last_log_index p = last_log_index q" "entry_at p i = entry_at q i"
    "term_at p i = term_at q i"
  using assms by (simp_all add: log_ok_def last_log_index_def entry_at_def term_at_def Let_def)

text \<open>What an accepted message with entries leaves behind.\<close>

definition entries_stored ::
  "('s, 'm) raft_env \<Rightarrow> append_entries_args \<Rightarrow> ('s, 'm) raft_node \<Rightarrow> ('s, 'm) raft_node \<Rightarrow>
   append_entries_reply \<Rightarrow> bool" where
  "entries_stored env args n n' reply \<longleftrightarrow>
     ps_log (ps n') = ps_log (truncate_and_append (ps n) (ae_prev_log_index args) (ae_entries args)) \<and>
     snapshot_index (ps n') = snapshot_index (ps n) \<and> snapshot_term (ps n') = snapshot_term (ps n) \<and>
     saved env n' \<and> aer_match_index reply = last_log_index (ps n') \<and>
     commit_index n' = (if commit_index n < ae_leader_commit args
       then min (ae_leader_commit args) (last_log_index (ps n')) else commit_index n) \<and>
     (0 < ae_prev_log_index args \<longrightarrow> term_at (ps n) (ae_prev_log_index args) = ae_prev_log_term args)"

context durable_raft begin

lemma append_entries_spec:
  assumes "ae_entries args \<noteq> []"
  shows "all_opt (\<lambda>(n', reply). aer_success reply \<longrightarrow> entries_stored env args n n' reply)
    (on_append_entries env args n)"
proof -
  let ?answer = "\<lambda>ok n'. (n', \<lparr>aer_term = current_term (ps n'), aer_success = ok,
      aer_match_index = last_log_index (ps n')\<rparr>)"
  have store: "all_opt (\<lambda>k. entries_stored env args n (follow_commit args k)
        \<lparr>aer_term = current_term (ps (follow_commit args k)), aer_success = True,
         aer_match_index = last_log_index (ps (follow_commit args k))\<rparr>)
      (store_entries env args (m\<lparr>successful_append_seen := True\<rparr>))"
    if m: "ps_log (ps m) = ps_log (ps n)" "snapshot_index (ps m) = snapshot_index (ps n)"
      "snapshot_term (ps m) = snapshot_term (ps n)" "commit_index m = commit_index n"
      and prev: "0 < ae_prev_log_index args \<longrightarrow> term_at (ps m) (ae_prev_log_index args) = ae_prev_log_term args"
    for m
  proof (rule all_opt_mono [OF store_entries_spec [OF assms]])
    fix k assume k: "ps k = truncate_and_append (ps (m\<lparr>successful_append_seen := True\<rparr>))
        (ae_prev_log_index args) (ae_entries args) \<and>
      commit_index k = commit_index (m\<lparr>successful_append_seen := True\<rparr>) \<and> saved env k"
    have "ps_log (ps k) = ps_log (truncate_and_append (ps n) (ae_prev_log_index args) (ae_entries args))"
      using k m by (simp add: truncate_and_append_def Let_def)
    moreover have "saved env (follow_commit args k)"
      using k by (simp add: saved_def follow_commit_def split: option.splits)
    moreover have "term_at (ps m) i = term_at (ps n) i" for i
      using m by (intro log_fields_cong) simp_all
    ultimately show "entries_stored env args n (follow_commit args k)
        \<lparr>aer_term = current_term (ps (follow_commit args k)), aer_success = True,
         aer_match_index = last_log_index (ps (follow_commit args k))\<rparr>"
      using k m prev by (simp add: entries_stored_def follow_commit_def)
  qed
  show ?thesis
    unfolding on_append_entries_def Let_def
    by (auto intro!: all_opt_mono [OF recognise_leader_ps] store)
qed

end


definition sample_follower :: "(mem_store, log_entry list) raft_node" where
  "sample_follower = sample_leader\<lparr>role := Follower, leader := None, leader_id := Some ''n2''\<rparr>"

definition sample_append :: append_entries_args where
  "sample_append = \<lparr>ae_term = 3, ae_leader_id = ''n2'', ae_prev_log_index = 1, ae_prev_log_term = 1,
     ae_entries = [\<lparr>le_term = 3, le_index = 2, le_command = [7]\<rparr>,
                   \<lparr>le_term = 3, le_index = 3, le_command = [8]\<rparr>], ae_leader_commit = 2\<rparr>"

lemma sample_follower_log:
  "log_ok (ps sample_follower)" "last_log_index (ps sample_follower) = 2"
  "snapshot_index (ps sample_follower) = 0"
  using sample_leader_config
  by (simp_all add: sample_follower_def config_ok_def sample_leader_ps last_log_index_def ps_new_def)


text \<open>C35. A delayed AppendEntries can remove committed entries: a message with entries that is
  accepted cuts the log at the end of its batch whatever the follower has committed, so a
  batch that ends below the commit index leaves a node whose commit index is beyond the end
  of its log.\<close>

theorem stale_append_drops_committed:
  assumes "durable_raft env" "on_append_entries env args n = Some (n', reply)" "aer_success reply"
    and "ae_entries args \<noteq> []" "log_ok (ps n)" "snapshot_index (ps n) \<le> ae_prev_log_index args"
    and "ae_prev_log_index args + length (ae_entries args) < commit_index n"
    and "commit_index n \<le> last_log_index (ps n)" "ae_leader_commit args \<le> commit_index n"
  shows "last_log_index (ps n') < commit_index n' \<and> entry_at (ps n) (commit_index n) \<noteq> None \<and>
    entry_at (ps n') (commit_index n) = None"
proof -
  let ?p = "truncate_and_append (ps n) (ae_prev_log_index args) (ae_entries args)"
  have prev: "ae_prev_log_index args \<le> last_log_index (ps n)" using assms(7,8) by simp
  have s: "entries_stored env args n n' reply"
    using all_opt_D [OF durable_raft.append_entries_spec [OF assms(1,4)] assms(2)] assms(3) by simp
  then have c: "last_log_index (ps n') = last_log_index ?p" "entry_at (ps n') i = entry_at ?p i" for i
    by (simp_all add: log_fields_cong [of "ps n'" ?p] entries_stored_def)
  have "entry_at (ps n) (commit_index n) \<noteq> None" using assms(6-8) by (simp add: entry_at_def)
  then show ?thesis
    using s assms(7,9)
    by (simp add: c entries_stored_def last_log_index_truncate [OF assms(5,6) prev]
        entry_at_truncate [OF assms(5,6) prev])
qed

definition stale_append :: append_entries_args where
  "stale_append = \<lparr>ae_term = 2, ae_leader_id = ''n2'', ae_prev_log_index = 0, ae_prev_log_term = 0,
     ae_entries = [\<lparr>le_term = 1, le_index = 1, le_command = [1]\<rparr>], ae_leader_commit = 0\<rparr>"

theorem stale_append_drops_committed_witness:
  "case on_append_entries mem_env stale_append (sample_follower\<lparr>commit_index := 2\<rparr>) of
     Some (n', reply) \<Rightarrow> aer_success reply \<and> last_log_index (ps n') < commit_index n' \<and>
       entry_at (ps n') 2 = None
   | None \<Rightarrow> False"
proof -
  let ?n = "sample_follower\<lparr>commit_index := 2\<rparr>"
  have "case on_append_entries mem_env stale_append ?n of
     Some (n', reply) \<Rightarrow> aer_success reply | None \<Rightarrow> False" by code_simp
  then obtain n' reply where *: "on_append_entries mem_env stale_append ?n = Some (n', reply)"
    "aer_success reply" by (auto split: option.splits)
  have "log_ok (ps ?n)" using sample_follower_log by simp
  from stale_append_drops_committed [OF mem_raft.durable_raft_axioms * _ this] *
  show ?thesis by (simp add: stale_append_def sample_follower_log)
qed

text \<open>A follower whose log has a tail that the leader never had, and the leader's side of the
  same exchange: the leader's heartbeat carries no entries, the follower answers with the end
  of its own log, the leader appends a command and the next answer commits it.\<close>

definition tail_leader :: "(mem_store, log_entry list) raft_node" where
  "tail_leader = (let n = raft_new ''n1'' [''n2'', ''n3''] [] in
     n\<lparr>persistence := Some mem_new, role := Leader, leader_id := Some ''n1'',
       ps := fst (log_append ((ps n)\<lparr>current_term := 2\<rparr>) 1 [1]),
       leader := Some \<lparr>next_index = [''n2'' \<mapsto> 2, ''n3'' \<mapsto> 2],
         match_index = [''n2'' \<mapsto> 0, ''n3'' \<mapsto> 0]\<rparr>\<rparr>)"

definition tail_follower :: "(mem_store, log_entry list) raft_node" where
  "tail_follower = (let n = raft_new ''n2'' [''n1'', ''n3''] []; p = (ps n)\<lparr>current_term := 1\<rparr> in
     n\<lparr>persistence := Some mem_new,
       ps := fst (log_append (fst (log_append p 1 [1])) 1 [9])\<rparr>)"

definition heartbeat_round ::
  "((mem_store, log_entry list) raft_node \<times> (mem_store, log_entry list) raft_node) option" where
  "heartbeat_round =
     (case heartbeat_for tail_leader ''n2'' of
        AppendEntries args \<Rightarrow> do {
          (f, reply) \<leftarrow> on_append_entries mem_env args tail_follower;
          l \<leftarrow> on_append_entries_reply mem_env ''n2'' reply tail_leader;
          (l', _) \<leftarrow> handle_client_command mem_env [5] l;
          l'' \<leftarrow> on_append_entries_reply mem_env ''n2'' reply l';
          Some (l'', f) }
      | _ \<Rightarrow> None)"


end
