(* ===== verification/Utf8.thy ===== *)
theory Utf8
  imports Nb_Prelude
begin

text \<open>
  UTF-8 validation as in \<open>String::from_utf8\<close> of the standard library (the well-formed byte
  sequences of the Unicode standard). A Rust \<open>String\<close> is a \<open>string\<close> whose bytes pass it.
\<close>

definition continuation :: "u8 \<Rightarrow> bool" where
  "continuation b \<longleftrightarrow> 0x80 \<le> b \<and> b \<le> 0xBF"

text \<open>The range of the second byte of a sequence, given the first one.\<close>

definition second_byte :: "u8 \<Rightarrow> u8 \<Rightarrow> bool" where
  "second_byte b0 b1 \<longleftrightarrow>
     (if b0 = 0xE0 then 0xA0 \<le> b1 \<and> b1 \<le> 0xBF
      else if b0 = 0xED then 0x80 \<le> b1 \<and> b1 \<le> 0x9F
      else if b0 = 0xF0 then 0x90 \<le> b1 \<and> b1 \<le> 0xBF
      else if b0 = 0xF4 then 0x80 \<le> b1 \<and> b1 \<le> 0x8F
      else continuation b1)"

fun utf8_valid :: "bytes \<Rightarrow> bool" where
  "utf8_valid [] = True"
| "utf8_valid (b0 # rest) =
     (if b0 < 0x80 then utf8_valid rest
      else if 0xC2 \<le> b0 \<and> b0 \<le> 0xDF then
        (case rest of b1 # r \<Rightarrow> continuation b1 \<and> utf8_valid r | [] \<Rightarrow> False)
      else if 0xE0 \<le> b0 \<and> b0 \<le> 0xEF then
        (case rest of b1 # b2 # r \<Rightarrow> second_byte b0 b1 \<and> continuation b2 \<and> utf8_valid r | _ \<Rightarrow> False)
      else if 0xF0 \<le> b0 \<and> b0 \<le> 0xF4 then
        (case rest of
           b1 # b2 # b3 # r \<Rightarrow> second_byte b0 b1 \<and> continuation b2 \<and> continuation b3 \<and> utf8_valid r
         | _ \<Rightarrow> False)
      else False)"

text \<open>\<open>String::from_utf8\<close>.\<close>

definition string_from_utf8 :: "bytes \<Rightarrow> string option" where
  "string_from_utf8 bs = (if utf8_valid bs then Some (bytes_str bs) else None)"

text \<open>The invariant of the type \<open>String\<close>.\<close>

definition rust_string :: "string \<Rightarrow> bool" where
  "rust_string s \<longleftrightarrow> utf8_valid (str_bytes s)"

lemma string_from_str_bytes [simp]: "rust_string s \<Longrightarrow> string_from_utf8 (str_bytes s) = Some s"
  by (simp add: string_from_utf8_def rust_string_def)

lemma string_from_utf8_Some [result_simps]:
  "string_from_utf8 bs = Some s \<longleftrightarrow> rust_string s \<and> str_bytes s = bs"
  by (auto simp: string_from_utf8_def rust_string_def)

lemma ascii_rust_string: "\<forall>c \<in> set s. of_char c < (128 :: nat) \<Longrightarrow> rust_string s"
proof (induction s)
  case (Cons c s)
  then have "(of_nat (of_char c) :: u8) < 0x80"
    by (simp add: word_less_nat_alt unat_of_nat)
  with Cons show ?case by (simp add: rust_string_def str_bytes_def)
qed (simp add: rust_string_def str_bytes_def)

end
