(* ===== verification/Hlc.thy ===== *)
theory Hlc
  imports Nb_Prelude
begin

unbundle bit_operations_syntax

text \<open>
  The hybrid logical clock of \<open>hlc.rs\<close>. A timestamp is a millisecond count of 64 bits and a
  counter of 16 bits; its encoding as one \<open>u64\<close> keeps only 48 bits of the milliseconds. The
  wall clock is an argument of every operation that reads it. Additions wrap, as they do in
  a release build.

  The lemmas show when the encodings keep the order of timestamps, and that no sequence of
  clock operations issues a timestamp twice.
\<close>

section \<open>Timestamps\<close>

type_synonym u16 = "16 word"
type_synonym u32 = "32 word"
type_synonym u64 = "64 word"

text \<open>A struct with a derived lexicographic order.\<close>

datatype hlc_timestamp = HlcTimestamp (wall_ms: u64) (logical: u16)

instantiation hlc_timestamp :: linorder
begin

definition less_hlc_timestamp :: "hlc_timestamp \<Rightarrow> hlc_timestamp \<Rightarrow> bool" where
  "a < b \<longleftrightarrow> wall_ms a < wall_ms b \<or> wall_ms a = wall_ms b \<and> logical a < logical b"

definition less_eq_hlc_timestamp :: "hlc_timestamp \<Rightarrow> hlc_timestamp \<Rightarrow> bool" where
  "a \<le> b \<longleftrightarrow> a < b \<or> a = (b :: hlc_timestamp)"

instance
  by intro_classes
    (auto simp: less_eq_hlc_timestamp_def less_hlc_timestamp_def intro: hlc_timestamp.expand)

end

definition HLC_ZERO :: hlc_timestamp where
  "HLC_ZERO = HlcTimestamp 0 0"

definition HLC_MAX :: hlc_timestamp where
  "HLC_MAX = HlcTimestamp (drop_bit 16 0xFFFFFFFFFFFFFFFF) 0xFFFF"

definition to_u64 :: "hlc_timestamp \<Rightarrow> u64" where
  "to_u64 ts = push_bit 16 (wall_ms ts) OR ucast (logical ts)"

definition from_u64 :: "u64 \<Rightarrow> hlc_timestamp" where
  "from_u64 v = HlcTimestamp (drop_bit 16 v) (ucast v)"

definition to_be_bytes :: "hlc_timestamp \<Rightarrow> bytes" where
  "to_be_bytes ts = be_bytes 8 (unat (to_u64 ts))"

definition from_be_bytes :: "bytes \<Rightarrow> hlc_timestamp" where
  "from_be_bytes bs = from_u64 (of_nat (be_value bs))"

section \<open>The clock\<close>

datatype hlc_error = SkewExceeded u64 u64

record hlc_clock =
  hlc_inner :: hlc_timestamp
  max_skew_ms :: u64

definition hlc_new :: "u64 \<Rightarrow> hlc_clock" where
  "hlc_new skew = \<lparr>hlc_inner = HLC_ZERO, max_skew_ms = skew\<rparr>"

definition advance :: "hlc_timestamp \<Rightarrow> u64 \<Rightarrow> hlc_timestamp" where
  "advance cur wall =
     (if wall_ms cur < wall then HlcTimestamp wall 0
      else if logical cur = 0xFFFF then HlcTimestamp (wall_ms cur + 1) 0
      else HlcTimestamp (wall_ms cur) (logical cur + 1))"

definition tick :: "u64 \<Rightarrow> hlc_clock \<Rightarrow> hlc_clock \<times> hlc_timestamp" where
  "tick wall c = (let ts = advance (hlc_inner c) wall in (c\<lparr>hlc_inner := ts\<rparr>, ts))"

definition observe_committed :: "hlc_timestamp \<Rightarrow> hlc_clock \<Rightarrow> hlc_clock \<times> hlc_timestamp" where
  "observe_committed committed c =
     (let ts = (if hlc_inner c < committed then committed else hlc_inner c)
      in (c\<lparr>hlc_inner := ts\<rparr>, ts))"

definition saturating_succ :: "u16 \<Rightarrow> u16" where
  "saturating_succ w = (if w = 0xFFFF then 0xFFFF else w + 1)"

definition hlc_update ::
  "u64 \<Rightarrow> hlc_timestamp \<Rightarrow> hlc_clock \<Rightarrow> hlc_clock \<times> (hlc_error + hlc_timestamp)" where
  "hlc_update wall remote c =
     (if wall + max_skew_ms c < wall_ms remote
      then (c, Inl (SkewExceeded (wall_ms remote - wall) (max_skew_ms c)))
      else
        let cur = advance (advance (hlc_inner c) wall) (wall_ms remote);
            cur' = (if wall_ms cur = wall_ms remote
                    then HlcTimestamp (wall_ms cur)
                      (saturating_succ (max (logical cur) (logical remote)))
                    else cur)
        in (c\<lparr>hlc_inner := cur'\<rparr>, Inr cur'))"

definition hlc_now :: "hlc_clock \<Rightarrow> hlc_timestamp" where
  "hlc_now c = hlc_inner c"

section \<open>Encodings\<close>

text \<open>The timestamps whose milliseconds fit in 48 bits.\<close>

definition encodable :: "hlc_timestamp \<Rightarrow> bool" where
  "encodable ts \<longleftrightarrow> unat (wall_ms ts) < 2 ^ 48"

lemma unat_logical_less: "unat (logical ts) < 65536"
  using unsigned_less [of "logical ts", where 'a = nat] by simp

lemma to_u64_add: "to_u64 ts = wall_ms ts * 65536 + ucast (logical ts)"
proof -
  have "push_bit 16 (wall_ms ts) AND ucast (logical ts) = 0"
    by (rule bit_word_eqI) (auto simp: bit_simps dest: bit_imp_le_length)
  then show ?thesis
    by (simp add: to_u64_def disjunctive_add_eq_or push_bit_eq_mult)
qed

text \<open>Evaluation by arithmetic instead of bit operations.\<close>

declare to_u64_add [code]

lemma from_u64_code [code]: "from_u64 v = HlcTimestamp (v div 65536) (ucast v)"
  by (simp add: from_u64_def drop_bit_eq_div)

lemma HLC_MAX_code [code]: "HLC_MAX = HlcTimestamp 0xFFFFFFFFFFFF 0xFFFF"
  by (simp add: HLC_MAX_def drop_bit_eq_div)

lemma unat_to_u64:
  assumes "encodable ts"
  shows "unat (to_u64 ts) = unat (wall_ms ts) * 65536 + unat (logical ts)"
proof -
  have w: "unat (wall_ms ts) * 65536 + unat (logical ts) < 2 ^ 64"
    using assms unat_logical_less [of ts] by (simp add: encodable_def)
  have "unat (wall_ms ts * 65536) = unat (wall_ms ts) * 65536"
    using w by (subst unat_mult_lem [THEN iffD1]) (simp_all add: unat_numeral)
  moreover have "unat (ucast (logical ts) :: u64) = unat (logical ts)"
    using unat_logical_less [of ts] by (simp add: unsigned_ucast_eq take_bit_eq_mod)
  ultimately show ?thesis
    unfolding to_u64_add using w by (subst unat_add_lem [THEN iffD1]) simp_all
qed

lemma less_iff_code:
  "a < b \<longleftrightarrow> unat (wall_ms a) * 65536 + unat (logical a) < unat (wall_ms b) * 65536 + unat (logical b)"
  using unat_logical_less [of a] unat_logical_less [of b]
  by (auto simp: less_hlc_timestamp_def word_less_nat_alt word_unat_eq_iff)

lemma to_u64_less_iff: "encodable a \<Longrightarrow> encodable b \<Longrightarrow> to_u64 a < to_u64 b \<longleftrightarrow> a < b"
  by (simp add: word_less_nat_alt unat_to_u64 less_iff_code)

lemma from_to_u64 [simp]:
  assumes "encodable ts"
  shows "from_u64 (to_u64 ts) = ts"
proof -
  have "unat (drop_bit 16 (to_u64 ts)) = unat (wall_ms ts)"
    using assms unat_logical_less [of ts]
    by (simp add: unat_drop_bit_eq unat_to_u64 drop_bit_eq_div [where 'a = nat])
  then have "drop_bit 16 (to_u64 ts) = wall_ms ts" by (simp add: word_unat_eq_iff)
  moreover have "(ucast (to_u64 ts) :: u16) = logical ts"
    by (rule word_unat_eq_iff [THEN iffD2])
      (use assms unat_logical_less [of ts] in \<open>simp add: unsigned_ucast_eq take_bit_eq_mod unat_to_u64\<close>)
  ultimately show ?thesis by (cases ts) (simp add: from_u64_def)
qed

lemma to_from_u64 [simp]: "to_u64 (from_u64 v) = v"
  by (rule bit_word_eqI) (auto simp: to_u64_def from_u64_def bit_simps)

lemma encodable_from_u64 [simp]: "encodable (from_u64 v)"
  using unsigned_less [of v, where 'a = nat]
  by (simp add: encodable_def from_u64_def unat_drop_bit_eq drop_bit_eq_div [where 'a = nat]
      less_mult_imp_div_less)

lemma unat_u64_less: "unat (v :: u64) < 256 ^ 8"
  using unsigned_less [of v, where 'a = nat] by simp

lemma length_to_be_bytes [simp]: "length (to_be_bytes ts) = 8"
  by (simp add: to_be_bytes_def)

lemma from_to_be_bytes [simp]: "encodable ts \<Longrightarrow> from_be_bytes (to_be_bytes ts) = ts"
  using unat_u64_less [of "to_u64 ts"] by (simp add: from_be_bytes_def to_be_bytes_def)

lemma to_be_bytes_less_iff:
  "encodable a \<Longrightarrow> encodable b \<Longrightarrow> to_be_bytes a < to_be_bytes b \<longleftrightarrow> a < b"
  unfolding to_be_bytes_def be_bytes_less_iff [OF unat_u64_less unat_u64_less]
  by (simp add: word_less_nat_alt [symmetric] to_u64_less_iff)

lemma to_be_bytes_eq_iff:
  "encodable a \<Longrightarrow> encodable b \<Longrightarrow> to_be_bytes a = to_be_bytes b \<longleftrightarrow> a = b"
  by (metis from_to_be_bytes)

lemma be_bytes_be_value: "be_bytes (length bs) (be_value bs) = bs"
proof (induction bs rule: rev_induct)
  case (snoc b bs)
  have b: "unat b < 256" using unsigned_less [of b, where 'a = nat] by simp
  have "unat (of_nat (be_value (bs @ [b])) :: u8) = unat b"
    by (simp only: unat_of_nat be_value_append) (use b in simp)
  then have "(of_nat (be_value (bs @ [b])) :: u8) = b" by (simp add: word_unat_eq_iff)
  moreover have "be_value (bs @ [b]) div 256 = be_value bs" using b by (simp add: be_value_append)
  ultimately show ?case using snoc by (simp add: be_bytes_Suc)
qed (simp add: be_bytes_def)

section \<open>Monotonicity\<close>

lemma word_max_iff: "(w :: u16) = 0xFFFF \<longleftrightarrow> unat w = 65535"
  by (simp add: word_unat_eq_iff)

lemma unat_succ16: "w \<noteq> 0xFFFF \<Longrightarrow> unat (w + 1 :: u16) = unat w + 1"
  using unsigned_less [of w, where 'a = nat]
  by (subst unat_add_lem [THEN iffD1]) (auto simp: word_max_iff)

lemma unat_succ64: "unat w + 1 < 2 ^ 64 \<Longrightarrow> unat (w + 1 :: u64) = unat w + 1"
  by (subst unat_add_lem [THEN iffD1]) auto

lemma advance_greater: "unat (wall_ms cur) + 1 < 2 ^ 64 \<Longrightarrow> cur < advance cur wall"
  by (auto simp: advance_def less_hlc_timestamp_def word_less_nat_alt unat_succ64 unat_succ16)

lemma advance_wall:
  assumes "unat (wall_ms cur) + 1 < 2 ^ 64"
  shows "unat wall \<le> unat (wall_ms (advance cur wall))"
    "unat (wall_ms (advance cur wall)) \<le> max (unat (wall_ms cur) + 1) (unat wall)"
  using assms by (auto simp: advance_def word_less_nat_alt unat_succ64)

lemma saturating_succ_ge: "w \<le> saturating_succ w"
  by (auto simp: saturating_succ_def word_le_nat_alt unat_succ16)

lemma saturating_succ_greater: "w \<noteq> 0xFFFF \<Longrightarrow> w < saturating_succ w"
  by (auto simp: saturating_succ_def word_less_nat_alt unat_succ16)

lemma hlc_le_iff:
  "a \<le> b \<longleftrightarrow> wall_ms a < wall_ms b \<or> wall_ms a = wall_ms b \<and> logical a \<le> logical b"
  by (auto simp: less_eq_hlc_timestamp_def less_hlc_timestamp_def intro: hlc_timestamp.expand)

lemma saturating_max:
  "b \<le> saturating_succ (max b r)" "r \<noteq> 0xFFFF \<Longrightarrow> r < saturating_succ (max b r)"
proof -
  show "b \<le> saturating_succ (max b r)" using saturating_succ_ge [of "max b r"] by simp
  assume r: "r \<noteq> 0xFFFF"
  show "r < saturating_succ (max b r)"
  proof (cases "max b r = 0xFFFF")
    case True
    then have "r < 0xFFFF"
      using r max.cobounded2 [of r b] by (simp add: less_le)
    then show ?thesis using True by (simp add: saturating_succ_def)
  next
    case False
    then show ?thesis using saturating_succ_greater [of "max b r"] by simp
  qed
qed

text \<open>A received timestamp moves the clock past its own value, and past the received one unless
  the counter of that one is exhausted.\<close>

lemma update_advances:
  assumes "hlc_update wall remote c = (c', Inr ts)"
    and "unat (wall_ms (hlc_inner c)) \<le> W" "unat wall \<le> W" "unat (wall_ms remote) \<le> W" "W + 2 < 2 ^ 64"
  shows "hlc_inner c' = ts \<and> hlc_inner c < ts \<and> unat (wall_ms ts) \<le> W + 2 \<and>
    (logical remote \<noteq> 0xFFFF \<longrightarrow> remote < ts)"
proof -
  let ?a = "advance (hlc_inner c) wall"
  let ?b = "advance ?a (wall_ms remote)"
  have a: "hlc_inner c < ?a" "unat (wall_ms ?a) \<le> W + 1"
    using assms(2-5) advance_greater [of "hlc_inner c" wall] advance_wall [of "hlc_inner c" wall] by auto
  have b: "?a < ?b" "unat (wall_ms ?b) \<le> W + 2" "wall_ms remote \<le> wall_ms ?b"
    using assms(4,5) a(2) advance_greater [of ?a "wall_ms remote"]
      advance_wall [of ?a "wall_ms remote"] by (auto simp: word_le_nat_alt)
  have lt: "hlc_inner c < ?b" using a(1) b(1) by (rule less_trans)
  show ?thesis
  proof (cases "wall_ms ?b = wall_ms remote")
    case True
    let ?t = "HlcTimestamp (wall_ms ?b) (saturating_succ (max (logical ?b) (logical remote)))"
    have t: "ts = ?t" "hlc_inner c' = ?t"
      using assms(1) True by (auto simp: hlc_update_def Let_def split: if_splits)
    have "?b \<le> ?t" "logical remote \<noteq> 0xFFFF \<Longrightarrow> remote < ?t"
      using True saturating_max by (simp_all add: hlc_le_iff less_hlc_timestamp_def)
    then show ?thesis using b(2) less_le_trans [OF lt] unfolding t by simp
  next
    case False
    then have "remote < ?b" using b(3) by (auto simp: less_hlc_timestamp_def)
    then show ?thesis
      using assms(1) False b(2) lt by (auto simp: hlc_update_def Let_def split: if_splits)
  qed
qed

text \<open>Sequences of clock operations, and the timestamps they issue for new events.\<close>

datatype clock_op = Tick u64 | Observe hlc_timestamp | Update u64 hlc_timestamp

fun op_wall :: "clock_op \<Rightarrow> nat" where
  "op_wall (Tick wall) = unat wall"
| "op_wall (Observe ts) = unat (wall_ms ts)"
| "op_wall (Update wall remote) = max (unat wall) (unat (wall_ms remote))"

fun clock_step :: "clock_op \<Rightarrow> hlc_clock \<Rightarrow> hlc_clock \<times> hlc_timestamp list" where
  "clock_step (Tick wall) c = (case tick wall c of (c', ts) \<Rightarrow> (c', [ts]))"
| "clock_step (Observe ts) c = (fst (observe_committed ts c), [])"
| "clock_step (Update wall remote) c =
     (case hlc_update wall remote c of (c', Inr ts) \<Rightarrow> (c', [ts]) | (c', Inl _) \<Rightarrow> (c', []))"

fun issued :: "clock_op list \<Rightarrow> hlc_clock \<Rightarrow> hlc_timestamp list" where
  "issued [] c = []"
| "issued (op # ops) c = (case clock_step op c of (c', tss) \<Rightarrow> tss @ issued ops c')"

lemma clock_step_bounds:
  assumes "clock_step op c = (c', tss)" "unat (wall_ms (hlc_inner c)) \<le> W" "op_wall op \<le> W"
    "W + 2 < 2 ^ 64"
  shows "hlc_inner c \<le> hlc_inner c' \<and> unat (wall_ms (hlc_inner c')) \<le> W + 2 \<and>
    (tss = [] \<or> tss = [hlc_inner c'] \<and> hlc_inner c < hlc_inner c')"
proof (cases op)
  case (Tick wall)
  then show ?thesis
    using assms advance_greater [of "hlc_inner c" wall] advance_wall [of "hlc_inner c" wall]
    by (auto simp: tick_def Let_def)
next
  case (Observe ts)
  then show ?thesis using assms by (auto simp: observe_committed_def Let_def)
next
  case (Update wall remote)
  obtain c1 r where u: "hlc_update wall remote c = (c1, r)" by fastforce
  show ?thesis
  proof (cases r)
    case (Inl e)
    then show ?thesis
      using assms u Update by (auto simp: hlc_update_def Let_def split: if_splits)
  next
    case (Inr ts)
    then show ?thesis
      using assms u Update update_advances [of wall remote c c1 ts W] by auto
  qed
qed

lemma issued_increasing:
  assumes "unat (wall_ms (hlc_inner c)) \<le> W" "\<forall>op \<in> set ops. op_wall op \<le> W"
    "W + 2 * length ops < 2 ^ 48"
  shows "sorted_wrt (<) (hlc_inner c # issued ops c) \<and> (\<forall>ts \<in> set (issued ops c). encodable ts)"
  using assms
proof (induction ops arbitrary: c W)
  case (Cons op ops)
  obtain c' tss where s: "clock_step op c = (c', tss)" by fastforce
  have b: "hlc_inner c \<le> hlc_inner c'" "unat (wall_ms (hlc_inner c')) \<le> W + 2"
    "tss = [] \<or> tss = [hlc_inner c'] \<and> hlc_inner c < hlc_inner c'"
    using clock_step_bounds [OF s Cons.prems(1)] Cons.prems(2,3) by auto
  have "sorted_wrt (<) (hlc_inner c' # issued ops c') \<and> (\<forall>ts \<in> set (issued ops c'). encodable ts)"
    by (rule Cons.IH [OF b(2)]) (use Cons.prems in auto)
  then show ?case
    using b s Cons.prems(3) by (auto simp: encodable_def)
qed simp

section \<open>Properties\<close>

text \<open>The 64-bit and big-endian encodings of timestamps are exact and ordered: for milliseconds
  below \<open>2 ^ 48\<close> decoding returns the timestamp, and the encodings compare like the timestamps,
  as numbers and as RocksDB key bytes; every \<open>u64\<close> is the encoding of its decoding.\<close>

theorem hlc_encoding_ordered:
  assumes "encodable a" "encodable b"
  shows "from_u64 (to_u64 a) = a \<and> from_be_bytes (to_be_bytes a) = a \<and>
    (to_u64 a < to_u64 b \<longleftrightarrow> a < b) \<and> (to_be_bytes a < to_be_bytes b \<longleftrightarrow> a < b) \<and>
    to_u64 (from_u64 v) = v"
  using assms by (simp add: to_u64_less_iff to_be_bytes_less_iff)

theorem hlc_encoding_ordered_witness:
  "from_be_bytes (to_be_bytes (HlcTimestamp 1700000000000 42)) = HlcTimestamp 1700000000000 42 \<and>
   to_be_bytes (HlcTimestamp 255 0xFFFF) < to_be_bytes (HlcTimestamp 256 0)"
  using hlc_encoding_ordered [of "HlcTimestamp 1700000000000 42" "HlcTimestamp 256 0"]
    hlc_encoding_ordered [of "HlcTimestamp 255 0xFFFF" "HlcTimestamp 256 0"]
  by (simp add: encodable_def less_hlc_timestamp_def)




end
