(* ===== verification/Storage.thy ===== *)
theory Storage
  imports Hlc Utf8
begin

text \<open>
  The storage engine of \<open>storage.rs\<close>: versioned rows in one ordered column family, catalog
  entries and index column families in others.

  RocksDB is the record \<open>rocks\<close>, an argument of every operation; an iterator is the list of
  the pairs it still yields. The locale \<open>rocks_store\<close> states what its documentation promises,
  over a view of the contents as one finite map per column family. The operations assume the
  four static column families, which \<open>open\<close> creates.

  The specification of the versioned rows is \<open>visible\<close>: the value of the newest version of a
  key not younger than the snapshot.
\<close>

section \<open>RocksDB\<close>

datatype batch_op = Put string bytes bytes | Delete string bytes

record 'db rocks =
  rk_has_cf :: "string \<Rightarrow> 'db \<Rightarrow> bool"
  rk_create_cf :: "string \<Rightarrow> 'db \<Rightarrow> string + 'db"
  rk_drop_cf :: "string \<Rightarrow> 'db \<Rightarrow> string + 'db"
  rk_get :: "string \<Rightarrow> bytes \<Rightarrow> 'db \<Rightarrow> string + bytes option"
  rk_put :: "string \<Rightarrow> bytes \<Rightarrow> bytes \<Rightarrow> 'db \<Rightarrow> string + 'db"
  rk_delete :: "string \<Rightarrow> bytes \<Rightarrow> 'db \<Rightarrow> string + 'db"
  rk_write :: "batch_op list \<Rightarrow> 'db \<Rightarrow> string + 'db"
  rk_seek :: "string \<Rightarrow> bytes \<Rightarrow> 'db \<Rightarrow> (bytes \<times> bytes) list"
  rk_seek_for_prev :: "string \<Rightarrow> bytes \<Rightarrow> 'db \<Rightarrow> (bytes \<times> bytes) option"

type_synonym contents = "string \<Rightarrow> bytes \<Rightarrow> bytes option"

fun apply_op :: "batch_op \<Rightarrow> contents \<Rightarrow> contents" where
  "apply_op (Put cf k v) m = m(cf := (m cf)(k \<mapsto> v))"
| "apply_op (Delete cf k) m = m(cf := (m cf)(k := None))"

definition pairs_from :: "(bytes \<Rightarrow> bytes option) \<Rightarrow> bytes \<Rightarrow> (bytes \<times> bytes) list" where
  "pairs_from m k = map (\<lambda>x. (x, the (m x))) (filter (\<lambda>x. k \<le> x) (sorted_list_of_set (dom m)))"

definition last_at_most :: "(bytes \<Rightarrow> bytes option) \<Rightarrow> bytes \<Rightarrow> (bytes \<times> bytes) option" where
  "last_at_most m k =
     (let ks = {x \<in> dom m. x \<le> k} in if ks = {} then None else Some (Max ks, the (m (Max ks))))"

locale rocks_store =
  fixes r :: "'db rocks" and view :: "'db \<Rightarrow> contents"
  assumes finite_view: "finite (dom (view d cf))"
    and get_view: "rk_get r cf k d = Inr x \<Longrightarrow> x = view d cf k"
    and put_view: "rk_put r cf k v d = Inr d' \<Longrightarrow> view d' = apply_op (Put cf k v) (view d)"
    and delete_view: "rk_delete r cf k d = Inr d' \<Longrightarrow> view d' = apply_op (Delete cf k) (view d)"
    and write_view: "rk_write r ops d = Inr d' \<Longrightarrow> view d' = fold apply_op ops (view d)"
    and seek_view: "rk_seek r cf k d = pairs_from (view d cf) k"
    and prev_view: "rk_seek_for_prev r cf k d = last_at_most (view d cf) k"

section \<open>Keys\<close>

definition CF_DATA :: string where "CF_DATA = ''data''"
definition CF_META :: string where "CF_META = ''meta''"
definition CF_VERSIONS :: string where "CF_VERSIONS = ''versions''"
definition CF_CATALOG :: string where "CF_CATALOG = ''catalog''"

definition ALL_CFS :: "string list" where
  "ALL_CFS = [CF_DATA, CF_META, CF_VERSIONS, CF_CATALOG]"

datatype storage_error = Rocks string | Serde string

text \<open>The column families that \<open>open\<close> asks for, given those that exist.\<close>

definition open_cf_names :: "string list \<Rightarrow> string list" where
  "open_cf_names existing_cfs = ALL_CFS @ filter (\<lambda>cf. cf \<notin> set ALL_CFS) existing_cfs"

definition encode_versioned_key :: "u32 \<Rightarrow> bytes \<Rightarrow> hlc_timestamp \<Rightarrow> bytes" where
  "encode_versioned_key table_id pk ts = be_bytes 4 (unat table_id) @ pk @ to_be_bytes ts"

definition encode_key_prefix :: "u32 \<Rightarrow> bytes \<Rightarrow> bytes" where
  "encode_key_prefix table_id pk = be_bytes 4 (unat table_id) @ pk"

definition decode_ts_from_key :: "bytes \<Rightarrow> hlc_timestamp option" where
  "decode_ts_from_key key =
     (if length key < 8 then None else Some (from_be_bytes (drop (length key - 8) key)))"

definition decode_pk_from_key :: "bytes \<Rightarrow> bytes option" where
  "decode_pk_from_key key =
     (if length key < 12 then None else Some (take (length key - 8 - 4) (drop 4 key)))"

section \<open>Versioned rows\<close>

definition write_version ::
  "'db rocks \<Rightarrow> u32 \<Rightarrow> bytes \<Rightarrow> hlc_timestamp \<Rightarrow> bytes \<Rightarrow> 'db \<Rightarrow> storage_error + 'db" where
  "write_version r table_id pk ts value d =
     map_err Rocks (rk_put r CF_DATA (encode_versioned_key table_id pk ts) value d)"

definition delete_version ::
  "'db rocks \<Rightarrow> u32 \<Rightarrow> bytes \<Rightarrow> hlc_timestamp \<Rightarrow> 'db \<Rightarrow> storage_error + 'db" where
  "delete_version r table_id pk ts d =
     map_err Rocks (rk_delete r CF_DATA (encode_versioned_key table_id pk ts) d)"

definition write_batch :: "'db rocks \<Rightarrow> batch_op list \<Rightarrow> 'db \<Rightarrow> storage_error + 'db" where
  "write_batch r batch d = map_err Rocks (rk_write r batch d)"

definition read_latest ::
  "'db rocks \<Rightarrow> u32 \<Rightarrow> bytes \<Rightarrow> hlc_timestamp \<Rightarrow> 'db \<Rightarrow> storage_error + bytes option" where
  "read_latest r table_id pk snapshot_ts d =
     (let seek_key = encode_versioned_key table_id pk snapshot_ts;
          prefix = encode_key_prefix table_id pk
      in case rk_seek_for_prev r CF_DATA seek_key d of
           None \<Rightarrow> Inr None
         | Some (k, v) \<Rightarrow> if starts_with k prefix then Inr (Some v) else Inr None)"

definition latest_visible_ts_any ::
  "'db rocks \<Rightarrow> u32 \<Rightarrow> bytes \<Rightarrow> 'db \<Rightarrow> storage_error + hlc_timestamp option" where
  "latest_visible_ts_any r table_id pk d =
     (let seek_key = encode_versioned_key table_id pk HLC_MAX;
          prefix = encode_key_prefix table_id pk
      in case rk_seek_for_prev r CF_DATA seek_key d of
           None \<Rightarrow> Inr None
         | Some (k, v) \<Rightarrow>
             if \<not> starts_with k prefix then Inr None else Inr (decode_ts_from_key k))"

text \<open>The body of the scan loop for a key of the table: the last primary key seen and the rows
  collected so far.\<close>

type_synonym versioned_rows = "(bytes \<times> bytes) list"

definition scan_row ::
  "hlc_timestamp \<Rightarrow> bytes \<times> bytes \<Rightarrow> bytes option \<times> versioned_rows \<Rightarrow> bytes option \<times> versioned_rows" where
  "scan_row snapshot_ts e st =
     (case (e, st) of ((k, v), (last_pk, results)) \<Rightarrow>
        let pk = take (length k - 8 - 4) (drop 4 k);
            row_ts = from_be_bytes (drop (length k - 8) k)
        in if snapshot_ts < row_ts then (last_pk, results)
           else if last_pk = Some pk
           then (last_pk, if results = [] then results
                          else butlast results @ [(fst (last results), v)])
           else (Some pk, results @ [(pk, v)]))"

fun scan_loop ::
  "bytes \<Rightarrow> hlc_timestamp \<Rightarrow> (bytes \<times> bytes) list \<Rightarrow> bytes option \<times> versioned_rows \<Rightarrow> versioned_rows" where
  "scan_loop table_prefix snapshot_ts [] st = snd st"
| "scan_loop table_prefix snapshot_ts ((k, v) # rest) st =
     (if length k < 12 \<or> take 4 k \<noteq> table_prefix then snd st
      else scan_loop table_prefix snapshot_ts rest (scan_row snapshot_ts (k, v) st))"

definition scan_table ::
  "'db rocks \<Rightarrow> u32 \<Rightarrow> hlc_timestamp \<Rightarrow> 'db \<Rightarrow> storage_error + versioned_rows" where
  "scan_table r table_id snapshot_ts d =
     (let table_prefix = be_bytes 4 (unat table_id)
      in Inr (scan_loop table_prefix snapshot_ts (rk_seek r CF_DATA table_prefix d) (None, [])))"

definition in_table :: "bytes \<Rightarrow> bytes \<Rightarrow> bool" where
  "in_table table_prefix k \<longleftrightarrow> \<not> (length k < 12 \<or> take 4 k \<noteq> table_prefix)"

definition raw_scan_table_versions ::
  "'db rocks \<Rightarrow> u32 \<Rightarrow> 'db \<Rightarrow> storage_error + versioned_rows" where
  "raw_scan_table_versions r table_id d =
     (let table_prefix = be_bytes 4 (unat table_id)
      in Inr (takeWhile (\<lambda>(k, v). in_table table_prefix k) (rk_seek r CF_DATA table_prefix d)))"

definition clear_table_data :: "'db rocks \<Rightarrow> u32 \<Rightarrow> 'db \<Rightarrow> storage_error + 'db" where
  "clear_table_data r table_id d =
     (let table_prefix = be_bytes 4 (unat table_id);
          keys = map fst (takeWhile (\<lambda>(k, v). in_table table_prefix k)
                   (rk_seek r CF_DATA table_prefix d))
      in map_err Rocks (rk_write r (map (Delete CF_DATA) keys) d))"

section \<open>Catalog entries and index column families\<close>

definition write_catalog_entry ::
  "'db rocks \<Rightarrow> string \<Rightarrow> bytes \<Rightarrow> 'db \<Rightarrow> storage_error + 'db" where
  "write_catalog_entry r name value d = map_err Rocks (rk_put r CF_CATALOG (str_bytes name) value d)"

definition read_catalog_entry ::
  "'db rocks \<Rightarrow> string \<Rightarrow> 'db \<Rightarrow> storage_error + bytes option" where
  "read_catalog_entry r name d = map_err Rocks (rk_get r CF_CATALOG (str_bytes name) d)"

definition delete_catalog_entry :: "'db rocks \<Rightarrow> string \<Rightarrow> 'db \<Rightarrow> storage_error + 'db" where
  "delete_catalog_entry r name d = map_err Rocks (rk_delete r CF_CATALOG (str_bytes name) d)"

definition list_catalog_keys :: "'db rocks \<Rightarrow> 'db \<Rightarrow> storage_error + string list" where
  "list_catalog_keys r d =
     Inr (List.map_filter (\<lambda>(k, v). string_from_utf8 k) (rk_seek r CF_CATALOG [] d))"

definition index_meta_key :: "string \<Rightarrow> string" where
  "index_meta_key index_name = ''__idx:'' @ index_name"

text \<open>\<open>create_cf\<close> takes effect even when writing the catalog entry fails, so the database is
  returned on both paths.\<close>

definition create_index_cf :: "'db rocks \<Rightarrow> string \<Rightarrow> 'db \<Rightarrow> 'db \<times> (storage_error + unit)" where
  "create_index_cf r index_name d =
     (if rk_has_cf r index_name d then (d, Inr ())
      else case rk_create_cf r index_name d of
        Inl e \<Rightarrow> (d, Inl (Rocks e))
      | Inr d1 \<Rightarrow>
          (case write_catalog_entry r (index_meta_key index_name) (str_bytes ''active'') d1 of
             Inl e \<Rightarrow> (d1, Inl e)
           | Inr d2 \<Rightarrow> (d2, Inr ())))"

definition drop_index_cf :: "'db rocks \<Rightarrow> string \<Rightarrow> 'db \<Rightarrow> 'db \<times> (storage_error + unit)" where
  "drop_index_cf r index_name d =
     (if \<not> rk_has_cf r index_name d then (d, Inr ())
      else case rk_drop_cf r index_name d of
        Inl e \<Rightarrow> (d, Inl (Rocks e))
      | Inr d1 \<Rightarrow>
          (case delete_catalog_entry r (index_meta_key index_name) d1 of
             Inl e \<Rightarrow> (d1, Inl e)
           | Inr d2 \<Rightarrow> (d2, Inr ())))"

section \<open>The specification of versioned rows\<close>

definition versions :: "contents \<Rightarrow> u32 \<Rightarrow> bytes \<Rightarrow> hlc_timestamp set" where
  "versions m table_id pk =
     {ts. encodable ts \<and> m CF_DATA (encode_versioned_key table_id pk ts) \<noteq> None}"

definition visible :: "contents \<Rightarrow> u32 \<Rightarrow> bytes \<Rightarrow> hlc_timestamp \<Rightarrow> bytes option" where
  "visible m table_id pk snapshot_ts =
     (let s = {ts \<in> versions m table_id pk. ts \<le> snapshot_ts} in
      if s = {} then None else m CF_DATA (encode_versioned_key table_id pk (Max s)))"

lemma visible_empty: "{ts \<in> versions m t pk. ts \<le> snap} = {} \<Longrightarrow> visible m t pk snap = None"
  by (simp add: visible_def)

lemma visible_nonempty:
  "{ts \<in> versions m t pk. ts \<le> snap} \<noteq> {} \<Longrightarrow> visible m t pk snap =
     m CF_DATA (encode_versioned_key t pk (Max {ts \<in> versions m t pk. ts \<le> snap}))"
  by (simp only: visible_def Let_def if_False)

text \<open>All rows of a table have primary keys of one length, as the executors create them.\<close>

definition uniform_pks :: "contents \<Rightarrow> u32 \<Rightarrow> nat \<Rightarrow> bool" where
  "uniform_pks m table_id n \<longleftrightarrow>
     (\<forall>k \<in> dom (m CF_DATA). take 4 k = be_bytes 4 (unat table_id) \<longrightarrow> length k = n + 12)"

section \<open>Key order\<close>

lemma starts_with_Cons [simp]: "starts_with (a # k) (p # P) \<longleftrightarrow> a = p \<and> starts_with k P"
  by (auto simp: starts_with_def)

lemma not_prefix_less:
  "\<not> starts_with k P \<Longrightarrow> k \<le> P @ x \<Longrightarrow> k < P @ (y :: 'a::linorder list)"
proof (induction P arbitrary: k)
  case (Cons p P)
  then show ?case by (cases k) auto
qed simp

lemma prefix_between:
  "starts_with k P \<Longrightarrow> P \<le> j \<Longrightarrow> j \<le> k \<Longrightarrow> starts_with j (P :: 'a::linorder list)"
proof (rule ccontr)
  assume *: "starts_with k P" "P \<le> j" "j \<le> k" "\<not> starts_with j P"
  then obtain x where "k = P @ x" by (auto simp: starts_with_iff)
  with * not_prefix_less [of j P x "[]"] show False by simp
qed

lemma to_from_be_bytes:
  assumes "length bs = 8"
  shows "to_be_bytes (from_be_bytes bs) = bs"
proof -
  have "be_value bs < 2 ^ 64" using be_value_less [of bs] assms by simp
  then have "unat (of_nat (be_value bs) :: u64) = be_value bs" by (simp add: unat_of_nat)
  then show ?thesis
    using be_bytes_be_value [of bs] assms by (simp add: to_be_bytes_def from_be_bytes_def)
qed

lemma encodable_from_be_bytes [simp]: "encodable (from_be_bytes bs)"
  by (simp add: from_be_bytes_def)

lemma length_versioned_key [simp]: "length (encode_versioned_key t pk ts) = length pk + 12"
  by (simp add: encode_versioned_key_def)

lemma versioned_key_prefix [simp]:
  "starts_with (encode_versioned_key t pk ts) (encode_key_prefix t pk)"
  "take 4 (encode_versioned_key t pk ts) = be_bytes 4 (unat t)"
  "take 4 (encode_key_prefix t pk) = be_bytes 4 (unat t)"
  by (simp_all add: encode_versioned_key_def encode_key_prefix_def starts_with_def)

lemma unat_u32_less: "unat (v :: u32) < 256 ^ 4"
  using unsigned_less [of v, where 'a = nat] by simp

lemma u32_bytes_eq_iff: "be_bytes 4 (unat t) = be_bytes 4 (unat t') \<longleftrightarrow> t = (t' :: u32)"
  unfolding be_bytes_eq_iff [OF unat_u32_less unat_u32_less] by (simp add: word_unat_eq_iff)

lemma versioned_key_eq_iff:
  assumes "encodable ts" "encodable ts'"
  shows "encode_versioned_key t pk ts = encode_versioned_key t' pk' ts' \<longleftrightarrow>
    t = t' \<and> pk = pk' \<and> ts = ts'"
proof
  assume e: "encode_versioned_key t pk ts = encode_versioned_key t' pk' ts'"
  then have "t = t'" "pk @ to_be_bytes ts = pk' @ to_be_bytes ts'"
    using append_eq_append_conv [of "be_bytes 4 (unat t)" "be_bytes 4 (unat t')"]
    by (simp_all add: encode_versioned_key_def u32_bytes_eq_iff)
  moreover have "length pk = length pk'"
    using arg_cong [OF e, where f = length] by simp
  ultimately show "t = t' \<and> pk = pk' \<and> ts = ts'"
    using assms by (simp add: to_be_bytes_eq_iff)
qed simp

lemma versioned_key_less_iff:
  assumes "encodable ts" "encodable ts'" "length pk = length pk'"
  shows "encode_versioned_key t pk ts < encode_versioned_key t pk' ts' \<longleftrightarrow>
    pk < pk' \<or> pk = pk' \<and> ts < ts'"
  using assms by (simp add: encode_versioned_key_def append_less_append to_be_bytes_less_iff)

lemma key_of_table:
  assumes "take 4 k = be_bytes 4 (unat t)" "length k = n + 12"
  shows "k = encode_versioned_key t (take n (drop 4 k)) (from_be_bytes (drop (n + 4) k))"
proof -
  have "to_be_bytes (from_be_bytes (drop (n + 4) k)) = drop (n + 4) k"
    using assms(2) by (intro to_from_be_bytes) simp
  moreover have "k = take 4 k @ take n (drop 4 k) @ drop (n + 4) k"
    by (metis add.commute append_take_drop_id drop_drop)
  ultimately show ?thesis
    using assms(1) by (simp add: encode_versioned_key_def)
qed

lemma key_with_prefix:
  assumes "starts_with k (encode_key_prefix t pk)" "length k = length pk + 12"
  shows "k = encode_versioned_key t pk (from_be_bytes (drop (length pk + 4) k))"
proof -
  have "take 4 k = be_bytes 4 (unat t)" "take (length pk) (drop 4 k) = pk"
    using assms(1) by (auto simp: starts_with_iff encode_key_prefix_def)
  then show ?thesis using key_of_table [OF _ assms(2)] by simp
qed

lemma prefix_take4: "starts_with k (encode_key_prefix t pk) \<Longrightarrow> take 4 k = be_bytes 4 (unat t)"
  by (auto simp: starts_with_iff encode_key_prefix_def)

lemma decode_versioned_key [simp]:
  assumes "encodable ts"
  shows "decode_ts_from_key (encode_versioned_key t pk ts) = Some ts"
    "decode_pk_from_key (encode_versioned_key t pk ts) = Some pk"
proof -
  have "drop (length pk + 4) (encode_versioned_key t pk ts) = to_be_bytes ts"
    by (simp add: encode_versioned_key_def)
  then show "decode_ts_from_key (encode_versioned_key t pk ts) = Some ts"
    using assms by (simp add: decode_ts_from_key_def add.commute)
  show "decode_pk_from_key (encode_versioned_key t pk ts) = Some pk"
    by (simp add: decode_pk_from_key_def encode_versioned_key_def)
qed

lemma encodable_MAX [simp]: "encodable HLC_MAX"
  by (simp add: encodable_def HLC_MAX_def unat_drop_bit_eq drop_bit_eq_div [where 'a = nat])

lemma le_MAX: "encodable ts \<Longrightarrow> ts \<le> HLC_MAX"
  using unat_logical_less [of ts]
  by (auto simp: hlc_le_iff word_less_nat_alt word_le_nat_alt word_unat_eq_iff HLC_MAX_def
      encodable_def unat_drop_bit_eq drop_bit_eq_div [where 'a = nat])

section \<open>Point reads\<close>

lemma finite_versions:
  assumes "finite (dom (m CF_DATA))"
  shows "finite (versions m t pk)"
proof (rule finite_imageD)
  show "finite (encode_versioned_key t pk ` versions m t pk)"
    by (rule finite_subset [OF _ assms]) (auto simp: versions_def)
  show "inj_on (encode_versioned_key t pk) (versions m t pk)"
    by (auto simp: inj_on_def versions_def versioned_key_eq_iff)
qed

text \<open>What an iterator finds at or before the key of a snapshot, in a table with keys of one
  length.\<close>

lemma last_version:
  assumes "finite (dom (m CF_DATA))" "uniform_pks m t (length pk)" "encodable snap"
  defines "s \<equiv> {ts \<in> versions m t pk. ts \<le> snap}"
  shows "case last_at_most (m CF_DATA) (encode_versioned_key t pk snap) of
      None \<Rightarrow> s = {}
    | Some (k, v) \<Rightarrow> if starts_with k (encode_key_prefix t pk)
        then s \<noteq> {} \<and> k = encode_versioned_key t pk (Max s) \<and> m CF_DATA k = Some v else s = {}"
proof -
  let ?key = "encode_versioned_key t pk" and ?P = "encode_key_prefix t pk"
  define ks where "ks = {x \<in> dom (m CF_DATA). x \<le> ?key snap}"
  have fin: "finite ks" "finite s"
    using assms(1) finite_versions [of m, OF assms(1)] by (simp_all add: ks_def s_def)
  have in_ks: "?key ts \<in> ks" if "ts \<in> s" for ts
    using that assms(3)
    by (auto simp: ks_def s_def versions_def versioned_key_less_iff le_less)
  have from_ks: "\<exists>ts \<in> s. k = ?key ts" if "k \<in> ks" "starts_with k ?P" for k
  proof -
    let ?ts = "from_be_bytes (drop (length pk + 4) k)"
    have "length k = length pk + 12"
      using that assms(2) prefix_take4 [OF that(2)] by (auto simp: ks_def uniform_pks_def)
    then have "k = ?key ?ts" using that(2) by (rule key_with_prefix [rotated])
    moreover have "?ts \<in> s"
    proof -
      have "?key ?ts \<in> dom (m CF_DATA)" "?key ?ts \<le> ?key snap"
        using that(1) \<open>k = ?key ?ts\<close> by (simp_all add: ks_def)
      then show ?thesis
        using assms(3)
        by (auto simp: s_def versions_def le_less versioned_key_less_iff versioned_key_eq_iff)
    qed
    ultimately show ?thesis by blast
  qed
  show ?thesis
  proof (cases "s = {}")
    case True
    then have "\<not> starts_with k ?P" if "k \<in> ks" for k using from_ks that by blast
    then show ?thesis
      using True Max_in [OF fin(1)] by (auto simp: last_at_most_def Let_def ks_def [symmetric])
  next
    case False
    have "Max ks = ?key (Max s)"
    proof (rule Max_eqI [OF fin(1)])
      show "?key (Max s) \<in> ks" using in_ks Max_in [OF fin(2) False] by blast
      fix k assume k: "k \<in> ks"
      show "k \<le> ?key (Max s)"
      proof (cases "starts_with k ?P")
        case True
        then obtain ts where "ts \<in> s" "k = ?key ts" using from_ks k by blast
        moreover have "encodable ts" "encodable (Max s)"
          using \<open>ts \<in> s\<close> Max_in [OF fin(2) False] by (auto simp: s_def versions_def)
        ultimately show ?thesis
          using Max_ge [OF fin(2)] by (auto simp: le_less versioned_key_less_iff)
      next
        case F: False
        have "k \<le> ?P @ to_be_bytes snap"
          using k by (simp add: ks_def encode_versioned_key_def encode_key_prefix_def)
        from not_prefix_less [OF F this, of "to_be_bytes (Max s)"] show ?thesis
          by (simp add: encode_versioned_key_def encode_key_prefix_def)
      qed
    qed
    moreover have "ks \<noteq> {}" using in_ks False by blast
    moreover have "m CF_DATA (?key (Max s)) \<noteq> None"
      using Max_in [OF fin(2) False] by (simp add: s_def versions_def)
    ultimately show ?thesis
      using False by (auto simp: last_at_most_def Let_def ks_def [symmetric])
  qed
qed

section \<open>Scans\<close>

definition long_keys :: "contents \<Rightarrow> u32 \<Rightarrow> bool" where
  "long_keys m table_id \<longleftrightarrow>
     (\<forall>k \<in> dom (m CF_DATA). take 4 k = be_bytes 4 (unat table_id) \<longrightarrow> 12 \<le> length k)"

lemma uniform_long: "uniform_pks m t n \<Longrightarrow> long_keys m t"
  by (auto simp: uniform_pks_def long_keys_def)

definition table_keys :: "contents \<Rightarrow> u32 \<Rightarrow> bytes set" where
  "table_keys m table_id = {k \<in> dom (m CF_DATA). in_table (be_bytes 4 (unat table_id)) k}"

lemma take_prefix_iff: "length P = 4 \<Longrightarrow> take 4 k = P \<longleftrightarrow> starts_with k P"
  by (simp add: starts_with_def)

lemma takeWhile_table:
  assumes "sorted ks" "\<forall>k \<in> set ks. P \<le> k \<and> (take 4 k = P \<longrightarrow> 12 \<le> length k)" "length P = 4"
  shows "takeWhile (in_table P) ks = filter (in_table P) ks"
  using assms(1,2)
proof (induction ks)
  case (Cons k ks)
  have "filter (in_table P) ks = []" if "\<not> in_table P k"
  proof (rule filter_False, rule ballI)
    fix j assume j: "j \<in> set ks"
    show "\<not> in_table P j"
    proof
      assume "in_table P j"
      then have "starts_with k P"
        using j Cons.prems prefix_between [of j P k] assms(3)
        by (simp add: in_table_def take_prefix_iff)
      with that Cons.prems(2) assms(3) show False by (auto simp: in_table_def take_prefix_iff)
    qed
  qed
  with Cons show ?case by simp
qed simp

lemma prefix_le: "starts_with k P \<Longrightarrow> P \<le> (k :: 'a::linorder list)"
proof (induction P arbitrary: k)
  case (Cons p P)
  then show ?case by (cases k) auto
qed simp

lemma takeWhile_fst: "takeWhile (\<lambda>(k, v). Q k) (map (\<lambda>x. (x, f x)) ks) = map (\<lambda>x. (x, f x)) (takeWhile Q ks)"
  by (induction ks) auto

lemma table_pairs:
  assumes "finite (dom (m CF_DATA))" "long_keys m t"
  shows "takeWhile (\<lambda>(k, v). in_table (be_bytes 4 (unat t)) k)
      (pairs_from (m CF_DATA) (be_bytes 4 (unat t))) =
    map (\<lambda>k. (k, the (m CF_DATA k))) (sorted_list_of_set (table_keys m t))"
proof -
  let ?P = "be_bytes 4 (unat t)"
  let ?all = "sorted_list_of_set (dom (m CF_DATA))"
  have "takeWhile (in_table ?P) (filter (\<lambda>x. ?P \<le> x) ?all) =
      filter (in_table ?P) (filter (\<lambda>x. ?P \<le> x) ?all)"
    using assms by (intro takeWhile_table) (auto simp: long_keys_def sorted_wrt_filter)
  also have "\<dots> = filter (in_table ?P) ?all"
    by (auto simp: in_table_def take_prefix_iff prefix_le intro!: filter_cong)
  also have "\<dots> = sorted_list_of_set (table_keys m t)"
    by (rule sorted_distinct_set_unique)
      (use assms(1) in \<open>auto simp: table_keys_def sorted_wrt_filter\<close>)
  finally show ?thesis by (simp add: pairs_from_def takeWhile_fst)
qed

lemma scan_loop_fold:
  "scan_loop P snap es st =
     snd (fold (scan_row snap) (takeWhile (\<lambda>(k, v). in_table P k) es) st)"
  by (induction P snap es st rule: scan_loop.induct) (auto simp: in_table_def)

text \<open>Decoded rows of a table, and what the scan should return for them.\<close>

type_synonym version_row = "bytes \<times> hlc_timestamp \<times> bytes"

definition row_entry :: "u32 \<Rightarrow> version_row \<Rightarrow> bytes \<times> bytes" where
  "row_entry t x = (case x of (pk, ts, v) \<Rightarrow> (encode_versioned_key t pk ts, v))"

definition row_before :: "version_row \<Rightarrow> version_row \<Rightarrow> bool" where
  "row_before a b \<longleftrightarrow> fst a < fst b \<or> fst a = fst b \<and> fst (snd a) < fst (snd b)"

definition newest :: "version_row list \<Rightarrow> hlc_timestamp \<Rightarrow> bytes \<Rightarrow> bytes \<Rightarrow> bool" where
  "newest xs snap pk v \<longleftrightarrow> (\<exists>ts. (pk, ts, v) \<in> set xs \<and> ts \<le> snap \<and>
     (\<forall>ts' v'. (pk, ts', v') \<in> set xs \<longrightarrow> ts' \<le> snap \<longrightarrow> ts' \<le> ts))"

lemma scan_row_entry:
  assumes "encodable ts"
  shows "scan_row snap (row_entry t (pk, ts, v)) (l, res) =
    (if snap < ts then (l, res)
     else if l = Some pk then (l, if res = [] then res else butlast res @ [(fst (last res), v)])
     else (Some pk, res @ [(pk, v)]))"
proof -
  have "drop (length pk + 4) (encode_versioned_key t pk ts) = to_be_bytes ts"
    "take (length pk) (drop 4 (encode_versioned_key t pk ts)) = pk"
    by (simp_all add: encode_versioned_key_def)
  then show ?thesis
    using assms by (simp add: scan_row_def row_entry_def add.commute [of 4])
qed

lemma newest_snoc:
  assumes "sorted_wrt row_before (xs @ [(pk, ts, v)])"
  shows "newest (xs @ [(pk, ts, v)]) snap pk' v' \<longleftrightarrow>
    (if pk' = pk \<and> ts \<le> snap then v' = v else newest xs snap pk' v')"
proof (cases "pk' = pk \<and> ts \<le> snap")
  case True
  have "ts' < ts" if "(pk, ts', w) \<in> set xs" for ts' w
    using assms that by (auto simp: sorted_wrt_append row_before_def)
  then have old: "ts' < ts" if "(pk, ts', w) \<in> set xs" for ts' w using that by blast
  show ?thesis
  proof
    assume "newest (xs @ [(pk, ts, v)]) snap pk' v'"
    then obtain u where u: "(pk, u, v') \<in> set (xs @ [(pk, ts, v)])"
      "\<forall>ts' v'. (pk, ts', v') \<in> set (xs @ [(pk, ts, v)]) \<longrightarrow> ts' \<le> snap \<longrightarrow> ts' \<le> u"
      unfolding newest_def using True by blast
    have "ts \<le> u" using u(2) True by auto
    then have "(pk, u, v') \<notin> set xs" using old by (auto dest: leD)
    then show "if pk' = pk \<and> ts \<le> snap then v' = v else newest xs snap pk' v'"
      using u(1) True by simp
  next
    assume "if pk' = pk \<and> ts \<le> snap then v' = v else newest xs snap pk' v'"
    then have "v' = v" using True by simp
    then show "newest (xs @ [(pk, ts, v)]) snap pk' v'"
      using True old unfolding newest_def by (auto intro!: exI [of _ ts] dest: less_imp_le)
  qed
next
  case False
  then show ?thesis by (auto simp: newest_def)
qed

lemma newest_exists:
  assumes "(pk, ts, v) \<in> set xs" "ts \<le> snap"
  shows "\<exists>w. newest xs snap pk w"
proof -
  let ?S = "{ts'. ts' \<le> snap \<and> (\<exists>w. (pk, ts', w) \<in> set xs)}"
  have fin: "finite ?S"
    by (rule finite_subset [of _ "(fst \<circ> snd) ` set xs"]) force+
  have "?S \<noteq> {}" using assms by blast
  then have "Max ?S \<in> ?S" using Max_in [OF fin] by blast
  moreover have "ts' \<le> Max ?S" if "ts' \<in> ?S" for ts' using Max_ge [OF fin that] .
  ultimately show ?thesis unfolding newest_def by blast
qed

lemma scan_fold:
  assumes "sorted_wrt row_before xs" "\<forall>x \<in> set xs. encodable (fst (snd x))"
  shows "case fold (scan_row snap) (map (row_entry t) xs) (None, []) of (l, res) \<Rightarrow>
    l = (if res = [] then None else Some (fst (last res))) \<and> sorted_wrt (<) (map fst res) \<and>
    (\<forall>pk v. (pk, v) \<in> set res \<longleftrightarrow> newest xs snap pk v)"
  using assms
proof (induction xs rule: rev_induct)
  case (snoc x xs)
  obtain pk ts v where x: "x = (pk, ts, v)" by (cases x)
  obtain l res where st: "fold (scan_row snap) (map (row_entry t) xs) (None, []) = (l, res)"
    by fastforce
  have xs: "sorted_wrt row_before xs" "\<forall>x \<in> set xs. encodable (fst (snd x))" "encodable ts"
    using snoc.prems x by (simp_all add: sorted_wrt_append)
  have IH: "l = (if res = [] then None else Some (fst (last res)))" "sorted_wrt (<) (map fst res)"
    "\<And>pk v. (pk, v) \<in> set res \<longleftrightarrow> newest xs snap pk v"
    using snoc.IH [OF xs(1,2)] st by simp_all
  note new = newest_snoc [OF snoc.prems(1) [unfolded x], of snap]
  have le: "p \<le> pk" if "(p, w) \<in> set res" for p w
    using that IH(3) snoc.prems(1) x by (fastforce simp: newest_def sorted_wrt_append row_before_def)
  consider "snap < ts" | "ts \<le> snap" "l = Some pk" | "ts \<le> snap" "l \<noteq> Some pk" by force
  then show ?case
  proof cases
    case 1
    then have "\<not> ts \<le> snap" by simp
    then show ?thesis using 1 IH st xs(3) by (simp add: x scan_row_entry new)
  next
    case 2
    then obtain rs w where res: "res = rs @ [(pk, w)]"
      using IH(1) by (metis append_butlast_last_id option.distinct(1) option.inject prod.collapse)
    have "p \<noteq> pk" if "(p, u) \<in> set rs" for p u
      using that IH(2) res by (fastforce simp: sorted_wrt_append)
    then have mem: "(p, u) \<in> set (rs @ [(pk, v)]) \<longleftrightarrow> newest (xs @ [x]) snap p u" for p u
      using IH(3) [of p u] res 2(1) unfolding x new by auto
    have "fold (scan_row snap) (map (row_entry t) (xs @ [x])) (None, []) = (Some pk, rs @ [(pk, v)])"
      using st 2 res xs(3) by (simp add: x scan_row_entry leD)
    then show ?thesis using IH(2) res mem by simp
  next
    case 3
    have below: "p < pk" if pu: "(p, u) \<in> set res" for p u
    proof (rule ccontr)
      assume "\<not> p < pk"
      then have p: "p = pk" using le [OF pu] by simp
      have "res \<noteq> []" using pu by auto
      then have "fst (last res) \<noteq> pk" using IH(1) 3(2) by auto
      moreover have "last res \<in> set res" using \<open>res \<noteq> []\<close> by simp
      ultimately have "fst (last res) < pk" using le [of "fst (last res)" "snd (last res)"] by simp
      moreover have "pk \<le> fst (last res)"
      proof -
        obtain i where i: "i < length res" "res ! i = (pk, u)"
          using pu p by (auto simp: in_set_conv_nth)
        show ?thesis
        proof (cases "i = length res - 1")
          case True
          then show ?thesis using i \<open>res \<noteq> []\<close> by (simp add: last_conv_nth)
        next
          case False
          then have "map fst res ! i < map fst res ! (length res - 1)"
            using i(1) by (intro sorted_wrt_nth_less [OF IH(2)]) auto
          then show ?thesis using i \<open>res \<noteq> []\<close> by (simp add: last_conv_nth)
        qed
      qed
      ultimately show False by simp
    qed
    then have "\<not> newest xs snap pk u" for u using IH(3) by blast
    then have mem: "(p, u) \<in> set (res @ [(pk, v)]) \<longleftrightarrow> newest (xs @ [x]) snap p u" for p u
      using IH(3) [of p u] 3(1) unfolding x new by auto
    have "fold (scan_row snap) (map (row_entry t) (xs @ [x])) (None, []) = (Some pk, res @ [(pk, v)])"
      using st 3 xs(3) by (simp add: x scan_row_entry leD)
    moreover have "sorted_wrt (<) (map fst (res @ [(pk, v)]))"
      using IH(2) below by (auto simp: sorted_wrt_append)
    ultimately show ?thesis using mem by simp
  qed
qed (simp add: newest_def)

text \<open>The stored entries of a table are the entries of its decoded rows.\<close>

definition table_rows :: "contents \<Rightarrow> u32 \<Rightarrow> nat \<Rightarrow> version_row list" where
  "table_rows m t n = map (\<lambda>k. (take n (drop 4 k), from_be_bytes (drop (n + 4) k), the (m CF_DATA k)))
     (sorted_list_of_set (table_keys m t))"

lemma table_rows:
  assumes "finite (dom (m CF_DATA))" "uniform_pks m t n"
  shows "map (row_entry t) (table_rows m t n) =
      map (\<lambda>k. (k, the (m CF_DATA k))) (sorted_list_of_set (table_keys m t))"
    and "sorted_wrt row_before (table_rows m t n)"
    and "\<forall>x \<in> set (table_rows m t n). encodable (fst (snd x))"
    and "(pk, ts, v) \<in> set (table_rows m t n) \<longleftrightarrow>
      encodable ts \<and> m CF_DATA (encode_versioned_key t pk ts) = Some v \<and> length pk = n"
proof -
  let ?ks = "sorted_list_of_set (table_keys m t)"
  let ?row = "\<lambda>k. (take n (drop 4 k), from_be_bytes (drop (n + 4) k), the (m CF_DATA k))"
  have fin: "finite (table_keys m t)" using assms(1) by (simp add: table_keys_def)
  have key: "encode_versioned_key t (take n (drop 4 k)) (from_be_bytes (drop (n + 4) k)) = k"
    and len: "length k = n + 12" if "k \<in> table_keys m t" for k
    using that assms(2) key_of_table [of k t n]
    by (auto simp: table_keys_def in_table_def uniform_pks_def)
  show "map (row_entry t) (table_rows m t n) = map (\<lambda>k. (k, the (m CF_DATA k))) ?ks"
    using key fin by (auto simp: table_rows_def row_entry_def)
  show "\<forall>x \<in> set (table_rows m t n). encodable (fst (snd x))"
    by (auto simp: table_rows_def)
  have "row_before (?row k) (?row j)" if "k \<in> table_keys m t" "j \<in> table_keys m t" "k < j" for k j
  proof -
    have "encode_versioned_key t (take n (drop 4 k)) (from_be_bytes (drop (n + 4) k)) <
        encode_versioned_key t (take n (drop 4 j)) (from_be_bytes (drop (n + 4) j))"
      using that key by simp
    then show ?thesis
      using that len by (simp add: versioned_key_less_iff row_before_def)
  qed
  moreover have "sorted_wrt (<) ?ks" by (rule strict_sorted_list_of_set)
  ultimately have "sorted_wrt (\<lambda>k j. row_before (?row k) (?row j)) ?ks"
    using fin by (auto intro: sorted_wrt_mono_rel [of _ "(<)"])
  then show "sorted_wrt row_before (table_rows m t n)"
    by (simp add: table_rows_def sorted_wrt_map)
  show "(pk, ts, v) \<in> set (table_rows m t n) \<longleftrightarrow>
      encodable ts \<and> m CF_DATA (encode_versioned_key t pk ts) = Some v \<and> length pk = n"
    (is "?l \<longleftrightarrow> ?r")
  proof
    assume ?l
    then obtain k where k: "k \<in> table_keys m t" "(pk, ts, v) = ?row k"
      using fin by (auto simp: table_rows_def)
    then have "encode_versioned_key t pk ts = k" using key by simp
    moreover have "m CF_DATA k = Some v" using k by (auto simp: table_keys_def)
    ultimately show ?r using k len [OF k(1)] by auto
  next
    assume r: ?r
    let ?k = "encode_versioned_key t pk ts"
    have "?k \<in> table_keys m t" using r by (auto simp: table_keys_def in_table_def)
    then have "?row ?k \<in> set (table_rows m t n)" using fin by (simp add: table_rows_def)
    moreover have "?row ?k = (pk, ts, v)" using r by (simp add: encode_versioned_key_def)
    ultimately show ?l by (simp only:)
  qed
qed

lemma newest_visible:
  assumes "finite (dom (m CF_DATA))" "uniform_pks m t n"
  shows "newest (table_rows m t n) snap pk v \<longleftrightarrow> visible m t pk snap = Some v"
proof -
  let ?s = "{ts \<in> versions m t pk. ts \<le> snap}"
  have fin: "finite ?s" using finite_versions [of m, OF assms(1)] by simp
  have rows: "(\<exists>v. (pk, ts, v) \<in> set (table_rows m t n)) \<longleftrightarrow> ts \<in> versions m t pk" for ts
  proof -
    have "length pk = n" if "m CF_DATA (encode_versioned_key t pk ts) \<noteq> None"
      using that assms(2) by (auto simp: uniform_pks_def dom_def dest!: spec)
    then show ?thesis
      by (auto simp: table_rows(4) [OF assms] versions_def)
  qed
  show ?thesis
  proof
    assume "newest (table_rows m t n) snap pk v"
    then obtain ts where ts: "(pk, ts, v) \<in> set (table_rows m t n)" "ts \<le> snap"
      "\<forall>ts' v'. (pk, ts', v') \<in> set (table_rows m t n) \<longrightarrow> ts' \<le> snap \<longrightarrow> ts' \<le> ts"
      unfolding newest_def by blast
    have "Max ?s = ts"
      using ts rows by (intro Max_eqI [OF fin]) blast+
    moreover have "?s \<noteq> {}" using ts rows by blast
    ultimately show "visible m t pk snap = Some v"
      using ts(1) visible_nonempty by (simp add: table_rows(4) [OF assms])
  next
    assume vis: "visible m t pk snap = Some v"
    then have ne: "?s \<noteq> {}" using visible_empty by (metis option.distinct(1))
    then have "Max ?s \<in> ?s" using Max_in [OF fin] by blast
    moreover have "m CF_DATA (encode_versioned_key t pk (Max ?s)) = Some v"
      using vis visible_nonempty [OF ne] by simp
    ultimately have "(pk, Max ?s, v) \<in> set (table_rows m t n)"
      using rows by (metis (no_types, lifting) assms mem_Collect_eq option.inject table_rows(4))
    moreover have "ts' \<le> Max ?s" if "(pk, ts', w) \<in> set (table_rows m t n)" "ts' \<le> snap" for ts' w
      using that rows by (intro Max_ge [OF fin]) blast
    ultimately show "newest (table_rows m t n) snap pk v"
      using \<open>Max ?s \<in> ?s\<close> unfolding newest_def by blast
  qed
qed

section \<open>The engine over any RocksDB\<close>

context rocks_store begin

lemma read_latest_visible:
  assumes "uniform_pks (view d) t (length pk)" "encodable snap"
  shows "read_latest r t pk snap d = Inr (visible (view d) t pk snap)"
  using last_version [of "view d", OF finite_view assms]
  by (auto simp: read_latest_def Let_def prev_view visible_def split: option.splits if_splits)

lemma latest_ts:
  assumes "uniform_pks (view d) t (length pk)"
  shows "latest_visible_ts_any r t pk d =
    Inr (if versions (view d) t pk = {} then None else Some (Max (versions (view d) t pk)))"
proof -
  have all: "{ts \<in> versions (view d) t pk. ts \<le> HLC_MAX} = versions (view d) t pk"
    by (auto simp: versions_def le_MAX)
  have "Max (versions (view d) t pk) \<in> versions (view d) t pk" if "versions (view d) t pk \<noteq> {}"
    using Max_in [OF finite_versions [of "view d", OF finite_view] that] .
  then have dec: "decode_ts_from_key (encode_versioned_key t pk (Max (versions (view d) t pk))) =
      Some (Max (versions (view d) t pk))" if "versions (view d) t pk \<noteq> {}"
    using that by (intro decode_versioned_key) (auto simp: versions_def)
  show ?thesis
    using last_version [of "view d", OF finite_view assms encodable_MAX] dec
    by (auto simp: latest_visible_ts_any_def Let_def prev_view all split: option.splits if_splits)
qed

lemma raw_scan_keys:
  "long_keys (view d) t \<Longrightarrow> raw_scan_table_versions r t d =
    Inr (map (\<lambda>k. (k, the (view d CF_DATA k))) (sorted_list_of_set (table_keys (view d) t)))"
  by (simp add: raw_scan_table_versions_def seek_view table_pairs [of "view d", OF finite_view])

lemma scan_table_visible:
  assumes "uniform_pks (view d) t n"
  shows "case scan_table r t snap d of
      Inl _ \<Rightarrow> False
    | Inr rows \<Rightarrow> sorted_wrt (<) (map fst rows) \<and>
        (\<forall>pk v. (pk, v) \<in> set rows \<longleftrightarrow> visible (view d) t pk snap = Some v)"
  using scan_fold [OF table_rows(2,3) [of "view d", OF finite_view assms], of snap t]
  by (simp add: scan_table_def scan_loop_fold seek_view
      table_pairs [of "view d", OF finite_view uniform_long [OF assms]]
      table_rows(1) [of "view d", OF finite_view assms]
      newest_visible [of "view d", OF finite_view assms] case_prod_beta)

end

section \<open>A reference database\<close>

text \<open>An association list per column family, with ordered iteration. It serves as the concrete
  RocksDB of the examples.\<close>

record mem_db =
  mem_cfs :: "string list"
  mem_cells :: "(string \<times> bytes \<times> bytes) list"

definition mem_view :: "mem_db \<Rightarrow> contents" where
  "mem_view d cf = map_of (map snd (filter (\<lambda>c. fst c = cf) (mem_cells d)))"

definition mem_keys :: "string \<Rightarrow> mem_db \<Rightarrow> bytes list" where
  "mem_keys cf d = remdups (sort (map (fst \<circ> snd) (filter (\<lambda>c. fst c = cf) (mem_cells d))))"

definition mem_del :: "string \<Rightarrow> bytes \<Rightarrow> mem_db \<Rightarrow> mem_db" where
  "mem_del cf k d = d\<lparr>mem_cells := filter (\<lambda>c. \<not> (fst c = cf \<and> fst (snd c) = k)) (mem_cells d)\<rparr>"

definition mem_put :: "string \<Rightarrow> bytes \<Rightarrow> bytes \<Rightarrow> mem_db \<Rightarrow> mem_db" where
  "mem_put cf k v d = d\<lparr>mem_cells := (cf, k, v) # mem_cells d\<rparr>"

fun mem_op :: "batch_op \<Rightarrow> mem_db \<Rightarrow> mem_db" where
  "mem_op (Put cf k v) = mem_put cf k v"
| "mem_op (Delete cf k) = mem_del cf k"

definition mem_rocks :: "mem_db rocks" where
  "mem_rocks =
     \<lparr>rk_has_cf = (\<lambda>cf d. cf \<in> set (mem_cfs d)),
      rk_create_cf = (\<lambda>cf d. Inr (d\<lparr>mem_cfs := cf # mem_cfs d\<rparr>)),
      rk_drop_cf = (\<lambda>cf d. Inr (d\<lparr>mem_cfs := filter (\<lambda>c. c \<noteq> cf) (mem_cfs d),
                                mem_cells := filter (\<lambda>c. fst c \<noteq> cf) (mem_cells d)\<rparr>)),
      rk_get = (\<lambda>cf k d. Inr (mem_view d cf k)),
      rk_put = (\<lambda>cf k v d. Inr (mem_put cf k v d)),
      rk_delete = (\<lambda>cf k d. Inr (mem_del cf k d)),
      rk_write = (\<lambda>ops d. Inr (fold mem_op ops d)),
      rk_seek = (\<lambda>cf k d. map (\<lambda>x. (x, the (mem_view d cf x))) (filter (\<lambda>x. k \<le> x) (mem_keys cf d))),
      rk_seek_for_prev = (\<lambda>cf k d. case filter (\<lambda>x. x \<le> k) (mem_keys cf d) of
         [] \<Rightarrow> None | xs \<Rightarrow> Some (last xs, the (mem_view d cf (last xs))))\<rparr>"

definition mem_open :: mem_db where
  "mem_open = \<lparr>mem_cfs = open_cf_names [], mem_cells = []\<rparr>"

lemma mem_view_open: "mem_view mem_open = (\<lambda>_. Map.empty)"
  by (simp add: fun_eq_iff mem_view_def mem_open_def)

lemma mem_view_put: "mem_view (mem_put cf k v d) = apply_op (Put cf k v) (mem_view d)"
  by (auto simp: fun_eq_iff mem_view_def mem_put_def)

lemma mem_view_del: "mem_view (mem_del cf k d) = apply_op (Delete cf k) (mem_view d)"
proof -
  have "map_of (map snd (filter (\<lambda>c. \<not> (fst c = cf \<and> fst (snd c) = k) \<and> fst c = cf') cs)) j =
      (if cf' = cf \<and> j = k then None else map_of (map snd (filter (\<lambda>c. fst c = cf') cs)) j)"
    for cs :: "(string \<times> bytes \<times> bytes) list" and cf' j
    by (induction cs) auto
  then show ?thesis by (auto simp: fun_eq_iff mem_view_def mem_del_def conj_commute)
qed

lemma mem_view_write: "mem_view (fold mem_op ops d) = fold apply_op ops (mem_view d)"
proof (induction ops arbitrary: d)
  case (Cons x xs)
  then show ?case by (cases x) (simp_all only: fold_simps comp_def mem_op.simps mem_view_put mem_view_del)
qed simp

lemma mem_keys_set: "sorted_list_of_set (dom (mem_view d cf)) = mem_keys cf d"
proof -
  have "dom (mem_view d cf) = set (mem_keys cf d)"
    by (auto simp: mem_view_def mem_keys_def dom_map_of_conv_image_fst image_comp)
  moreover have "sorted (mem_keys cf d)" "distinct (mem_keys cf d)"
    by (simp_all add: mem_keys_def sorted_remdups)
  ultimately show ?thesis by (simp add: sorted_list_of_set.idem_if_sorted_distinct)
qed

lemma last_is_Max: "xs \<noteq> [] \<Longrightarrow> sorted xs \<Longrightarrow> last xs = Max (set (xs :: 'a::linorder list))"
proof (induction xs rule: rev_induct)
  case (snoc x xs)
  then show ?case by (intro Max_eqI [symmetric]) (auto simp: sorted_append)
qed simp

lemma mem_prev:
  "(case filter (\<lambda>x. x \<le> k) (mem_keys cf d) of
      [] \<Rightarrow> None | xs \<Rightarrow> Some (last xs, the (mem_view d cf (last xs)))) = last_at_most (mem_view d cf) k"
proof -
  let ?xs = "filter (\<lambda>x. x \<le> k) (mem_keys cf d)"
  have keys: "set (mem_keys cf d) = dom (mem_view d cf)"
    by (auto simp: mem_view_def mem_keys_def dom_map_of_conv_image_fst image_comp)
  then have set: "set ?xs = {x \<in> dom (mem_view d cf). x \<le> k}" by auto
  have "sorted ?xs" by (simp add: mem_keys_def sorted_remdups sorted_wrt_filter)
  then have "last ?xs = Max (set ?xs)" if "?xs \<noteq> []" using that by (rule last_is_Max [rotated])
  then have "last_at_most (mem_view d cf) k =
      (if ?xs = [] then None else Some (last ?xs, the (mem_view d cf (last ?xs))))"
    unfolding last_at_most_def Let_def set [symmetric] by (simp only: set_empty split: if_split) simp
  then show ?thesis by (cases ?xs) simp_all
qed

interpretation mem_store_laws: rocks_store mem_rocks mem_view
proof
  show "finite (dom (mem_view d cf))" for d cf
    by (simp add: mem_view_def finite_dom_map_of)
  show "rk_seek mem_rocks cf k d = pairs_from (mem_view d cf) k" for cf k d
    by (simp add: mem_rocks_def pairs_from_def mem_keys_set)
  show "rk_seek_for_prev mem_rocks cf k d = last_at_most (mem_view d cf) k" for cf k d
    using mem_prev [where k = k and cf = cf and d = d] by (simp add: mem_rocks_def)
qed (auto simp: mem_rocks_def mem_view_put mem_view_del mem_view_write)

section \<open>Properties\<close>

text \<open>C13. Point reads are snapshot reads: over any database that keeps RocksDB's contract and a
  table whose primary keys have one length, \<open>read_latest\<close> returns the value of the newest
  version that is not younger than the snapshot, or nothing when there is none; versions of
  other keys and tables are never returned.\<close>

theorem read_latest_correct:
  assumes "rocks_store r view" "uniform_pks (view d) t (length pk)" "encodable snap"
  shows "read_latest r t pk snap d = Inr (visible (view d) t pk snap)"
  using assms by (rule rocks_store.read_latest_visible)

definition sample_db :: mem_db where
  "sample_db = fold mem_op
     [Put CF_DATA (encode_versioned_key 1 [7] (HlcTimestamp 10 0)) [1],
      Put CF_DATA (encode_versioned_key 1 [7] (HlcTimestamp 20 0)) [2],
      Put CF_DATA (encode_versioned_key 1 [8] (HlcTimestamp 15 0)) [3],
      Put CF_DATA (encode_versioned_key 2 [7, 7] (HlcTimestamp 5 0)) [4]] mem_open"

lemmas key_eval =
  encode_versioned_key_def encode_key_prefix_def to_be_bytes_def to_u64_add be_bytes_4 be_bytes_8

lemmas sample_eval =
  sample_db_def mem_rocks_def mem_put_def mem_open_def mem_keys_def mem_view_def mem_del_def
  starts_with_def in_table_def key_eval Let_def

lemma mem_rocks_ops:
  "rk_delete mem_rocks cf k d = Inr (mem_del cf k d)"
  "rk_write mem_rocks ops d = Inr (fold mem_op ops d)"
  by (simp_all add: mem_rocks_def)

lemma sample_db_view:
  "mem_view sample_db CF_DATA =
     [encode_versioned_key 1 [7] (HlcTimestamp 10 0) \<mapsto> [1],
      encode_versioned_key 1 [7] (HlcTimestamp 20 0) \<mapsto> [2],
      encode_versioned_key 1 [8] (HlcTimestamp 15 0) \<mapsto> [3],
      encode_versioned_key 2 [7, 7] (HlcTimestamp 5 0) \<mapsto> [4]]"
  by (simp add: sample_db_def mem_view_put mem_view_open)

lemma sample_db_uniform: "uniform_pks (mem_view sample_db) 1 1"
  by (auto simp: uniform_pks_def sample_db_view be_bytes_eq_iff split: if_splits)

theorem read_latest_correct_witness:
  "read_latest mem_rocks 1 [7] (HlcTimestamp 19 3) sample_db = Inr (Some [1]) \<and>
   visible (mem_view sample_db) 1 [7] (HlcTimestamp 19 3) = Some [1]"
proof -
  have "read_latest mem_rocks 1 [7] (HlcTimestamp 19 3) sample_db = Inr (Some [1])" by code_simp
  moreover have "read_latest mem_rocks 1 [7] (HlcTimestamp 19 3) sample_db =
      Inr (visible (mem_view sample_db) 1 [7] (HlcTimestamp 19 3))"
    by (rule read_latest_correct [OF mem_store_laws.rocks_store_axioms])
      (use sample_db_uniform in \<open>simp_all add: encodable_def\<close>)
  ultimately show ?thesis by simp
qed

text \<open>C14. A table scan agrees with point reads: under the same contract it returns the rows in
  strictly increasing key order, without duplicates, and exactly the pairs that \<open>read_latest\<close>
  returns for the snapshot.\<close>

theorem scan_agrees_with_reads:
  assumes "rocks_store r view" "uniform_pks (view d) t n" "encodable snap"
  shows "case scan_table r t snap d of
      Inl _ \<Rightarrow> False
    | Inr rows \<Rightarrow> sorted_wrt (<) (map fst rows) \<and>
        (\<forall>pk v. length pk = n \<longrightarrow> ((pk, v) \<in> set rows \<longleftrightarrow> read_latest r t pk snap d = Inr (Some v)))"
proof -
  have "read_latest r t pk snap d = Inr (visible (view d) t pk snap)" if "length pk = n" for pk
    using rocks_store.read_latest_visible [OF assms(1) _ assms(3)] assms(2) that by simp
  then show ?thesis
    using rocks_store.scan_table_visible [OF assms(1,2), of snap] by (auto split: sum.splits)
qed

theorem scan_agrees_with_reads_witness:
  "scan_table mem_rocks 1 (HlcTimestamp 16 0) sample_db = Inr [([7], [1]), ([8], [3])] \<and>
   read_latest mem_rocks 1 [8] (HlcTimestamp 16 0) sample_db = Inr (Some [3])"
proof -
  have s: "scan_table mem_rocks 1 (HlcTimestamp 16 0) sample_db = Inr [([7], [1]), ([8], [3])]"
    by code_simp
  have "\<forall>pk v. length pk = 1 \<longrightarrow> ((pk, v) \<in> {([7], [1]), ([8], [3])} \<longleftrightarrow>
      read_latest mem_rocks 1 pk (HlcTimestamp 16 0) sample_db = Inr (Some v))"
    using scan_agrees_with_reads [OF mem_store_laws.rocks_store_axioms sample_db_uniform,
        of "HlcTimestamp 16 0"] s by (simp add: encodable_def)
  from this [rule_format, of "[8]" "[3]"] s show ?thesis by simp
qed

text \<open>When keys of different lengths meet in a table, a key can have another one as a prefix;
  then a read of the shorter key can return a value of the longer one, and the conflict check
  can miss a version.\<close>

theorem read_latest_prefix_confusion:
  "case write_version mem_rocks 1 [7] (HlcTimestamp (2 ^ 40) 0) [1] mem_open of
     Inr d \<Rightarrow> (case write_version mem_rocks 1 [7, 0] (HlcTimestamp 9 0) [2] d of
        Inr d' \<Rightarrow> read_latest mem_rocks 1 [7] (HlcTimestamp (2 ^ 39) 0) d = Inr None \<and>
          read_latest mem_rocks 1 [7] (HlcTimestamp (2 ^ 39) 0) d' = Inr (Some [2])
      | Inl _ \<Rightarrow> False)
   | Inl _ \<Rightarrow> False"
  by code_simp

end
