(* ===== verification/Mvcc.thy ===== *)
theory Mvcc
  imports Storage
begin

text \<open>
  The transaction manager of \<open>mvcc.rs\<close> and the garbage collector of \<open>gc.rs\<close> over the storage
  engine.

  The engine, the clock and the set of active snapshots, which the source shares through
  \<open>Arc\<close> and mutexes, are the fields of \<open>txn_manager\<close>. \<open>begin\<close> and \<open>commit\<close> are composed of the
  atomic sections of the source (\<open>begin_tick\<close>, \<open>begin_register\<close>; \<open>commit_check\<close>, the tick,
  \<open>commit_flush\<close>), so that interleavings of those sections can be stated. A poisoned mutex is
  not modelled.
\<close>

section \<open>Transactions\<close>

datatype txn_error = WriteConflict | TxnDone | TxnStorage storage_error

record transaction =
  tx_id :: u64
  tx_snapshot_ts :: hlc_timestamp
  tx_writes :: "(u32 \<times> bytes \<times> bytes) list"
  tx_done :: bool

definition transaction_new :: "hlc_timestamp \<Rightarrow> transaction" where
  "transaction_new ts = \<lparr>tx_id = to_u64 ts, tx_snapshot_ts = ts, tx_writes = [], tx_done = False\<rparr>"

definition tx_write :: "u32 \<Rightarrow> bytes \<Rightarrow> bytes \<Rightarrow> transaction \<Rightarrow> transaction" where
  "tx_write table_id pk value tx =
     tx\<lparr>tx_writes := filter (\<lambda>(tid, p, _). \<not> (tid = table_id \<and> p = pk)) (tx_writes tx) @
        [(table_id, pk, value)]\<rparr>"

definition read_own_write :: "transaction \<Rightarrow> u32 \<Rightarrow> bytes \<Rightarrow> bytes option" where
  "read_own_write tx table_id pk =
     map_option (\<lambda>(_, _, v). v) (find (\<lambda>(tid, p, _). tid = table_id \<and> p = pk) (rev (tx_writes tx)))"

record 'db txn_manager =
  tm_engine :: 'db
  tm_clock :: hlc_clock
  active_snapshots :: "u64 set"

definition tm_new :: "'db \<Rightarrow> hlc_clock \<Rightarrow> 'db txn_manager" where
  "tm_new d c = \<lparr>tm_engine = d, tm_clock = c, active_snapshots = {}\<rparr>"

definition begin_tick :: "u64 \<Rightarrow> 'db txn_manager \<Rightarrow> 'db txn_manager \<times> hlc_timestamp" where
  "begin_tick wall tm = (case tick wall (tm_clock tm) of (c, ts) \<Rightarrow> (tm\<lparr>tm_clock := c\<rparr>, ts))"

definition begin_register :: "hlc_timestamp \<Rightarrow> 'db txn_manager \<Rightarrow> 'db txn_manager \<times> transaction" where
  "begin_register ts tm =
     (tm\<lparr>active_snapshots := insert (to_u64 ts) (active_snapshots tm)\<rparr>, transaction_new ts)"

definition tm_begin :: "u64 \<Rightarrow> 'db txn_manager \<Rightarrow> 'db txn_manager \<times> transaction" where
  "tm_begin wall tm = (case begin_tick wall tm of (tm', ts) \<Rightarrow> begin_register ts tm')"

definition next_timestamp :: "u64 \<Rightarrow> 'db txn_manager \<Rightarrow> 'db txn_manager \<times> u64" where
  "next_timestamp wall tm =
     (case tick wall (tm_clock tm) of (c, ts) \<Rightarrow> (tm\<lparr>tm_clock := c\<rparr>, to_u64 ts))"

definition has_conflicting_version ::
  "'db rocks \<Rightarrow> 'db txn_manager \<Rightarrow> u32 \<Rightarrow> bytes \<Rightarrow> hlc_timestamp \<Rightarrow> txn_error + bool" where
  "has_conflicting_version r tm table_id pk snapshot_ts =
     rbind (map_err TxnStorage (latest_visible_ts_any r table_id pk (tm_engine tm))) (\<lambda>latest.
       Inr (case latest of None \<Rightarrow> False | Some ts \<Rightarrow> snapshot_ts < ts))"

definition remove_snapshot :: "u64 \<Rightarrow> 'db txn_manager \<Rightarrow> 'db txn_manager" where
  "remove_snapshot i tm = tm\<lparr>active_snapshots := active_snapshots tm - {i}\<rparr>"

text \<open>The conflict loop: the first conflicting or failing key decides.\<close>

fun commit_check ::
  "'db rocks \<Rightarrow> 'db txn_manager \<Rightarrow> hlc_timestamp \<Rightarrow> (u32 \<times> bytes \<times> bytes) list \<Rightarrow> txn_error + bool" where
  "commit_check r tm snapshot_ts [] = Inr False"
| "commit_check r tm snapshot_ts ((table_id, pk, _) # ws) =
     rbind (has_conflicting_version r tm table_id pk snapshot_ts) (\<lambda>conflict.
       if conflict then Inr True else commit_check r tm snapshot_ts ws)"

definition commit_batch :: "hlc_timestamp \<Rightarrow> (u32 \<times> bytes \<times> bytes) list \<Rightarrow> batch_op list" where
  "commit_batch commit_ts ws =
     map (\<lambda>(table_id, pk, value). Put CF_DATA (encode_versioned_key table_id pk commit_ts) value) ws"

definition commit_flush ::
  "'db rocks \<Rightarrow> hlc_timestamp \<Rightarrow> transaction \<Rightarrow> 'db txn_manager \<Rightarrow>
   'db txn_manager \<times> (txn_error + hlc_timestamp)" where
  "commit_flush r commit_ts tx tm =
     (case write_batch r (commit_batch commit_ts (tx_writes tx)) (tm_engine tm) of
        Inl e \<Rightarrow> (tm, Inl (TxnStorage e))
      | Inr d \<Rightarrow> (remove_snapshot (tx_id tx) (tm\<lparr>tm_engine := d\<rparr>), Inr commit_ts))"

definition tm_commit ::
  "'db rocks \<Rightarrow> u64 \<Rightarrow> transaction \<Rightarrow> 'db txn_manager \<Rightarrow> 'db txn_manager \<times> (txn_error + hlc_timestamp)" where
  "tm_commit r wall tx tm =
     (if tx_done tx then (tm, Inl TxnDone)
      else case commit_check r tm (tx_snapshot_ts tx) (tx_writes tx) of
        Inl e \<Rightarrow> (tm, Inl e)
      | Inr True \<Rightarrow> (remove_snapshot (tx_id tx) tm, Inl WriteConflict)
      | Inr False \<Rightarrow>
          (case begin_tick wall tm of (tm', commit_ts) \<Rightarrow> commit_flush r commit_ts tx tm'))"

definition tm_rollback :: "transaction \<Rightarrow> 'db txn_manager \<Rightarrow> 'db txn_manager" where
  "tm_rollback tx tm = (if \<not> tx_done tx then remove_snapshot (tx_id tx) tm else tm)"

definition tm_read ::
  "'db rocks \<Rightarrow> transaction \<Rightarrow> u32 \<Rightarrow> bytes \<Rightarrow> 'db txn_manager \<Rightarrow> txn_error + bytes option" where
  "tm_read r tx table_id pk tm =
     (case read_own_write tx table_id pk of
        Some v \<Rightarrow> Inr (Some v)
      | None \<Rightarrow> map_err TxnStorage (read_latest r table_id pk (tx_snapshot_ts tx) (tm_engine tm)))"

section \<open>Garbage collection\<close>

definition safe_horizon :: "u64 set \<Rightarrow> hlc_timestamp" where
  "safe_horizon snaps = (if snaps = {} then HLC_MAX else from_u64 (Min snaps))"

text \<open>The decoded keys of a table grouped by primary key, each group in time order.\<close>

definition decoded_versions :: "versioned_rows \<Rightarrow> (bytes \<times> hlc_timestamp \<times> bytes) list" where
  "decoded_versions rows = List.map_filter (\<lambda>(key, _).
     case (decode_pk_from_key key, decode_ts_from_key key) of
       (Some pk, Some ts) \<Rightarrow> Some (pk, ts, key)
     | _ \<Rightarrow> None) rows"

definition by_pk :: "versioned_rows \<Rightarrow> (hlc_timestamp \<times> bytes) list list" where
  "by_pk rows =
     (let vs = decoded_versions rows in
      map (\<lambda>pk. map snd (filter (\<lambda>v. fst v = pk) vs)) (remdups (sort (map fst vs))))"

text \<open>What is deleted of one group: everything at or below the horizon but the newest of it.\<close>

definition collectable :: "hlc_timestamp \<Rightarrow> (hlc_timestamp \<times> bytes) list \<Rightarrow> (bytes \<times> hlc_timestamp) list" where
  "collectable horizon vs =
     (let below_horizon = filter (\<lambda>(ts, _). ts \<le> horizon) (sort_key fst vs) in
      if length below_horizon \<le> 1 then []
      else List.map_filter (\<lambda>(ts, raw_key). map_option (\<lambda>pk. (pk, ts)) (decode_pk_from_key raw_key))
             (take (length below_horizon - 1) below_horizon))"

fun delete_versions ::
  "'db rocks \<Rightarrow> u32 \<Rightarrow> (bytes \<times> hlc_timestamp) list \<Rightarrow> nat \<Rightarrow> 'db \<Rightarrow> 'db \<times> (storage_error + nat)" where
  "delete_versions r table_id [] deleted d = (d, Inr deleted)"
| "delete_versions r table_id ((pk, ts) # xs) deleted d =
     (case delete_version r table_id pk ts d of
        Inl e \<Rightarrow> (d, Inl e)
      | Inr d' \<Rightarrow> delete_versions r table_id xs (deleted + 1) d')"

definition gc_table ::
  "'db rocks \<Rightarrow> u32 \<Rightarrow> hlc_timestamp \<Rightarrow> 'db \<Rightarrow> 'db \<times> (storage_error + nat)" where
  "gc_table r table_id horizon d =
     (case raw_scan_table_versions r table_id d of
        Inl e \<Rightarrow> (d, Inl e)
      | Inr rows \<Rightarrow>
          if rows = [] then (d, Inr 0)
          else delete_versions r table_id (concat (map (collectable horizon) (by_pk rows))) 0 d)"

record gc_stats =
  gc_safe_horizon :: hlc_timestamp
  versions_deleted :: nat

fun gc_tables ::
  "'db rocks \<Rightarrow> hlc_timestamp \<Rightarrow> u32 list \<Rightarrow> nat \<Rightarrow> 'db \<Rightarrow> 'db \<times> (storage_error + nat)" where
  "gc_tables r horizon [] deleted d = (d, Inr deleted)"
| "gc_tables r horizon (t # ts) deleted d =
     (case gc_table r t horizon d of
        (d', Inl e) \<Rightarrow> (d', Inl e)
      | (d', Inr n) \<Rightarrow> gc_tables r horizon ts (deleted + n) d')"

definition run_once ::
  "'db rocks \<Rightarrow> u32 list \<Rightarrow> 'db txn_manager \<Rightarrow> 'db txn_manager \<times> (storage_error + gc_stats)" where
  "run_once r table_ids tm =
     (let horizon = safe_horizon (active_snapshots tm) in
      case gc_tables r horizon table_ids 0 (tm_engine tm) of
        (d, Inl e) \<Rightarrow> (tm\<lparr>tm_engine := d\<rparr>, Inl e)
      | (d, Inr n) \<Rightarrow> (tm\<lparr>tm_engine := d\<rparr>, Inr \<lparr>gc_safe_horizon = horizon, versions_deleted = n\<rparr>))"

definition discover_table_ids :: "'db rocks \<Rightarrow> 'db \<Rightarrow> storage_error + u32 list" where
  "discover_table_ids r d =
     Inr (remdups (sort (map (\<lambda>(k, _). of_nat (be_value (take 4 k)))
       (filter (\<lambda>(k, _). 4 \<le> length k) (rk_seek r CF_DATA [] d)))))"

definition run_once_all_tables ::
  "'db rocks \<Rightarrow> 'db txn_manager \<Rightarrow> 'db txn_manager \<times> (storage_error + gc_stats)" where
  "run_once_all_tables r tm =
     (case discover_table_ids r (tm_engine tm) of
        Inl e \<Rightarrow> (tm, Inl e)
      | Inr table_ids \<Rightarrow> run_once r table_ids tm)"

section \<open>Effects on versions\<close>

lemma versionsD:
  "ts \<in> versions m t pk \<Longrightarrow> m CF_DATA (encode_versioned_key t pk ts) \<noteq> None"
  "ts \<in> versions m t pk \<Longrightarrow> encodable ts"
  by (simp_all add: versions_def)

lemma visible_cong:
  assumes "finite (dom (m CF_DATA))" "\<And>ts. encodable ts \<Longrightarrow> ts \<le> snap \<Longrightarrow>
    m' CF_DATA (encode_versioned_key t pk ts) = m CF_DATA (encode_versioned_key t pk ts)"
  shows "visible m' t pk snap = visible m t pk snap"
proof -
  let ?S = "{ts \<in> versions m t pk. ts \<le> snap}"
  have s: "{ts \<in> versions m' t pk. ts \<le> snap} = ?S"
    using assms(2) by (auto simp: versions_def)
  show ?thesis
  proof (cases "?S = {}")
    case True
    then show ?thesis using visible_empty s by metis
  next
    case False
    have "finite ?S" using finite_versions [of m, OF assms(1)] by simp
    then have "Max ?S \<in> ?S" using False by (rule Max_in)
    then have "encodable (Max ?S)" "Max ?S \<le> snap" by (simp_all add: versions_def)
    from assms(2) [OF this] show ?thesis
      using visible_nonempty False s by metis
  qed
qed

text \<open>Deleting versions that are older than the newest one at the horizon changes no read at or
  above the horizon.\<close>

definition superseded :: "contents \<Rightarrow> u32 \<Rightarrow> hlc_timestamp \<Rightarrow> bytes \<Rightarrow> hlc_timestamp \<Rightarrow> bool" where
  "superseded m t horizon pk ts \<longleftrightarrow> ts \<in> versions m t pk \<and>
     (\<exists>u \<in> versions m t pk. u \<le> horizon \<and> ts < u)"

definition keeps_newest :: "contents \<Rightarrow> hlc_timestamp \<Rightarrow> contents \<Rightarrow> bool" where
  "keeps_newest m horizon m' \<longleftrightarrow>
     (\<forall>k. m' CF_DATA k = m CF_DATA k \<or> m' CF_DATA k = None) \<and>
     (\<forall>t pk u. u \<in> versions m t pk \<longrightarrow> u \<in> versions m' t pk \<or>
        (\<exists>u' \<in> versions m' t pk. u < u' \<and> u' \<le> horizon))"

lemma keeps_newest_value:
  "keeps_newest m h m' \<Longrightarrow> m' CF_DATA k = m CF_DATA k \<or> m' CF_DATA k = None"
  by (simp add: keeps_newest_def)

lemma keeps_newest_refl [simp]: "keeps_newest m h m"
  by (simp add: keeps_newest_def)

lemma keeps_newest_trans:
  assumes "keeps_newest a h b" "keeps_newest b h c"
  shows "keeps_newest a h c"
proof -
  have "u \<in> versions c t pk \<or> (\<exists>u' \<in> versions c t pk. u < u' \<and> u' \<le> h)"
    if u: "u \<in> versions a t pk" for u t pk
  proof -
    consider "u \<in> versions b t pk" | u' where "u' \<in> versions b t pk" "u < u'" "u' \<le> h"
      using assms(1) u unfolding keeps_newest_def by blast
    then show ?thesis
    proof cases
      case 2
      then show ?thesis
        using assms(2) unfolding keeps_newest_def by (metis less_trans)
    qed (use assms(2) in \<open>auto simp: keeps_newest_def\<close>)
  qed
  moreover have "c CF_DATA k = a CF_DATA k \<or> c CF_DATA k = None" for k
    using assms unfolding keeps_newest_def by metis
  ultimately show ?thesis unfolding keeps_newest_def by blast
qed

lemma keeps_newest_versions: "keeps_newest m h m' \<Longrightarrow> versions m' t pk \<subseteq> versions m t pk"
  unfolding keeps_newest_def versions_def by (auto, metis option.distinct(1))

lemma keeps_newest_visible:
  assumes "finite (dom (m CF_DATA))" "keeps_newest m h m'" "h \<le> snap"
  shows "visible m' t pk snap = visible m t pk snap"
proof -
  let ?S = "{ts \<in> versions m t pk. ts \<le> snap}" and ?S' = "{ts \<in> versions m' t pk. ts \<le> snap}"
  have sub: "?S' \<subseteq> ?S" using keeps_newest_versions [OF assms(2)] by blast
  have fin: "finite ?S" using finite_versions [of m, OF assms(1)] by simp
  show ?thesis
  proof (cases "?S = {}")
    case True
    then show ?thesis using sub visible_empty subset_empty by metis
  next
    case False
    have top: "Max ?S \<in> ?S" using fin False by (rule Max_in)
    have "Max ?S \<in> versions m' t pk"
    proof (rule ccontr)
      assume "Max ?S \<notin> versions m' t pk"
      then obtain u where "u \<in> versions m' t pk" "Max ?S < u" "u \<le> h"
        using assms(2) top unfolding keeps_newest_def by blast
      then have "u \<in> ?S" using sub assms(3) by auto
      then show False using \<open>Max ?S < u\<close> Max_ge [OF fin] by (simp add: leD)
    qed
    then have mem: "Max ?S \<in> ?S'" using top by simp
    then have "Max ?S' = Max ?S"
      using sub fin by (intro Max_eqI) (auto intro: finite_subset)
    moreover have "m' CF_DATA (encode_versioned_key t pk (Max ?S)) =
        m CF_DATA (encode_versioned_key t pk (Max ?S))"
    proof -
      have "m' CF_DATA (encode_versioned_key t pk (Max ?S)) \<noteq> None"
        using \<open>Max ?S \<in> versions m' t pk\<close> by (rule versionsD)
      then show ?thesis using keeps_newest_value [OF assms(2)] by metis
    qed
    ultimately show ?thesis
      using False mem visible_nonempty empty_iff by metis
  qed
qed

lemma restrict_keeps_newest:
  assumes fin: "finite (dom (m CF_DATA))"
    and K: "\<And>k. k \<in> K \<Longrightarrow> \<exists>pk ts. k = encode_versioned_key t pk ts \<and> superseded m t h pk ts"
    and m': "m' CF_DATA = m CF_DATA |` (- K)"
  shows "keeps_newest m h m'"
proof -
  have "u \<in> versions m' t' pk \<or> (\<exists>u' \<in> versions m' t' pk. u < u' \<and> u' \<le> h)"
    if u: "u \<in> versions m t' pk" for u t' pk
  proof (cases "encode_versioned_key t' pk u \<in> K")
    case True
    let ?B = "{x \<in> versions m t' pk. x \<le> h}"
    obtain pk0 ts where k: "encode_versioned_key t' pk u = encode_versioned_key t pk0 ts"
      "superseded m t h pk0 ts" using K [OF True] by blast
    then have same: "t' = t" "pk0 = pk" "ts = u"
      using u by (auto simp: superseded_def versions_def versioned_key_eq_iff)
    then obtain x where x: "x \<in> ?B" "u < x" using k(2) by (auto simp: superseded_def)
    have finB: "finite ?B" using finite_versions [of m, OF fin] by simp
    then have B: "Max ?B \<in> ?B" "u < Max ?B"
      using Max_in [OF finB] x Max_ge [OF finB x(1)] by (blast, simp add: less_le_trans)
    have "encode_versioned_key t' pk (Max ?B) \<notin> K"
    proof
      assume "encode_versioned_key t' pk (Max ?B) \<in> K"
      then obtain pk1 ts1 where k1: "encode_versioned_key t' pk (Max ?B) = encode_versioned_key t pk1 ts1"
        "superseded m t h pk1 ts1" using K by blast
      then have "pk1 = pk" "ts1 = Max ?B"
        using B(1) by (auto simp: superseded_def versions_def versioned_key_eq_iff)
      then obtain y where "y \<in> ?B" "Max ?B < y" using k1(2) same by (auto simp: superseded_def)
      then show False using Max_ge [OF finB] by (simp add: leD)
    qed
    then have "Max ?B \<in> versions m' t' pk" using B(1) m' by (simp add: versions_def)
    then show ?thesis using B by blast
  next
    case False
    then show ?thesis using u m' by (simp add: versions_def)
  qed
  moreover have "m' CF_DATA k = m CF_DATA k \<or> m' CF_DATA k = None" for k
    using m' by (simp add: restrict_map_def)
  ultimately show ?thesis unfolding keeps_newest_def by blast
qed

lemma keeps_newest_long: "keeps_newest m h m' \<Longrightarrow> long_keys m t \<Longrightarrow> long_keys m' t"
  unfolding keeps_newest_def long_keys_def by (metis domIff)

lemma keeps_newest_uniform: "keeps_newest m h m' \<Longrightarrow> uniform_pks m t n \<Longrightarrow> uniform_pks m' t n"
  unfolding keeps_newest_def uniform_pks_def by (metis domIff)

section \<open>What a collection deletes\<close>

lemma in_table_decodes:
  assumes "in_table (be_bytes 4 (unat t)) k"
  obtains pk ts where "k = encode_versioned_key t pk ts" "encodable ts"
    "decode_pk_from_key k = Some pk" "decode_ts_from_key k = Some ts"
proof -
  let ?n = "length k - 12"
  have "k = encode_versioned_key t (take ?n (drop 4 k)) (from_be_bytes (drop (?n + 4) k))"
    using assms by (intro key_of_table) (auto simp: in_table_def)
  then show ?thesis
    using that decode_versioned_key [of "from_be_bytes (drop (?n + 4) k)" t "take ?n (drop 4 k)"]
    by (metis encodable_from_be_bytes)
qed

lemma decoded_versions_set:
  assumes "\<forall>x \<in> set rows. in_table (be_bytes 4 (unat t)) (fst x)"
  shows "(pk, ts, k) \<in> set (decoded_versions rows) \<longleftrightarrow>
    k \<in> fst ` set rows \<and> k = encode_versioned_key t pk ts \<and> encodable ts"
  (is "?l \<longleftrightarrow> ?r")
proof
  assume ?l
  then obtain v where v: "(k, v) \<in> set rows" "decode_pk_from_key k = Some pk"
    "decode_ts_from_key k = Some ts"
    by (auto simp: decoded_versions_def List.map_filter_def split: option.splits)
  moreover have "in_table (be_bytes 4 (unat t)) k" using v(1) assms by auto
  ultimately show ?r by (elim in_table_decodes) force
next
  assume r: ?r
  then obtain v where "(k, v) \<in> set rows" by auto
  then show ?l
    using r by (force simp: decoded_versions_def List.map_filter_def)
qed

lemma butlast_below_last:
  assumes "sorted_wrt (\<lambda>a b. f a < (f b :: 'a::linorder)) xs" "x \<in> set (take (length xs - 1) xs)"
  shows "f x < f (last xs)" "last xs \<in> set xs"
  using assms by (induction xs rule: rev_induct) (auto simp: sorted_wrt_append)

lemma strictly_sorted_key:
  assumes "distinct (map f xs)"
  shows "sorted_wrt (\<lambda>a b. f a < (f b :: 'a::linorder)) (sort_key f xs)"
proof -
  have "distinct (map f (sort_key f xs))"
    using assms by (metis distinct_map distinct_sort inj_on_cong set_sort)
  then have "sorted_wrt (<) (map f (sort_key f xs))"
    by (simp add: strict_sorted_iff)
  then show ?thesis by (simp add: sorted_wrt_map)
qed

text \<open>The groups of a table are its primary keys with all their versions.\<close>

lemma group_versions:
  assumes "g \<in> set (by_pk (map (\<lambda>k. (k, f k)) (sorted_list_of_set (table_keys m t))))"
    and "finite (dom (m CF_DATA))"
  obtains pk where "set g = (\<lambda>ts. (ts, encode_versioned_key t pk ts)) ` versions m t pk"
    "distinct (map fst g)"
proof -
  let ?rows = "map (\<lambda>k. (k, f k)) (sorted_list_of_set (table_keys m t))"
  have fin: "finite (table_keys m t)" using assms(2) by (simp add: table_keys_def)
  have tab: "\<forall>x \<in> set ?rows. in_table (be_bytes 4 (unat t)) (fst x)"
    using fin by (auto simp: table_keys_def)
  obtain pk where g: "g = map snd (filter (\<lambda>v. fst v = pk) (decoded_versions ?rows))"
    using assms(1) by (auto simp: by_pk_def Let_def)
  have keys: "fst ` set ?rows = table_keys m t" using fin by (simp add: image_image)
  have mem: "(ts, k) \<in> set g \<longleftrightarrow> k \<in> table_keys m t \<and> k = encode_versioned_key t pk ts \<and> encodable ts"
    for ts k
    using decoded_versions_set [OF tab, of pk ts k] keys by (force simp: g)
  have in_t: "encode_versioned_key t pk ts \<in> table_keys m t \<longleftrightarrow>
      m CF_DATA (encode_versioned_key t pk ts) \<noteq> None" for ts
    by (auto simp: table_keys_def in_table_def)
  have "distinct (map (snd \<circ> snd) (decoded_versions ?rows))"
  proof -
    have "map (snd \<circ> snd) (decoded_versions rows) =
        map fst (filter (\<lambda>(k, _). decode_pk_from_key k \<noteq> None \<and> decode_ts_from_key k \<noteq> None) rows)"
      for rows by (induction rows) (auto simp: decoded_versions_def List.map_filter_simps split: option.splits)
    moreover have "distinct (map fst ?rows)" by (simp add: comp_def)
    ultimately show ?thesis by (simp only: distinct_map_filter)
  qed
  then have "distinct (map (snd \<circ> snd) (filter (\<lambda>v. fst v = pk) (decoded_versions ?rows)))"
    by (rule distinct_map_filter)
  then have "distinct (map snd g)" by (simp add: g)
  then have "distinct g" by (simp add: distinct_map)
  moreover have "inj_on fst (set g)" using mem by (auto simp: inj_on_def)
  ultimately have "distinct (map fst g)" by (simp add: distinct_map)
  moreover have "set g = (\<lambda>ts. (ts, encode_versioned_key t pk ts)) ` versions m t pk"
    using mem in_t by (auto simp: versions_def image_iff)
  ultimately show ?thesis using that by blast
qed

lemma collectable_superseded:
  assumes "set g = (\<lambda>ts. (ts, encode_versioned_key t pk ts)) ` versions m t pk" "distinct (map fst g)"
    and "(pk', ts) \<in> set (collectable h g)"
  shows "pk' = pk \<and> superseded m t h pk ts"
proof -
  let ?below = "filter (\<lambda>(ts, _). ts \<le> h) (sort_key fst g)"
  have enc: "encodable u" if "(u, k) \<in> set g" for u k
    using that assms(1) by (auto dest: versionsD)
  obtain raw where raw: "(ts, raw) \<in> set (take (length ?below - 1) ?below)"
    "decode_pk_from_key raw = Some pk'"
    using assms(3) by (auto simp: collectable_def Let_def List.map_filter_def split: if_splits)
  have in_g: "(ts, raw) \<in> set g" using in_set_takeD [OF raw(1)] by auto
  have "sorted_wrt (\<lambda>a b. fst a < fst b) (sort_key fst g)"
    using assms(2) by (rule strictly_sorted_key)
  then have "sorted_wrt (\<lambda>a b. fst a < fst b) ?below" by (rule sorted_wrt_filter)
  from butlast_below_last [OF this raw(1)]
  have "ts < fst (last ?below)" "last ?below \<in> set ?below" by simp_all
  moreover from this(2) have "last ?below \<in> set g" "fst (last ?below) \<le> h" by auto
  moreover have "fst x \<in> versions m t pk" if "x \<in> set g" for x using that assms(1) by auto
  ultimately have "superseded m t h pk ts"
    using in_g by (force simp: superseded_def)
  moreover have "raw = encode_versioned_key t pk ts" using in_g assms(1) by auto
  ultimately show ?thesis using raw(2) enc [OF in_g] by simp
qed

context rocks_store begin

lemma delete_versions_view:
  assumes "delete_versions r t xs n d = (d', res)"
  shows "\<exists>K \<subseteq> (\<lambda>(pk, ts). encode_versioned_key t pk ts) ` set xs.
    view d' = (view d)(CF_DATA := view d CF_DATA |` (- K))"
  using assms
proof (induction xs arbitrary: n d)
  case Nil
  then show ?case by (intro exI [of _ "{}"]) (simp add: restrict_map_def)
next
  case (Cons x xs)
  obtain pk ts where x: "x = (pk, ts)" by (cases x)
  let ?k = "encode_versioned_key t pk ts"
  show ?case
  proof (cases "delete_version r t pk ts d")
    case (Inl e)
    then show ?thesis using Cons.prems x by (intro exI [of _ "{}"]) (simp add: restrict_map_def)
  next
    case (Inr d1)
    then have "view d1 = (view d)(CF_DATA := (view d CF_DATA)(?k := None))"
      using delete_view by (auto simp: delete_version_def result_simps)
    moreover have "delete_versions r t xs (n + 1) d1 = (d', res)" using Cons.prems x Inr by simp
    from Cons.IH [OF this] obtain K where
      K: "K \<subseteq> (\<lambda>(pk, ts). encode_versioned_key t pk ts) ` set xs"
        "view d' = (view d1)(CF_DATA := view d1 CF_DATA |` (- K))" by blast
    ultimately have "view d' = (view d)(CF_DATA := view d CF_DATA |` (- insert ?k K))"
      by (auto simp: fun_eq_iff restrict_map_def)
    with K(1) show ?thesis using x by (intro exI [of _ "insert ?k K"]) auto
  qed
qed

lemma gc_table_keeps:
  assumes "gc_table r t h d = (d', res)" "long_keys (view d) t"
  shows "keeps_newest (view d) h (view d')"
proof -
  let ?rows = "map (\<lambda>k. (k, the (view d CF_DATA k))) (sorted_list_of_set (table_keys (view d) t))"
  have scan: "raw_scan_table_versions r t d = Inr ?rows" by (rule raw_scan_keys [OF assms(2)])
  show ?thesis
  proof (cases "?rows = []")
    case True
    then show ?thesis using assms(1) scan by (simp add: gc_table_def)
  next
    case False
    then have "delete_versions r t (concat (map (collectable h) (by_pk ?rows))) 0 d = (d', res)"
      using assms(1) scan by (simp add: gc_table_def)
    from delete_versions_view [OF this] obtain K where
      K: "K \<subseteq> (\<lambda>(pk, ts). encode_versioned_key t pk ts) ` set (concat (map (collectable h) (by_pk ?rows)))"
        "view d' = (view d)(CF_DATA := view d CF_DATA |` (- K))" by blast
    show ?thesis
    proof (rule restrict_keeps_newest [OF finite_view])
      show "view d' CF_DATA = view d CF_DATA |` (- K)" using K(2) by simp
      fix k assume "k \<in> K"
      then obtain g pk ts where g: "g \<in> set (by_pk ?rows)" "(pk, ts) \<in> set (collectable h g)"
        "k = encode_versioned_key t pk ts" using K(1) by auto
      from group_versions [OF g(1) finite_view] obtain pk0 where
        "set g = (\<lambda>ts. (ts, encode_versioned_key t pk0 ts)) ` versions (view d) t pk0"
        "distinct (map fst g)" by blast
      from collectable_superseded [OF this g(2)]
      show "\<exists>pk ts. k = encode_versioned_key t pk ts \<and> superseded (view d) t h pk ts"
        using g(3) by blast
    qed
  qed
qed

lemma gc_tables_keeps:
  assumes "gc_tables r h ts n d = (d', res)" "\<forall>t. long_keys (view d) t"
  shows "keeps_newest (view d) h (view d')"
  using assms
proof (induction ts arbitrary: n d)
  case (Cons t ts)
  obtain d1 res1 where g: "gc_table r t h d = (d1, res1)" by fastforce
  have k: "keeps_newest (view d) h (view d1)" using gc_table_keeps [OF g] Cons.prems(2) by blast
  show ?case
  proof (cases res1)
    case (Inl e)
    then show ?thesis using Cons.prems g k by simp
  next
    case (Inr c)
    then have "keeps_newest (view d1) h (view d')"
      using Cons.prems g keeps_newest_long [OF k] by (intro Cons.IH [of "n + c" d1]) auto
    then show ?thesis by (rule keeps_newest_trans [OF k])
  qed
qed simp

lemma run_once_keeps:
  assumes "run_once r ts tm = (tm', res)" "\<forall>t. long_keys (view (tm_engine tm)) t"
  shows "keeps_newest (view (tm_engine tm)) (safe_horizon (active_snapshots tm)) (view (tm_engine tm'))"
    "tm_clock tm' = tm_clock tm" "active_snapshots tm' = active_snapshots tm"
proof -
  obtain d x where g: "gc_tables r (safe_horizon (active_snapshots tm)) ts 0 (tm_engine tm) = (d, x)"
    by fastforce
  have tm': "tm' = tm\<lparr>tm_engine := d\<rparr>"
    using assms(1) g by (auto simp: run_once_def Let_def split: sum.splits)
  then show "tm_clock tm' = tm_clock tm" "active_snapshots tm' = active_snapshots tm" by simp_all
  show "keeps_newest (view (tm_engine tm)) (safe_horizon (active_snapshots tm)) (view (tm_engine tm'))"
    using gc_tables_keeps [OF g assms(2)] tm' by simp
qed

end

end
