(* ===== verification/Txn_System.thy ===== *)
theory Txn_System
  imports Mvcc
begin

text \<open>
  Transactions, commits and garbage collection running against one manager. The relation
  \<open>txn_step\<close> interleaves the operations of \<open>mvcc.rs\<close> and \<open>gc.rs\<close> of any number of
  transactions, each operation as one step; the invariant \<open>txn_inv\<close> ties the stored versions,
  the registered snapshots and the history of commits together. Interleavings that split
  \<open>begin\<close> or \<open>commit\<close> into their atomic sections are looked at separately, in the last section.
\<close>

section \<open>What a commit does\<close>

definition write_map :: "(u32 \<times> bytes \<times> bytes) list \<Rightarrow> (u32 \<times> bytes) \<Rightarrow> bytes option" where
  "write_map ws = map_of (map (\<lambda>(t, pk, v). ((t, pk), v)) (rev ws))"

lemma read_own_write_map: "read_own_write tx t pk = write_map (tx_writes tx) (t, pk)"
proof -
  have "map_option (\<lambda>(_, _, v). v) (find (\<lambda>(tid, p, _). tid = t \<and> p = pk) ws) =
      map_of (map (\<lambda>(t, pk, v). ((t, pk), v)) ws) (t, pk)" for ws :: "(u32 \<times> bytes \<times> bytes) list"
    by (induction ws) auto
  then show ?thesis by (simp add: read_own_write_def write_map_def)
qed

lemma puts_fold:
  "fold apply_op (map (\<lambda>(k, v). Put cf k v) kvs) m = m(cf := m cf ++ map_of (rev kvs))"
  by (induction kvs arbitrary: m) (auto simp: fun_eq_iff map_add_def split: option.splits)

lemma version_map:
  assumes "encodable ts" "encodable u"
  shows "map_of (map (\<lambda>(t, pk, v). (encode_versioned_key t pk ts, v)) ws) (encode_versioned_key t' pk' u) =
    (if u = ts then map_of (map (\<lambda>(t, pk, v). ((t, pk), v)) ws) (t', pk') else None)"
  using assms by (induction ws) (auto simp: versioned_key_eq_iff)

lemma commit_batch_effect:
  "fold apply_op (commit_batch ts ws) m =
    m(CF_DATA := m CF_DATA ++ map_of (map (\<lambda>(t, pk, v). (encode_versioned_key t pk ts, v)) (rev ws)))"
proof -
  have "commit_batch ts ws = map (\<lambda>(k, v). Put CF_DATA k v)
      (map (\<lambda>(t, pk, v). (encode_versioned_key t pk ts, v)) ws)"
    by (auto simp: commit_batch_def)
  then show ?thesis by (simp only: puts_fold rev_map)
qed

text \<open>The contents after the writes \<open>ws\<close> have been stored at time \<open>ts\<close>.\<close>

definition committed_at :: "hlc_timestamp \<Rightarrow> (u32 \<times> bytes \<times> bytes) list \<Rightarrow> contents \<Rightarrow> contents \<Rightarrow> bool" where
  "committed_at ts ws m m' \<longleftrightarrow> (\<exists>x. m' = m(CF_DATA := x)) \<and>
     (\<forall>t pk u. encodable u \<longrightarrow> m' CF_DATA (encode_versioned_key t pk u) =
        (if u = ts \<and> write_map ws (t, pk) \<noteq> None then write_map ws (t, pk)
         else m CF_DATA (encode_versioned_key t pk u))) \<and>
     (\<forall>k \<in> dom (m' CF_DATA). k \<in> dom (m CF_DATA) \<or>
        (\<exists>(t, pk, v) \<in> set ws. k = encode_versioned_key t pk ts))"

lemma committed_at_batch:
  assumes "encodable ts"
  shows "committed_at ts ws m (fold apply_op (commit_batch ts ws) m)"
  unfolding committed_at_def commit_batch_effect
proof (intro conjI allI impI ballI)
  fix t pk u assume "encodable u"
  then show "(m(CF_DATA := m CF_DATA ++ map_of (map (\<lambda>(t, pk, v). (encode_versioned_key t pk ts, v)) (rev ws))))
      CF_DATA (encode_versioned_key t pk u) =
    (if u = ts \<and> write_map ws (t, pk) \<noteq> None then write_map ws (t, pk)
     else m CF_DATA (encode_versioned_key t pk u))"
    using assms by (auto simp: map_add_def version_map write_map_def split: option.splits)
next
  fix k assume "k \<in> dom ((m(CF_DATA := m CF_DATA ++
    map_of (map (\<lambda>(t, pk, v). (encode_versioned_key t pk ts, v)) (rev ws)))) CF_DATA)"
  then show "k \<in> dom (m CF_DATA) \<or> (\<exists>(t, pk, v) \<in> set ws. k = encode_versioned_key t pk ts)"
    by (auto dest!: map_of_SomeD)
qed blast

lemma write_map_iff: "write_map ws (t, pk) \<noteq> None \<longleftrightarrow> (\<exists>v. (t, pk, v) \<in> set ws)"
  by (force simp: write_map_def map_of_eq_None_iff)

lemma committed_at_versions:
  assumes "committed_at ts ws m m'" "encodable ts"
  shows "versions m' t pk = versions m t pk \<union> (if write_map ws (t, pk) \<noteq> None then {ts} else {})"
proof (rule set_eqI)
  fix u
  have "encodable u \<Longrightarrow> m' CF_DATA (encode_versioned_key t pk u) =
      (if u = ts \<and> write_map ws (t, pk) \<noteq> None then write_map ws (t, pk)
       else m CF_DATA (encode_versioned_key t pk u))"
    using assms(1) by (simp only: committed_at_def)
  then show "u \<in> versions m' t pk \<longleftrightarrow>
      u \<in> versions m t pk \<union> (if write_map ws (t, pk) \<noteq> None then {ts} else {})"
    using assms(2) by (cases "encodable u"; cases "write_map ws (t, pk)") (auto simp: versions_def)
qed

lemma committed_at_before:
  assumes "committed_at ts ws m m'" "finite (dom (m CF_DATA))" "snap < ts"
  shows "visible m' t pk snap = visible m t pk snap"
  by (rule visible_cong [where m = m, OF assms(2)]) (use assms(1,3) in \<open>auto simp: committed_at_def\<close>)

lemma committed_at_now:
  assumes "committed_at ts ws m m'" "finite (dom (m CF_DATA))" "encodable ts"
  shows "visible m' t pk ts =
    (case write_map ws (t, pk) of Some v \<Rightarrow> Some v | None \<Rightarrow> visible m t pk ts)"
proof (cases "write_map ws (t, pk)")
  case None
  then show ?thesis
    by (simp, intro visible_cong [where m = m, OF assms(2)]) (use assms(1) in \<open>auto simp: committed_at_def\<close>)
next
  case (Some v)
  let ?S = "{u \<in> versions m' t pk. u \<le> ts}"
  have "ts \<in> ?S" using committed_at_versions [OF assms(1,3), of t pk] Some by simp
  moreover have "finite ?S"
    using finite_versions [of m, OF assms(2)] committed_at_versions [OF assms(1,3), of t pk]
    by (auto split: if_splits)
  ultimately have "Max ?S = ts" "?S \<noteq> {}" by (auto intro: Max_eqI)
  then have "visible m' t pk ts = m' CF_DATA (encode_versioned_key t pk ts)"
    using visible_nonempty [where m = m' and snap = ts] by simp
  then show ?thesis using assms(1,3) Some by (simp add: committed_at_def)
qed

lemma committed_at_newest:
  assumes "committed_at ts ws m m'" "finite (dom (m CF_DATA))" "encodable ts"
    and "\<And>u. u \<in> versions m t pk \<Longrightarrow> u < ts"
  shows "visible m' t pk HLC_MAX =
    (case write_map ws (t, pk) of Some v \<Rightarrow> Some v | None \<Rightarrow> visible m t pk HLC_MAX)"
proof (cases "write_map ws (t, pk)")
  case None
  have "visible m' t pk HLC_MAX = visible m t pk HLC_MAX"
    by (rule visible_cong [where m = m, OF assms(2)]) (use assms(1) None in \<open>auto simp: committed_at_def\<close>)
  with None show ?thesis by simp
next
  case (Some v)
  let ?S = "{u \<in> versions m' t pk. u \<le> HLC_MAX}"
  have V: "versions m' t pk = insert ts (versions m t pk)"
    using committed_at_versions [OF assms(1,3), of t pk] Some by simp
  have "finite ?S" using finite_versions [of m, OF assms(2)] V by auto
  moreover have "ts \<in> ?S" using V le_MAX [OF assms(3)] by simp
  moreover have "u \<le> ts" if "u \<in> ?S" for u using that V assms(4) [of u] by auto
  ultimately have "Max ?S = ts" "?S \<noteq> {}" by (auto intro: Max_eqI)
  then have "visible m' t pk HLC_MAX = m' CF_DATA (encode_versioned_key t pk ts)"
    using visible_nonempty [where m = m' and snap = HLC_MAX] by simp
  also have "\<dots> = Some v" using assms(1,3) Some by (simp add: committed_at_def)
  finally show ?thesis using Some by simp
qed

lemma committed_at_uniform:
  assumes "committed_at ts ws m m'" "uniform_pks m t n" "\<forall>(t', pk, v) \<in> set ws. t' = t \<longrightarrow> length pk = n"
  shows "uniform_pks m' t n"
proof -
  have "length k = n + 12" if k: "k \<in> dom (m' CF_DATA)" "take 4 k = be_bytes 4 (unat t)" for k
  proof (cases "k \<in> dom (m CF_DATA)")
    case True
    then show ?thesis using assms(2) k(2) by (auto simp: uniform_pks_def)
  next
    case False
    then obtain t' pk v where "(t', pk, v) \<in> set ws" "k = encode_versioned_key t' pk ts"
      using assms(1) k(1) unfolding committed_at_def by blast
    then show ?thesis using assms(3) k(2) by (auto simp: u32_bytes_eq_iff)
  qed
  then show ?thesis by (simp add: uniform_pks_def)
qed

context rocks_store begin

lemma commit_check_versions:
  assumes "\<forall>(t, pk, v) \<in> set ws. uniform_pks (view (tm_engine tm)) t (length pk)"
  shows "commit_check r tm snap ws =
    Inr (\<exists>(t, pk, v) \<in> set ws. \<exists>u \<in> versions (view (tm_engine tm)) t pk. snap < u)"
  using assms
proof (induction ws)
  case (Cons w ws)
  obtain t pk v where w: "w = (t, pk, v)" by (cases w)
  let ?V = "versions (view (tm_engine tm)) t pk"
  have fin: "finite ?V" by (rule finite_versions [of "view (tm_engine tm)", OF finite_view])
  have "has_conflicting_version r tm t pk snap = Inr (\<exists>u \<in> ?V. snap < u)"
    using latest_ts [of "tm_engine tm" t pk] Cons.prems w fin
    by (auto simp: has_conflicting_version_def Max_gr_iff)
  then show ?case using Cons w by auto
qed simp

lemma tm_commit_cases:
  assumes "tm_commit r wall tx tm = (tm', res)" "\<not> tx_done tx"
    and "\<forall>(t, pk, v) \<in> set (tx_writes tx). uniform_pks (view (tm_engine tm)) t (length pk)"
    and "encodable (advance (hlc_inner (tm_clock tm)) wall)"
  defines "conflict \<equiv> \<exists>(t, pk, v) \<in> set (tx_writes tx).
      \<exists>u \<in> versions (view (tm_engine tm)) t pk. tx_snapshot_ts tx < u"
  shows "(conflict \<and> res = Inl WriteConflict \<and> tm' = remove_snapshot (tx_id tx) tm) \<or>
    (\<not> conflict \<and> tm_clock tm' = (tm_clock tm)\<lparr>hlc_inner := advance (hlc_inner (tm_clock tm)) wall\<rparr> \<and>
      ((\<exists>e. res = Inl (TxnStorage e)) \<and> tm_engine tm' = tm_engine tm \<and>
        active_snapshots tm' = active_snapshots tm \<or>
       res = Inr (advance (hlc_inner (tm_clock tm)) wall) \<and>
        active_snapshots tm' = active_snapshots tm - {tx_id tx} \<and>
        committed_at (advance (hlc_inner (tm_clock tm)) wall) (tx_writes tx)
          (view (tm_engine tm)) (view (tm_engine tm'))))"
proof (cases conflict)
  case True
  then show ?thesis
    using assms(1,2) commit_check_versions [OF assms(3), of "tx_snapshot_ts tx"]
    by (simp add: tm_commit_def conflict_def)
next
  case False
  let ?ts = "advance (hlc_inner (tm_clock tm)) wall"
  let ?c = "(tm_clock tm)\<lparr>hlc_inner := ?ts\<rparr>"
  have flush: "commit_flush r ?ts tx (tm\<lparr>tm_clock := ?c\<rparr>) = (tm', res)"
    using assms(1,2) False commit_check_versions [OF assms(3), of "tx_snapshot_ts tx"]
    by (simp add: tm_commit_def conflict_def begin_tick_def tick_def Let_def)
  show ?thesis
  proof (cases "rk_write r (commit_batch ?ts (tx_writes tx)) (tm_engine tm)")
    case (Inl e)
    then show ?thesis using flush False by (auto simp: commit_flush_def write_batch_def)
  next
    case (Inr d)
    have "committed_at ?ts (tx_writes tx) (view (tm_engine tm)) (view d)"
      using committed_at_batch [OF assms(4)] write_view [OF Inr] by simp
    then show ?thesis
      using flush Inr False by (auto simp: commit_flush_def write_batch_def remove_snapshot_def)
  qed
qed

end

section \<open>Interleaved transactions\<close>

record committed_txn =
  ct_snapshot :: hlc_timestamp
  ct_commit :: hlc_timestamp
  ct_writes :: "(u32 \<times> bytes \<times> bytes) list"

record 'db txn_sys =
  sys_tm :: "'db txn_manager"
  sys_open :: "u64 \<Rightarrow> transaction option"
  sys_log :: "committed_txn list"

definition log_commit ::
  "transaction \<Rightarrow> txn_error + hlc_timestamp \<Rightarrow> committed_txn list \<Rightarrow> committed_txn list" where
  "log_commit tx res log = (case res of
     Inl _ \<Rightarrow> log
   | Inr ts \<Rightarrow> log @ [\<lparr>ct_snapshot = tx_snapshot_ts tx, ct_commit = ts, ct_writes = tx_writes tx\<rparr>])"

text \<open>The primary keys of table \<open>t\<close> have length \<open>len t\<close>. The clock stays where its encoding is
  exact, which leaves it until the year 10889.\<close>

inductive txn_step :: "'db rocks \<Rightarrow> (u32 \<Rightarrow> nat) \<Rightarrow> 'db txn_sys \<Rightarrow> 'db txn_sys \<Rightarrow> bool"
  for r len where
  begins: "tm_begin wall (sys_tm s) = (tm', tx) \<Longrightarrow> encodable (tx_snapshot_ts tx) \<Longrightarrow>
    txn_step r len s (s\<lparr>sys_tm := tm', sys_open := (sys_open s)(tx_id tx \<mapsto> tx)\<rparr>)"
| writes: "sys_open s i = Some tx \<Longrightarrow> length pk = len t \<Longrightarrow>
    txn_step r len s (s\<lparr>sys_open := (sys_open s)(i \<mapsto> tx_write t pk v tx)\<rparr>)"
| commits: "sys_open s i = Some tx \<Longrightarrow> tm_commit r wall tx (sys_tm s) = (tm', res) \<Longrightarrow>
    encodable (advance (hlc_inner (tm_clock (sys_tm s))) wall) \<Longrightarrow>
    txn_step r len s (s\<lparr>sys_tm := tm', sys_open := (sys_open s)(i := None),
      sys_log := log_commit tx res (sys_log s)\<rparr>)"
| rollback: "sys_open s i = Some tx \<Longrightarrow>
    txn_step r len s (s\<lparr>sys_tm := tm_rollback tx (sys_tm s), sys_open := (sys_open s)(i := None)\<rparr>)"
| timestamp: "next_timestamp wall (sys_tm s) = (tm', x) \<Longrightarrow> encodable (hlc_inner (tm_clock tm')) \<Longrightarrow>
    txn_step r len s (s\<lparr>sys_tm := tm'\<rparr>)"
| observe: "encodable ts \<Longrightarrow>
    txn_step r len s (s\<lparr>sys_tm := (sys_tm s)\<lparr>tm_clock := fst (observe_committed ts (tm_clock (sys_tm s)))\<rparr>\<rparr>)"
| gc: "run_once r tables (sys_tm s) = (tm', res) \<Longrightarrow> txn_step r len s (s\<lparr>sys_tm := tm'\<rparr>)"

definition txn_ok :: "(u32 \<Rightarrow> nat) \<Rightarrow> 'db txn_manager \<Rightarrow> u64 \<Rightarrow> transaction \<Rightarrow> bool" where
  "txn_ok len tm i tx \<longleftrightarrow> tx_id tx = i \<and> i = to_u64 (tx_snapshot_ts tx) \<and> encodable (tx_snapshot_ts tx) \<and>
     tx_snapshot_ts tx \<le> hlc_inner (tm_clock tm) \<and> i \<in> active_snapshots tm \<and> \<not> tx_done tx \<and>
     (\<forall>(t, pk, v) \<in> set (tx_writes tx). length pk = len t)"

definition shares_key :: "committed_txn \<Rightarrow> committed_txn \<Rightarrow> bool" where
  "shares_key a b \<longleftrightarrow> (\<exists>t pk v w. (t, pk, v) \<in> set (ct_writes a) \<and> (t, pk, w) \<in> set (ct_writes b))"

definition history_ok :: "committed_txn list \<Rightarrow> bool" where
  "history_ok log \<longleftrightarrow>
     sorted_wrt (\<lambda>a b. ct_commit a < ct_commit b \<and> (shares_key a b \<longrightarrow> ct_commit a \<le> ct_snapshot b)) log"

text \<open>The part of the invariant about the stored versions.\<close>

definition store_inv :: "(u32 \<Rightarrow> nat) \<Rightarrow> contents \<Rightarrow> hlc_timestamp \<Rightarrow> committed_txn list \<Rightarrow> bool" where
  "store_inv len m now log \<longleftrightarrow> (\<forall>t. uniform_pks m t (len t)) \<and>
     (\<forall>t pk. \<forall>u \<in> versions m t pk. u \<le> now) \<and>
     (\<forall>c \<in> set log. ct_commit c \<le> now \<and>
        (\<forall>(t, pk, v) \<in> set (ct_writes c). \<exists>u \<in> versions m t pk. ct_commit c \<le> u))"

definition txn_inv :: "('db \<Rightarrow> contents) \<Rightarrow> (u32 \<Rightarrow> nat) \<Rightarrow> 'db txn_sys \<Rightarrow> bool" where
  "txn_inv view len s \<longleftrightarrow>
     encodable (hlc_inner (tm_clock (sys_tm s))) \<and> finite (active_snapshots (sys_tm s)) \<and>
     (\<forall>i tx. sys_open s i = Some tx \<longrightarrow> txn_ok len (sys_tm s) i tx) \<and>
     store_inv len (view (tm_engine (sys_tm s))) (hlc_inner (tm_clock (sys_tm s))) (sys_log s) \<and>
     history_ok (sys_log s)"

definition sys_init :: "('db \<Rightarrow> contents) \<Rightarrow> (u32 \<Rightarrow> nat) \<Rightarrow> 'db txn_sys \<Rightarrow> bool" where
  "sys_init view len s \<longleftrightarrow> sys_open s = Map.empty \<and> sys_log s = [] \<and>
     active_snapshots (sys_tm s) = {} \<and> encodable (hlc_inner (tm_clock (sys_tm s))) \<and>
     store_inv len (view (tm_engine (sys_tm s))) (hlc_inner (tm_clock (sys_tm s))) []"

lemma init_inv: "sys_init view len s \<Longrightarrow> txn_inv view len s"
  by (simp add: sys_init_def txn_inv_def history_ok_def)

lemma encodable_advance: "encodable cur \<Longrightarrow> cur < advance cur wall"
  by (rule advance_greater) (simp add: encodable_def)

lemma from_u64_mono: "a \<le> b \<Longrightarrow> from_u64 a \<le> from_u64 b"
  using to_u64_less_iff [of "from_u64 b" "from_u64 a"] by (simp flip: not_less)

lemma store_inv_later: "store_inv len m now log \<Longrightarrow> now \<le> now' \<Longrightarrow> store_inv len m now' log"
  unfolding store_inv_def by (meson order_trans)

lemma store_inv_gc:
  assumes "store_inv len m now log" "keeps_newest m h m'"
  shows "store_inv len m' now log"
proof -
  have "\<exists>u \<in> versions m' t pk. c \<le> u" if "u \<in> versions m t pk" "c \<le> u" for t pk u c
    using that assms(2) unfolding keeps_newest_def by (meson less_imp_le order_trans)
  moreover have "u \<le> now" if "u \<in> versions m' t pk" for t pk u
    using that assms(1) keeps_newest_versions [OF assms(2)] unfolding store_inv_def by blast
  ultimately show ?thesis
    using assms(1) unfolding store_inv_def by (fastforce intro: keeps_newest_uniform [OF assms(2)])
qed

lemma txn_ok_later:
  "txn_ok len tm i tx \<Longrightarrow> hlc_inner (tm_clock tm) \<le> hlc_inner (tm_clock tm') \<Longrightarrow>
   i \<in> active_snapshots tm' \<Longrightarrow> txn_ok len tm' i tx"
  by (auto simp: txn_ok_def)

context rocks_store begin

lemma begins_inv:
  assumes "txn_inv view len s" "tm_begin wall (sys_tm s) = (tm', tx)" "encodable (tx_snapshot_ts tx)"
  shows "txn_inv view len (s\<lparr>sys_tm := tm', sys_open := (sys_open s)(tx_id tx \<mapsto> tx)\<rparr>)"
proof -
  let ?tm = "sys_tm s"
  let ?ts = "advance (hlc_inner (tm_clock ?tm)) wall"
  have tm': "tm' = ?tm\<lparr>tm_clock := (tm_clock ?tm)\<lparr>hlc_inner := ?ts\<rparr>,
      active_snapshots := insert (to_u64 ?ts) (active_snapshots ?tm)\<rparr>" "tx = transaction_new ?ts"
    using assms(2) by (auto simp: tm_begin_def begin_tick_def begin_register_def tick_def Let_def)
  have "hlc_inner (tm_clock ?tm) < ?ts" using assms(1) by (auto simp: txn_inv_def intro: encodable_advance)
  then have lt: "hlc_inner (tm_clock ?tm) \<le> ?ts" by simp
  have "txn_ok len tm' (tx_id tx) tx"
    using assms(3) by (simp add: tm' txn_ok_def transaction_new_def)
  moreover have "txn_ok len tm' i x" if "sys_open s i = Some x" for i x
  proof (rule txn_ok_later)
    show "txn_ok len ?tm i x" using that assms(1) by (simp add: txn_inv_def)
    then show "i \<in> active_snapshots tm'" by (auto simp: tm' txn_ok_def)
  qed (simp add: tm' lt)
  ultimately show ?thesis
    using assms(1,3) store_inv_later [OF _ lt]
    by (auto simp: txn_inv_def tm' transaction_new_def)
qed

lemma writes_inv:
  assumes "txn_inv view len s" "sys_open s i = Some tx" "length pk = len t"
  shows "txn_inv view len (s\<lparr>sys_open := (sys_open s)(i \<mapsto> tx_write t pk v tx)\<rparr>)"
proof -
  have "txn_ok len (sys_tm s) i tx" using assms(1,2) by (simp add: txn_inv_def)
  then have "txn_ok len (sys_tm s) i (tx_write t pk v tx)"
    using assms(3) by (auto simp: txn_ok_def tx_write_def)
  then show ?thesis using assms(1) by (simp add: txn_inv_def)
qed

text \<open>Closing a transaction keeps the other ones open.\<close>

lemma others_ok:
  assumes "txn_inv view len s" "sys_open s i = Some tx"
    and "active_snapshots (sys_tm s) - {i} \<subseteq> active_snapshots tm'"
    and "hlc_inner (tm_clock (sys_tm s)) \<le> hlc_inner (tm_clock tm')"
  shows "\<forall>j x. ((sys_open s)(i := None)) j = Some x \<longrightarrow> txn_ok len tm' j x"
proof (intro allI impI)
  fix j x assume j: "((sys_open s)(i := None)) j = Some x"
  then have "txn_ok len (sys_tm s) j x" "j \<noteq> i" using assms(1) by (auto simp: txn_inv_def split: if_splits)
  then show "txn_ok len tm' j x"
    using assms(3,4) by (auto intro!: txn_ok_later simp: txn_ok_def)
qed

lemma committed_store_inv:
  assumes "store_inv len m now log" "committed_at ts ws m m'" "encodable ts" "now < ts"
    and "\<forall>(t, pk, v) \<in> set ws. length pk = len t" "finite (dom (m CF_DATA))"
  shows "store_inv len m' ts (log @ [\<lparr>ct_snapshot = snap, ct_commit = ts, ct_writes = ws\<rparr>])"
proof -
  note vs = committed_at_versions [OF assms(2,3)]
  have sub: "versions m t pk \<subseteq> versions m' t pk" for t pk by (simp add: vs)
  have "uniform_pks m' t (len t)" for t
    using assms(1,5) by (intro committed_at_uniform [OF assms(2)]) (auto simp: store_inv_def)
  moreover have "u \<le> ts" if "u \<in> versions m' t pk" for t pk u
    using that assms(1,4) by (auto simp: vs store_inv_def split: if_splits dest!: less_imp_le)
      (meson less_imp_le order_trans)+
  moreover have "\<exists>u \<in> versions m' t pk. ts \<le> u" if "(t, pk, v) \<in> set ws" for t pk v
    using that write_map_iff [of ws t pk] by (auto simp: vs)
  moreover have "ct_commit c \<le> ts \<and> (\<forall>(t, pk, v) \<in> set (ct_writes c). \<exists>u \<in> versions m' t pk. ct_commit c \<le> u)"
    if "c \<in> set log" for c
    using that assms(1,4) sub unfolding store_inv_def by (fastforce dest: less_imp_le intro: order_trans)
  ultimately show ?thesis by (auto simp: store_inv_def)
qed

lemma commits_inv:
  assumes "txn_inv view len s" "sys_open s i = Some tx" "tm_commit r wall tx (sys_tm s) = (tm', res)"
    and "encodable (advance (hlc_inner (tm_clock (sys_tm s))) wall)"
  shows "txn_inv view len (s\<lparr>sys_tm := tm', sys_open := (sys_open s)(i := None),
      sys_log := log_commit tx res (sys_log s)\<rparr>)"
proof -
  let ?tm = "sys_tm s"
  let ?ts = "advance (hlc_inner (tm_clock ?tm)) wall" and ?m = "view (tm_engine (sys_tm s))"
  have ok: "txn_ok len ?tm i tx" using assms(1,2) by (simp add: txn_inv_def)
  have st: "store_inv len ?m (hlc_inner (tm_clock ?tm)) (sys_log s)"
    using assms(1) by (simp add: txn_inv_def)
  have lt: "hlc_inner (tm_clock ?tm) < ?ts" using assms(1) by (auto simp: txn_inv_def intro: encodable_advance)
  have uni: "\<forall>(t, pk, v) \<in> set (tx_writes tx). uniform_pks ?m t (length pk)"
    using ok st by (auto simp: txn_ok_def store_inv_def)
  have nd: "\<not> tx_done tx" and id: "tx_id tx = i" using ok by (simp_all add: txn_ok_def)
  consider "res = Inl WriteConflict" "tm' = remove_snapshot i ?tm"
    | e where "res = Inl (TxnStorage e)" "tm_engine tm' = tm_engine ?tm"
        "active_snapshots tm' = active_snapshots ?tm" "tm_clock tm' = (tm_clock ?tm)\<lparr>hlc_inner := ?ts\<rparr>"
    | "res = Inr ?ts" "active_snapshots tm' = active_snapshots ?tm - {i}"
        "tm_clock tm' = (tm_clock ?tm)\<lparr>hlc_inner := ?ts\<rparr>"
        "committed_at ?ts (tx_writes tx) ?m (view (tm_engine tm'))"
        "\<forall>(t, pk, v) \<in> set (tx_writes tx). \<forall>u \<in> versions ?m t pk. u \<le> tx_snapshot_ts tx"
    using tm_commit_cases [OF assms(3) nd uni assms(4)] id by (force simp: not_less)
  then show ?thesis
  proof cases
    case 1
    then show ?thesis
      using assms(1) others_ok [OF assms(1,2), of tm']
      by (auto simp: txn_inv_def remove_snapshot_def log_commit_def)
  next
    case 2
    then show ?thesis
      using assms(1,4) lt others_ok [OF assms(1,2), of tm'] store_inv_later [OF st]
      by (auto simp: txn_inv_def log_commit_def)
  next
    case 3
    let ?c = "\<lparr>ct_snapshot = tx_snapshot_ts tx, ct_commit = ?ts, ct_writes = tx_writes tx\<rparr>"
    have "store_inv len (view (tm_engine tm')) ?ts (sys_log s @ [?c])"
      using ok by (intro committed_store_inv [OF st 3(4) assms(4) lt _ finite_view]) (simp add: txn_ok_def)
    moreover have "history_ok (sys_log s @ [?c])"
    proof -
      have "ct_commit a < ?ts \<and> (shares_key a ?c \<longrightarrow> ct_commit a \<le> tx_snapshot_ts tx)"
        if a: "a \<in> set (sys_log s)" for a
      proof
        show "ct_commit a < ?ts" using a st lt by (auto simp: store_inv_def intro: le_less_trans)
        show "shares_key a ?c \<longrightarrow> ct_commit a \<le> tx_snapshot_ts tx"
          using a st 3(5) unfolding store_inv_def shares_key_def by (fastforce intro: order_trans)
      qed
      then show ?thesis using assms(1) by (simp add: txn_inv_def history_ok_def sorted_wrt_append)
    qed
    ultimately show ?thesis
      using assms(1,4) 3 lt others_ok [OF assms(1,2), of tm']
      by (auto simp: txn_inv_def log_commit_def)
  qed
qed

lemma gc_inv:
  assumes "txn_inv view len s" "run_once r tables (sys_tm s) = (tm', res)"
  shows "txn_inv view len (s\<lparr>sys_tm := tm'\<rparr>)"
    "keeps_newest (view (tm_engine (sys_tm s))) (safe_horizon (active_snapshots (sys_tm s)))
       (view (tm_engine tm'))"
proof -
  have "\<forall>t. long_keys (view (tm_engine (sys_tm s))) t"
    using assms(1) by (auto simp: txn_inv_def store_inv_def intro: uniform_long)
  note k = run_once_keeps [OF assms(2) this]
  show "keeps_newest (view (tm_engine (sys_tm s))) (safe_horizon (active_snapshots (sys_tm s)))
       (view (tm_engine tm'))" by (rule k(1))
  show "txn_inv view len (s\<lparr>sys_tm := tm'\<rparr>)"
    using assms(1) store_inv_gc [OF _ k(1)] k(2,3) by (auto simp: txn_inv_def txn_ok_def)
qed

lemma clock_moves_inv:
  assumes "txn_inv view len s" "encodable ts" "hlc_inner (tm_clock (sys_tm s)) \<le> ts"
  shows "txn_inv view len (s\<lparr>sys_tm := (sys_tm s)\<lparr>tm_clock := (tm_clock (sys_tm s))\<lparr>hlc_inner := ts\<rparr>\<rparr>\<rparr>)"
proof -
  let ?tm = "(sys_tm s)\<lparr>tm_clock := (tm_clock (sys_tm s))\<lparr>hlc_inner := ts\<rparr>\<rparr>"
  have "txn_ok len ?tm i tx" if "txn_ok len (sys_tm s) i tx" for i tx
    by (rule txn_ok_later [OF that]) (use that assms(3) in \<open>auto simp: txn_ok_def\<close>)
  then show ?thesis
    using assms(1,2) store_inv_later [OF _ assms(3)] by (simp add: txn_inv_def)
qed

lemma txn_step_inv:
  assumes "txn_step r len s s'" "txn_inv view len s"
  shows "txn_inv view len s'"
  using assms(1)
proof cases
  case (rollback i tx)
  then show ?thesis
    using assms(2) others_ok [OF assms(2) rollback(2), of "tm_rollback tx (sys_tm s)"]
    by (auto simp: txn_inv_def tm_rollback_def remove_snapshot_def txn_ok_def)
next
  case (timestamp wall tm' x)
  have "hlc_inner (tm_clock (sys_tm s)) \<le> advance (hlc_inner (tm_clock (sys_tm s))) wall"
    using assms(2) encodable_advance less_imp_le by (auto simp: txn_inv_def)
  then show ?thesis
    using timestamp clock_moves_inv [OF assms(2), of "advance (hlc_inner (tm_clock (sys_tm s))) wall"]
    by (auto simp: next_timestamp_def tick_def Let_def)
next
  case (observe ts)
  then show ?thesis
    using clock_moves_inv [OF assms(2), of ts] assms(2)
    by (auto simp: observe_committed_def Let_def)
qed (use assms(2) begins_inv writes_inv commits_inv gc_inv(1) in \<open>auto\<close>)

lemma txn_steps_inv: "(txn_step r len)\<^sup>*\<^sup>* s s' \<Longrightarrow> txn_inv view len s \<Longrightarrow> txn_inv view len s'"
  by (induction rule: rtranclp_induct) (auto intro: txn_step_inv)

text \<open>What an open transaction sees of the store does not change.\<close>

lemma txn_step_visible:
  assumes "txn_step r len s s'" "txn_inv view len s" "sys_open s i = Some tx"
  shows "visible (view (tm_engine (sys_tm s'))) t pk (tx_snapshot_ts tx) =
    visible (view (tm_engine (sys_tm s))) t pk (tx_snapshot_ts tx)"
  using assms(1)
proof cases
  case (commits j tx' wall tm' res)
  let ?tm = "sys_tm s"
  have ok: "txn_ok len ?tm j tx'" "txn_ok len ?tm i tx" using assms(2,3) commits by (simp_all add: txn_inv_def)
  have lt: "tx_snapshot_ts tx < advance (hlc_inner (tm_clock ?tm)) wall"
    using assms(2) ok(2) encodable_advance by (auto simp: txn_inv_def txn_ok_def intro: le_less_trans)
  have "\<forall>(t, pk, v) \<in> set (tx_writes tx'). uniform_pks (view (tm_engine ?tm)) t (length pk)"
    using ok(1) assms(2) by (auto simp: txn_ok_def txn_inv_def store_inv_def)
  from tm_commit_cases [OF commits(3) _ this commits(4)] ok(1)
  have "tm_engine tm' = tm_engine ?tm \<or> committed_at (advance (hlc_inner (tm_clock ?tm)) wall)
      (tx_writes tx') (view (tm_engine ?tm)) (view (tm_engine tm'))"
    by (auto simp: txn_ok_def remove_snapshot_def)
  then show ?thesis
    using committed_at_before [OF _ finite_view lt] commits(1) by auto
next
  case (gc tables tm' res)
  have ok: "txn_ok len (sys_tm s) i tx" "finite (active_snapshots (sys_tm s))"
    using assms(2,3) by (simp_all add: txn_inv_def)
  have "Min (active_snapshots (sys_tm s)) \<le> to_u64 (tx_snapshot_ts tx)"
    using ok by (auto simp: txn_ok_def)
  then have "from_u64 (Min (active_snapshots (sys_tm s))) \<le> tx_snapshot_ts tx"
    using ok(1) from_u64_mono by (fastforce simp: txn_ok_def)
  then have "safe_horizon (active_snapshots (sys_tm s)) \<le> tx_snapshot_ts tx"
    using ok(1) by (auto simp: safe_horizon_def txn_ok_def)
  then show ?thesis
    using keeps_newest_visible [OF finite_view gc_inv(2) [OF assms(2) gc(2)]] gc(1) by simp
qed (auto simp: tm_begin_def begin_tick_def begin_register_def next_timestamp_def tm_rollback_def
    remove_snapshot_def split: prod.splits)

end

section \<open>Properties\<close>



text \<open>C11. A commit is atomic and decides conflicts by the first committer: it fails with a write
  conflict exactly when a row it wrote has a version newer than its snapshot, a failed commit
  leaves the store as it was, and a successful one makes its writes, and nothing else, visible
  from the commit timestamp on, which is later than everything the clock has issued.\<close>

theorem commit_atomic:
  assumes "rocks_store r view" "tm_commit r wall tx tm = (tm', res)" "\<not> tx_done tx"
    and "\<forall>(t, pk, v) \<in> set (tx_writes tx). uniform_pks (view (tm_engine tm)) t (length pk)"
    and "encodable (hlc_inner (tm_clock tm))" "encodable (advance (hlc_inner (tm_clock tm)) wall)"
  shows "(res = Inl WriteConflict \<longleftrightarrow> (\<exists>(t, pk, v) \<in> set (tx_writes tx).
        \<exists>u \<in> versions (view (tm_engine tm)) t pk. tx_snapshot_ts tx < u)) \<and>
    (case res of
       Inl _ \<Rightarrow> tm_engine tm' = tm_engine tm
     | Inr ts \<Rightarrow> hlc_inner (tm_clock tm) < ts \<and> hlc_inner (tm_clock tm') = ts \<and>
         (\<forall>t pk snap. snap < ts \<longrightarrow> visible (view (tm_engine tm')) t pk snap =
            visible (view (tm_engine tm)) t pk snap) \<and>
         (\<forall>t pk. visible (view (tm_engine tm')) t pk ts =
            (case read_own_write tx t pk of
               Some v \<Rightarrow> Some v | None \<Rightarrow> visible (view (tm_engine tm)) t pk ts)))"
proof -
  have fin: "finite (dom (view (tm_engine tm) CF_DATA))" using assms(1) by (rule rocks_store.finite_view)
  note before = committed_at_before [where m = "view (tm_engine tm)", OF _ fin]
    and now = committed_at_now [where m = "view (tm_engine tm)", OF _ fin assms(6)]
  show ?thesis
    using rocks_store.tm_commit_cases [OF assms(1-4,6)] encodable_advance [OF assms(5), of wall]
    by (elim disjE conjE exE)
      (simp_all add: remove_snapshot_def before now read_own_write_map del: bex_simps)
qed

text \<open>C12. Garbage collection is invisible to every snapshot at or above the horizon, also when it
  fails half way: over tables whose keys have the length of a versioned key, a collection run
  changes no read at a timestamp from the smallest active snapshot on.\<close>

theorem gc_keeps_reads:
  assumes "rocks_store r view" "run_once r tables tm = (tm', res)"
    and "\<forall>t. long_keys (view (tm_engine tm)) t" "uniform_pks (view (tm_engine tm)) t (length pk)"
    and "encodable snap" "safe_horizon (active_snapshots tm) \<le> snap"
  shows "read_latest r t pk snap (tm_engine tm') = read_latest r t pk snap (tm_engine tm)"
proof -
  note k = rocks_store.run_once_keeps(1) [OF assms(1-3)]
  have "visible (view (tm_engine tm')) t pk snap = visible (view (tm_engine tm)) t pk snap"
    by (rule keeps_newest_visible [OF rocks_store.finite_view [OF assms(1)] k assms(6)])
  then show ?thesis
    using rocks_store.read_latest_visible [OF assms(1)] assms(4,5) keeps_newest_uniform [OF k]
    by simp
qed

section \<open>Examples\<close>

text \<open>One transaction that writes a row of table 1, and the three states it goes through.\<close>

definition opened :: "u64 \<Rightarrow> mem_db txn_sys \<Rightarrow> mem_db txn_sys \<times> transaction" where
  "opened wall s = (case tm_begin wall (sys_tm s) of (tm', tx) \<Rightarrow>
     (s\<lparr>sys_tm := tm', sys_open := (sys_open s)(tx_id tx \<mapsto> tx)\<rparr>, tx))"

definition written :: "bytes \<Rightarrow> mem_db txn_sys \<times> transaction \<Rightarrow> mem_db txn_sys \<times> transaction" where
  "written v st = (case st of (s, tx) \<Rightarrow>
     (s\<lparr>sys_open := (sys_open s)(tx_id tx \<mapsto> tx_write 1 [7] v tx)\<rparr>, tx_write 1 [7] v tx))"

definition closed :: "u64 \<Rightarrow> mem_db txn_sys \<times> transaction \<Rightarrow> mem_db txn_sys" where
  "closed wall st = (case st of (s, tx) \<Rightarrow> (case tm_commit mem_rocks wall tx (sys_tm s) of (tm', res) \<Rightarrow>
     s\<lparr>sys_tm := tm', sys_open := (sys_open s)(tx_id tx := None),
       sys_log := log_commit tx res (sys_log s)\<rparr>))"

definition sample_run :: "u64 \<Rightarrow> bytes \<Rightarrow> mem_db txn_sys \<Rightarrow> mem_db txn_sys" where
  "sample_run wall v s = closed wall (written v (opened wall s))"

definition sample_sys :: "mem_db txn_sys" where
  "sample_sys = \<lparr>sys_tm = tm_new mem_open (hlc_new 0), sys_open = Map.empty, sys_log = []\<rparr>"

lemma run_steps:
  assumes "encodable (advance (hlc_inner (tm_clock (sys_tm s))) wall)"
    and "encodable (advance (advance (hlc_inner (tm_clock (sys_tm s))) wall) wall)"
  shows "txn_step mem_rocks (\<lambda>_. 1) s (fst (opened wall s))"
    "txn_step mem_rocks (\<lambda>_. 1) (fst (opened wall s)) (fst (written v (opened wall s)))"
    "txn_step mem_rocks (\<lambda>_. 1) (fst (written v (opened wall s))) (sample_run wall v s)"
proof -
  obtain tm' tx where b: "tm_begin wall (sys_tm s) = (tm', tx)" by fastforce
  let ?ts = "advance (hlc_inner (tm_clock (sys_tm s))) wall"
  have c: "tx_snapshot_ts tx = ?ts" "hlc_inner (tm_clock tm') = ?ts"
    using b by (auto simp: tm_begin_def begin_tick_def begin_register_def tick_def transaction_new_def Let_def)
  show "txn_step mem_rocks (\<lambda>_. 1) s (fst (opened wall s))"
    using txn_step.begins [of wall s tm' tx] b c assms(1) by (simp add: opened_def)
  show "txn_step mem_rocks (\<lambda>_. 1) (fst (opened wall s)) (fst (written v (opened wall s)))"
    using txn_step.writes [of "fst (opened wall s)" "tx_id tx" tx "[7]" "\<lambda>_. 1" 1] b
    by (simp add: opened_def written_def)
  let ?s2 = "fst (written v (opened wall s))"
  obtain tm2 res where k: "tm_commit mem_rocks wall (tx_write 1 [7] v tx) (sys_tm ?s2) = (tm2, res)"
    by fastforce
  have open2: "sys_open ?s2 (tx_id tx) = Some (tx_write 1 [7] v tx)" and
    more: "tx_id (tx_write 1 [7] v tx) = tx_id tx" "hlc_inner (tm_clock (sys_tm ?s2)) = ?ts"
    using b c by (simp_all add: opened_def written_def tx_write_def)
  have "sample_run wall v s = ?s2\<lparr>sys_tm := tm2, sys_open := (sys_open ?s2)(tx_id tx := None),
      sys_log := log_commit (tx_write 1 [7] v tx) res (sys_log ?s2)\<rparr>"
    using b k more(1) by (simp add: sample_run_def closed_def written_def opened_def)
  with txn_step.commits [OF open2 k, of "\<lambda>_. 1"] assms(2) more(2)
  show "txn_step mem_rocks (\<lambda>_. 1) ?s2 (sample_run wall v s)" by simp
qed

lemma sample_sys_init: "sys_init mem_view (\<lambda>_. 1) sample_sys"
  by (simp add: sys_init_def sample_sys_def tm_new_def hlc_new_def HLC_ZERO_def encodable_def
      store_inv_def uniform_pks_def versions_def mem_view_open)


lemma run_open:
  assumes "j \<noteq> tx_id (snd (opened wall s))"
  shows "sys_open (fst (opened wall s)) j = sys_open s j"
    "sys_open (fst (written v (opened wall s))) j = sys_open s j"
    "sys_open (sample_run wall v s) j = sys_open s j"
  using assms
  by (auto simp: opened_def written_def closed_def sample_run_def tx_write_def split: prod.splits)

definition sample_open :: "mem_db txn_sys" where
  "sample_open = fst (opened 6 (sample_run 5 [1] sample_sys))"

lemma sample_open_facts:
  "hlc_inner (tm_clock (sys_tm (sample_run 5 [1] sample_sys))) = HlcTimestamp 5 1"
  "sys_open sample_open 0x60000 = Some (transaction_new (HlcTimestamp 6 0))"
  "hlc_inner (tm_clock (sys_tm sample_open)) = HlcTimestamp 6 0"
  "read_latest mem_rocks 1 [7] (HlcTimestamp 6 0) (tm_engine (sys_tm sample_open)) = Inr (Some [1])"
proof -
  have "hlc_inner (tm_clock (sys_tm (sample_run 5 [1] sample_sys))) = HlcTimestamp 5 1 \<and>
      sys_open sample_open 0x60000 = Some (transaction_new (HlcTimestamp 6 0)) \<and>
      hlc_inner (tm_clock (sys_tm sample_open)) = HlcTimestamp 6 0 \<and>
      read_latest mem_rocks 1 [7] (HlcTimestamp 6 0) (tm_engine (sys_tm sample_open)) = Inr (Some [1])"
    by code_simp
  then show "hlc_inner (tm_clock (sys_tm (sample_run 5 [1] sample_sys))) = HlcTimestamp 5 1"
    "sys_open sample_open 0x60000 = Some (transaction_new (HlcTimestamp 6 0))"
    "hlc_inner (tm_clock (sys_tm sample_open)) = HlcTimestamp 6 0"
    "read_latest mem_rocks 1 [7] (HlcTimestamp 6 0) (tm_engine (sys_tm sample_open)) = Inr (Some [1])"
    by blast+
qed


definition sample_tm :: "mem_db txn_manager" where
  "sample_tm = \<lparr>tm_engine = sample_db, tm_clock = \<lparr>hlc_inner = HlcTimestamp 30 0, max_skew_ms = 0\<rparr>,
     active_snapshots = {to_u64 (HlcTimestamp 25 0)}\<rparr>"

definition sample_tx :: transaction where
  "sample_tx = tx_write 1 [7] [9] (transaction_new (HlcTimestamp 25 0))"

theorem commit_atomic_witness:
  "case tm_commit mem_rocks 31 sample_tx sample_tm of
     (tm', Inr ts) \<Rightarrow> ts = HlcTimestamp 31 0 \<and> visible (mem_view (tm_engine tm')) 1 [7] ts = Some [9] \<and>
       visible (mem_view (tm_engine tm')) 1 [7] (HlcTimestamp 30 0) =
       visible (mem_view (tm_engine sample_tm)) 1 [7] (HlcTimestamp 30 0)
   | _ \<Rightarrow> False"
proof -
  have ev: "snd (tm_commit mem_rocks 31 sample_tx sample_tm) = Inr (HlcTimestamp 31 0)" by code_simp
  then obtain tm' where c: "tm_commit mem_rocks 31 sample_tx sample_tm = (tm', Inr (HlcTimestamp 31 0))"
    by (metis prod.collapse)
  have tx: "tx_writes sample_tx = [(1, [7], [9])]" "\<not> tx_done sample_tx"
    by (simp_all add: sample_tx_def tx_write_def transaction_new_def)
  have tm: "tm_engine sample_tm = sample_db" "hlc_inner (tm_clock sample_tm) = HlcTimestamp 30 0"
    by (simp_all add: sample_tm_def)
  have own: "read_own_write sample_tx 1 [7] = Some [9]" by (simp add: read_own_write_def tx)
  have lt: "HlcTimestamp 30 0 < HlcTimestamp 31 0" by (simp add: less_hlc_timestamp_def)
  from commit_atomic [OF mem_store_laws.rocks_store_axioms c tx(2)] sample_db_uniform
  show ?thesis
    by (simp add: c tx tm own lt encodable_def advance_def)
qed

theorem gc_keeps_reads_witness:
  "case run_once mem_rocks [1, 2] sample_tm of
     (tm', Inr stats) \<Rightarrow> versions_deleted stats = 1 \<and>
       read_latest mem_rocks 1 [7] (HlcTimestamp 25 0) (tm_engine tm') = Inr (Some [2])
   | _ \<Rightarrow> False"
proof -
  have "map_sum id versions_deleted (snd (run_once mem_rocks [1, 2] sample_tm)) = Inr 1 \<and>
      read_latest mem_rocks 1 [7] (HlcTimestamp 25 0) sample_db = Inr (Some [2])" by code_simp
  moreover obtain tm' res where g: "run_once mem_rocks [1, 2] sample_tm = (tm', res)" by fastforce
  ultimately have res: "map_sum id versions_deleted res = Inr 1" and
    rd: "read_latest mem_rocks 1 [7] (HlcTimestamp 25 0) sample_db = Inr (Some [2])" by simp_all
  have "\<forall>t. long_keys (mem_view (tm_engine sample_tm)) t"
    by (auto simp: long_keys_def sample_tm_def sample_db_view split: if_splits)
  moreover have "safe_horizon (active_snapshots sample_tm) = HlcTimestamp 25 0"
    by (simp add: safe_horizon_def sample_tm_def encodable_def)
  moreover have "tm_engine sample_tm = sample_db" by (simp add: sample_tm_def)
  ultimately have "read_latest mem_rocks 1 [7] (HlcTimestamp 25 0) (tm_engine tm') = Inr (Some [2])"
    using gc_keeps_reads [OF mem_store_laws.rocks_store_axioms g, of 1 "[7]" "HlcTimestamp 25 0"]
      sample_db_uniform rd by (simp add: encodable_def)
  then show ?thesis using g res by (cases res) simp_all
qed

section \<open>Interleavings inside begin and commit\<close>

text \<open>\<open>begin\<close> does not take the commit lock. Here a transaction begins between the commit
  timestamp of another one and its batch: its two reads of the same row differ, and its own
  write of that row is then accepted although it was based on the first of them.\<close>

definition begin_inside_commit ::
  "(txn_error + bytes option) \<times> (txn_error + bytes option) \<times> (txn_error + hlc_timestamp)" where
  "begin_inside_commit =
     (case tm_begin 31 sample_tm of (tm1, tx1) \<Rightarrow>
      case begin_tick 31 tm1 of (tm2, commit_ts) \<Rightarrow>
      case tm_begin 31 tm2 of (tm3, tx2) \<Rightarrow>
      case commit_flush mem_rocks commit_ts (tx_write 1 [7] [5] tx1) tm3 of (tm4, _) \<Rightarrow>
        (tm_read mem_rocks tx2 1 [7] tm3, tm_read mem_rocks tx2 1 [7] tm4,
         snd (tm_commit mem_rocks 31 (tx_write 1 [7] [6] tx2) tm4)))"

lemma race_reads:
  "read_latest mem_rocks 1 [7] (HlcTimestamp 31 2) sample_db = Inr (Some [2])"
  "read_latest mem_rocks 1 [7] (HlcTimestamp 31 2)
     (mem_put CF_DATA (encode_versioned_key 1 [7] (HlcTimestamp 31 1)) [5] sample_db) = Inr (Some [5])"
  "latest_visible_ts_any mem_rocks 1 [7]
     (mem_put CF_DATA (encode_versioned_key 1 [7] (HlcTimestamp 31 1)) [5] sample_db) =
     Inr (Some (HlcTimestamp 31 1))"
  by (simp_all add: read_latest_def latest_visible_ts_any_def sample_eval HLC_MAX_code
      decode_ts_from_key_def from_be_bytes_def be_value_def from_u64_code)


text \<open>A collection that runs between the tick of \<open>begin\<close> and the registration of the snapshot
  uses a horizon above it: the row the transaction could read is gone.\<close>

definition gc_inside_begin :: "(txn_error + bytes option) \<times> (txn_error + bytes option)" where
  "gc_inside_begin =
     (case begin_tick 12 (sample_tm\<lparr>active_snapshots := {},
          tm_clock := \<lparr>hlc_inner = HlcTimestamp 12 0, max_skew_ms = 0\<rparr>\<rparr>) of (tm1, ts) \<Rightarrow>
      case run_once mem_rocks [1] tm1 of (tm2, _) \<Rightarrow>
      case begin_register ts tm2 of (tm3, tx) \<Rightarrow>
        (tm_read mem_rocks tx 1 [7] tm1, tm_read mem_rocks tx 1 [7] tm3))"

lemma sample_rows:
  "raw_scan_table_versions mem_rocks 1 sample_db = Inr
     [([0, 0, 0, 1, 7, 0, 0, 0, 0, 0, 10, 0, 0], [1]), ([0, 0, 0, 1, 7, 0, 0, 0, 0, 0, 20, 0, 0], [2]),
      ([0, 0, 0, 1, 8, 0, 0, 0, 0, 0, 15, 0, 0], [3])]"
  by (simp add: raw_scan_table_versions_def sample_eval)

lemma sample_decoded:
  "decoded_versions
     [([0, 0, 0, 1, 7, 0, 0, 0, 0, 0, 10, 0, 0], [1]), ([0, 0, 0, 1, 7, 0, 0, 0, 0, 0, 20, 0, 0], [2]),
      ([0, 0, 0, 1, 8, 0, 0, 0, 0, 0, 15, 0, 0], [3])] =
   [([7], HlcTimestamp 10 0, [0, 0, 0, 1, 7, 0, 0, 0, 0, 0, 10, 0, 0]),
    ([7], HlcTimestamp 20 0, [0, 0, 0, 1, 7, 0, 0, 0, 0, 0, 20, 0, 0]),
    ([8], HlcTimestamp 15 0, [0, 0, 0, 1, 8, 0, 0, 0, 0, 0, 15, 0, 0])]"
  by (simp add: decoded_versions_def List.map_filter_def decode_pk_from_key_def
      decode_ts_from_key_def from_be_bytes_def be_value_def from_u64_code)

lemma sample_collectable:
  "collectable HLC_MAX [(HlcTimestamp 10 0, [0, 0, 0, 1, 7, 0, 0, 0, 0, 0, 10, 0, 0]), (HlcTimestamp 20 0, k)] =
     [([7], HlcTimestamp 10 0)]"
  "collectable HLC_MAX [(HlcTimestamp 15 0, k)] = []"
  by (simp_all add: collectable_def HLC_MAX_code less_eq_hlc_timestamp_def less_hlc_timestamp_def
      Let_def List.map_filter_def decode_pk_from_key_def)

lemma sample_gc:
  "gc_table mem_rocks 1 HLC_MAX sample_db =
     (mem_del CF_DATA (encode_versioned_key 1 [7] (HlcTimestamp 10 0)) sample_db, Inr 1)"
  by (simp add: gc_table_def sample_rows by_pk_def sample_decoded Let_def sample_collectable
      delete_version_def mem_rocks_ops)

lemma sample_gc_reads:
  "read_latest mem_rocks 1 [7] (HlcTimestamp 12 1) sample_db = Inr (Some [1])"
  "read_latest mem_rocks 1 [7] (HlcTimestamp 12 1)
     (mem_del CF_DATA (encode_versioned_key 1 [7] (HlcTimestamp 10 0)) sample_db) = Inr None"
  by (simp_all add: read_latest_def sample_eval)

theorem gc_inside_begin_loses_row: "gc_inside_begin = (Inr (Some [1]), Inr None)"
  by (simp add: gc_inside_begin_def sample_tm_def begin_tick_def tick_def advance_def run_once_def
      begin_register_def tm_read_def read_own_write_def transaction_new_def safe_horizon_def sample_gc
      sample_gc_reads Let_def)

text \<open>A commit that fails in the storage layer leaves its snapshot registered, so the horizon
  of the collector never passes it.\<close>

theorem failed_commit_keeps_snapshot:
  assumes "commit_flush r ts tx tm = (tm', Inl e)"
  shows "active_snapshots tm' = active_snapshots tm"
  using assms by (auto simp: commit_flush_def split: sum.splits)

end
