(* ===== verification/Wire.thy ===== *)
theory Wire
  imports Utf8 Hlc
begin

text \<open>
  Length-prefixed wire formats. The command codecs of the state machine
  (\<open>replicated_sql.rs\<close>, \<open>replicated_identity.rs\<close>) write big-endian integers and
  \<open>u32\<close>-prefixed byte strings and read them back with a bounds-checked \<open>Reader\<close>. The two
  readers are the same code with different error types, so the error values are arguments
  here. A \<open>Reader\<close> is the list of the bytes from its position on.

  The locale \<open>wire\<close> is the contract of one field: what the writer produces is read back with
  the rest of the input untouched, and whatever is read is exactly what the writer produces
  for the value. The second half is what makes an accepted message canonical.
\<close>

section \<open>Reader and writer primitives\<close>

definition rd_take :: "'e \<Rightarrow> nat \<Rightarrow> bytes \<Rightarrow> 'e + bytes \<times> bytes" where
  "rd_take eof len r = (if len \<le> length r then Inr (take len r, drop len r) else Inl eof)"

definition rd_u8 :: "'e \<Rightarrow> bytes \<Rightarrow> 'e + u8 \<times> bytes" where
  "rd_u8 eof r = rbind (rd_take eof 1 r) (\<lambda>(raw, r). Inr (raw ! 0, r))"

definition rd_u32 :: "'e \<Rightarrow> bytes \<Rightarrow> 'e + u32 \<times> bytes" where
  "rd_u32 eof r = rbind (rd_take eof 4 r) (\<lambda>(raw, r). Inr (of_nat (be_value raw), r))"

definition rd_u64 :: "'e \<Rightarrow> bytes \<Rightarrow> 'e + u64 \<times> bytes" where
  "rd_u64 eof r = rbind (rd_take eof 8 r) (\<lambda>(raw, r). Inr (of_nat (be_value raw), r))"

definition rd_bytes :: "'e \<Rightarrow> bytes \<Rightarrow> 'e + bytes \<times> bytes" where
  "rd_bytes eof r = rbind (rd_u32 eof r) (\<lambda>(len, r). rd_take eof (unat len) r)"

definition rd_string :: "'e \<Rightarrow> 'e \<Rightarrow> bytes \<Rightarrow> 'e + string \<times> bytes" where
  "rd_string eof invalid r =
     rbind (rd_bytes eof r) (\<lambda>(raw, r).
       rbind (ok_or (string_from_utf8 raw) invalid) (\<lambda>s. Inr (s, r)))"

text \<open>The loop \<open>for _ in 0..count\<close> of the decoders.\<close>

fun rd_many :: "(bytes \<Rightarrow> 'e + 'a \<times> bytes) \<Rightarrow> nat \<Rightarrow> bytes \<Rightarrow> 'e + 'a list \<times> bytes" where
  "rd_many get 0 r = Inr ([], r)"
| "rd_many get (Suc n) r =
     rbind (get r) (\<lambda>(x, r). rbind (rd_many get n r) (\<lambda>(xs, r). Inr (x # xs, r)))"

definition wr_u32 :: "u32 \<Rightarrow> bytes" where
  "wr_u32 v = be_bytes 4 (unat v)"

definition wr_u64 :: "u64 \<Rightarrow> bytes" where
  "wr_u64 v = be_bytes 8 (unat v)"

text \<open>\<open>u32::try_from\<close> of a length, then the length and the bytes.\<close>

definition wr_bytes :: "'e \<Rightarrow> bytes \<Rightarrow> 'e + bytes" where
  "wr_bytes too_large value =
     (if length value < 2 ^ 32 then Inr (wr_u32 (of_nat (length value)) @ value) else Inl too_large)"

fun wr_many :: "('a \<Rightarrow> 'e + bytes) \<Rightarrow> 'a list \<Rightarrow> 'e + bytes" where
  "wr_many put [] = Inr []"
| "wr_many put (x # xs) = rbind (put x) (\<lambda>a. rbind (wr_many put xs) (\<lambda>b. Inr (a @ b)))"

definition wr_pair :: "('a \<Rightarrow> 'e + bytes) \<Rightarrow> ('b \<Rightarrow> 'e + bytes) \<Rightarrow> 'a \<times> 'b \<Rightarrow> 'e + bytes" where
  "wr_pair put1 put2 p = rbind (put1 (fst p)) (\<lambda>a. rbind (put2 (snd p)) (\<lambda>b. Inr (a @ b)))"

definition rd_pair ::
  "(bytes \<Rightarrow> 'e + 'a \<times> bytes) \<Rightarrow> (bytes \<Rightarrow> 'e + 'b \<times> bytes) \<Rightarrow> bytes \<Rightarrow> 'e + ('a \<times> 'b) \<times> bytes" where
  "rd_pair get1 get2 r = rbind (get1 r) (\<lambda>(a, r). rbind (get2 r) (\<lambda>(b, r). Inr ((a, b), r)))"

section \<open>The contract of a field\<close>

locale wire =
  fixes put :: "'a \<Rightarrow> 'e + bytes" and get :: "bytes \<Rightarrow> 'e + 'a \<times> bytes" and ok :: "'a \<Rightarrow> bool"
  assumes get_put: "ok x \<Longrightarrow> put x = Inr bs \<Longrightarrow> get (bs @ rest) = Inr (x, rest)"
    and put_get: "get r = Inr (x, rest) \<Longrightarrow> ok x \<and> (\<exists>bs. put x = Inr bs \<and> r = bs @ rest)"
begin

lemma get_iff: "get r = Inr (x, rest) \<longleftrightarrow> ok x \<and> (\<exists>bs. put x = Inr bs \<and> r = bs @ rest)"
  using get_put put_get by blast

lemma many_get_put:
  "list_all ok xs \<Longrightarrow> wr_many put xs = Inr bs \<Longrightarrow> rd_many get (length xs) (bs @ rest) = Inr (xs, rest)"
  by (induction xs arbitrary: bs) (auto simp: result_simps get_put)

lemma many_put_get:
  "rd_many get n r = Inr (xs, rest) \<Longrightarrow>
   length xs = n \<and> list_all ok xs \<and> (\<exists>bs. wr_many put xs = Inr bs \<and> r = bs @ rest)"
proof (induction n arbitrary: r xs)
  case (Suc n)
  then obtain x r' ys where x: "get r = Inr (x, r')" and ys: "rd_many get n r' = Inr (ys, rest)"
    and xs: "xs = x # ys" by (auto simp: result_simps)
  from Suc.IH [OF ys] put_get [OF x] xs show ?case by fastforce
qed simp

lemma many_iff:
  "rd_many get n r = Inr (xs, rest) \<longleftrightarrow>
   length xs = n \<and> list_all ok xs \<and> (\<exists>bs. wr_many put xs = Inr bs \<and> r = bs @ rest)"
  using many_get_put many_put_get by blast

end

locale wire_pair = fst: wire put1 get1 ok1 + snd: wire put2 get2 ok2
  for put1 :: "'a \<Rightarrow> 'e + bytes" and get1 ok1 and put2 :: "'b \<Rightarrow> 'e + bytes" and get2 ok2

sublocale wire_pair \<subseteq> pair: wire "wr_pair put1 put2" "rd_pair get1 get2" "\<lambda>p. ok1 (fst p) \<and> ok2 (snd p)"
proof
  show "ok1 (fst p) \<and> ok2 (snd p) \<Longrightarrow> wr_pair put1 put2 p = Inr bs \<Longrightarrow>
      rd_pair get1 get2 (bs @ rest) = Inr (p, rest)" for p bs rest
    by (auto simp: wr_pair_def rd_pair_def result_simps fst.get_put snd.get_put)
next
  fix r p rest
  assume "rd_pair get1 get2 r = Inr (p, rest)"
  then obtain a b r' where 1: "get1 r = Inr (a, r')" and 2: "get2 r' = Inr (b, rest)" and p: "p = (a, b)"
    by (auto simp: rd_pair_def result_simps)
  from fst.put_get [OF 1] snd.put_get [OF 2]
  show "(ok1 (fst p) \<and> ok2 (snd p)) \<and> (\<exists>bs. wr_pair put1 put2 p = Inr bs \<and> r = bs @ rest)"
    by (auto simp: wr_pair_def p)
qed

section \<open>The primitives keep it\<close>

lemma rd_take_append [simp]: "rd_take eof (length bs) (bs @ rest) = Inr (bs, rest)"
  by (simp add: rd_take_def)

lemma rd_take_iff [result_simps]:
  "rd_take eof n r = Inr (x, rest) \<longleftrightarrow> length x = n \<and> r = x @ rest"
  by (auto simp: rd_take_def)

lemma unat_less_2p: "unat (w :: 'a::len word) < 2 ^ LENGTH('a)"
  by (rule unsigned_less)

lemma unat_of_nat_eq: "n < 2 ^ LENGTH('a) \<Longrightarrow> unat (of_nat n :: 'a::len word) = n"
  by (simp add: unat_of_nat)

lemma wr_of_be_value:
  "length raw = 4 \<Longrightarrow> wr_u32 (of_nat (be_value raw)) = raw"
  "length raw = 8 \<Longrightarrow> wr_u64 (of_nat (be_value raw)) = raw"
  using be_value_less [of raw] be_bytes_be_value [of raw]
  by (simp_all add: wr_u32_def wr_u64_def unat_of_nat_eq)

interpretation u32_wire: wire "Inr \<circ> wr_u32" "rd_u32 eof" "\<lambda>_. True" for eof :: 'e
proof
  show "(Inr \<circ> wr_u32) x = Inr bs \<Longrightarrow> rd_u32 eof (bs @ rest) = Inr (x, rest)" for x rest and bs :: bytes
    using unat_less_2p [of x] by (auto simp: rd_u32_def wr_u32_def rd_take_def)
  show "rd_u32 eof r = Inr (x, rest) \<Longrightarrow> True \<and> (\<exists>bs. (Inr \<circ> wr_u32) x = (Inr bs :: 'e + bytes) \<and> r = bs @ rest)"
    for r x rest
    by (auto simp: rd_u32_def result_simps wr_of_be_value)
qed

interpretation u64_wire: wire "Inr \<circ> wr_u64" "rd_u64 eof" "\<lambda>_. True" for eof :: 'e
proof
  show "(Inr \<circ> wr_u64) x = Inr bs \<Longrightarrow> rd_u64 eof (bs @ rest) = Inr (x, rest)" for x rest and bs :: bytes
    using unat_less_2p [of x] by (auto simp: rd_u64_def wr_u64_def rd_take_def)
  show "rd_u64 eof r = Inr (x, rest) \<Longrightarrow> True \<and> (\<exists>bs. (Inr \<circ> wr_u64) x = (Inr bs :: 'e + bytes) \<and> r = bs @ rest)"
    for r x rest
    by (auto simp: rd_u64_def result_simps wr_of_be_value)
qed

interpretation u8_wire: wire "\<lambda>b. Inr [b]" "rd_u8 eof" "\<lambda>_. True" for eof :: 'e
proof
  show "Inr [x] = (Inr bs :: 'e + bytes) \<Longrightarrow> rd_u8 eof (bs @ rest) = Inr (x, rest)" for x rest and bs :: bytes
    by (auto simp: rd_u8_def rd_take_def)
  show "rd_u8 eof r = Inr (x, rest) \<Longrightarrow> True \<and> (\<exists>bs. Inr [x] = (Inr bs :: 'e + bytes) \<and> r = bs @ rest)"
    for r x rest
    by (auto simp: rd_u8_def result_simps length_Suc_conv)
qed

interpretation bytes_wire: wire "wr_bytes too_large" "rd_bytes eof" "\<lambda>_. True" for too_large eof :: 'e
proof
  show "wr_bytes too_large x = Inr bs \<Longrightarrow> rd_bytes eof (bs @ rest) = Inr (x, rest)" for x bs rest
    using u32_wire.get_put [of "of_nat (length x)" "wr_u32 (of_nat (length x))" eof "x @ rest"]
    by (auto simp: wr_bytes_def rd_bytes_def unat_of_nat_eq split: if_splits)
next
  fix r x rest
  assume "rd_bytes eof r = Inr (x, rest)"
  then obtain len r' where l: "rd_u32 eof r = Inr (len, r')" and x: "length x = unat len" "r' = x @ rest"
    by (auto simp: rd_bytes_def result_simps)
  from u32_wire.put_get [OF l] x unat_less_2p [of len]
  show "True \<and> (\<exists>bs. wr_bytes too_large x = Inr bs \<and> r = bs @ rest)"
    by (auto simp: wr_bytes_def)
qed

interpretation string_wire: wire "wr_bytes too_large \<circ> str_bytes" "rd_string eof invalid" rust_string
  for too_large eof invalid :: 'e
proof
  show "rust_string x \<Longrightarrow> (wr_bytes too_large \<circ> str_bytes) x = Inr bs \<Longrightarrow>
      rd_string eof invalid (bs @ rest) = Inr (x, rest)" for x bs rest
    by (simp add: rd_string_def bytes_wire.get_put)
  show "rd_string eof invalid r = Inr (x, rest) \<Longrightarrow>
      rust_string x \<and> (\<exists>bs. (wr_bytes too_large \<circ> str_bytes) x = Inr bs \<and> r = bs @ rest)" for r x rest
    using bytes_wire.put_get [of eof r _ rest too_large] by (auto simp: rd_string_def result_simps)
qed

lemma length_wr [simp]: "length (wr_u32 v) = 4" "length (wr_u64 w) = 8"
  by (simp_all add: wr_u32_def wr_u64_def)

lemma if_error_iff: "(if b then Inl e else Inr x) = Inr y \<longleftrightarrow> \<not> b \<and> x = y"
  by simp

lemma u_wire_iff [result_simps]:
  "rd_u32 (eof :: 'e) r = Inr (v, rest) \<longleftrightarrow> r = wr_u32 v @ rest"
  "rd_u64 eof r = Inr (w, rest) \<longleftrightarrow> r = wr_u64 w @ rest"
  "rd_u8 eof r = Inr (b, rest) \<longleftrightarrow> r = b # rest"
  using u32_wire.get_iff [of eof r v rest] u64_wire.get_iff [of eof r w rest] u8_wire.get_iff [of eof r b rest]
  by auto

lemma rd_wr [simp]:
  "rd_u32 eof (wr_u32 v @ rest) = Inr (v, rest)" "rd_u64 eof (wr_u64 w @ rest) = Inr (w, rest)"
  by (simp_all add: u_wire_iff)

end
