(* ===== verification/Replicated_Sql.thy ===== *)
theory Replicated_Sql
  imports Wire
begin

text \<open>
  The replicated SQL commands of \<open>replicated_sql.rs\<close>: the mutation type, its versioned binary
  encoding and the validating decoder, with the schema types of \<open>catalog.rs\<close>. The writers
  return the bytes they append. The main result is that the decoder accepts exactly the bytes
  the encoder produces, so that every accepted command has one serialized form.
\<close>

section \<open>Mutations\<close>

record column_def =
  col_name :: string
  col_data_type :: string

record table_schema =
  schema_name :: string
  schema_columns :: "column_def list"

record replicated_row_write =
  primary_key :: bytes
  row_value :: bytes

datatype replicated_mutation =
    CreateTable table_schema
  | DropTable string u32
  | InsertRows string u32 u64 "replicated_row_write list"
  | UpdateRows string u32 u64 "replicated_row_write list"
  | DeleteRows string u32 u64 "bytes list"

datatype mutation_codec_error =
    TooLarge | UnexpectedEof | InvalidMagic | UnsupportedVersion u8 | UnknownOpcode u8 | InvalidUtf8
  | TooManyItems | EmptyTableName | ZeroCommitTimestamp | NonCanonicalRowOrder | TrailingBytes
  | FieldTooLarge

definition NBRM_MAGIC :: bytes where "NBRM_MAGIC = str_bytes ''NBRM''"
definition REPLICATED_MUTATION_VERSION :: u8 where "REPLICATED_MUTATION_VERSION = 1"
definition MAX_REPLICATED_MUTATION_BYTES :: nat where "MAX_REPLICATED_MUTATION_BYTES = 16 * 1024 * 1024"
definition MAX_ITEMS :: nat where "MAX_ITEMS = 1000000"

definition OP_CREATE_TABLE :: u8 where "OP_CREATE_TABLE = 1"
definition OP_DROP_TABLE :: u8 where "OP_DROP_TABLE = 2"
definition OP_INSERT_ROWS :: u8 where "OP_INSERT_ROWS = 3"
definition OP_UPDATE_ROWS :: u8 where "OP_UPDATE_ROWS = 4"
definition OP_DELETE_ROWS :: u8 where "OP_DELETE_ROWS = 5"

section \<open>Validation\<close>

text \<open>The loop over \<open>windows(2)\<close>.\<close>

definition ensure_strict_key_order :: "bytes list \<Rightarrow> mutation_codec_error + unit" where
  "ensure_strict_key_order keys =
     require (list_all (\<lambda>(a, b). \<not> b \<le> a) (zip keys (tl keys))) NonCanonicalRowOrder"

definition ensure_row_write_order :: "replicated_row_write list \<Rightarrow> mutation_codec_error + unit" where
  "ensure_row_write_order rows =
     require (list_all (\<lambda>(a, b). \<not> primary_key b \<le> primary_key a) (zip rows (tl rows)))
       NonCanonicalRowOrder"

definition validate_table_name :: "string \<Rightarrow> mutation_codec_error + unit" where
  "validate_table_name table = (if table = [] then Inl EmptyTableName else Inr ())"

definition validate_commit_ts :: "u64 \<Rightarrow> mutation_codec_error + unit" where
  "validate_commit_ts commit_ts = (if commit_ts = 0 then Inl ZeroCommitTimestamp else Inr ())"

section \<open>Encoder\<close>

definition put_count :: "nat \<Rightarrow> mutation_codec_error + bytes" where
  "put_count v =
     (if MAX_ITEMS < v then Inl TooManyItems
      else if v < 2 ^ 32 then Inr (wr_u32 (of_nat v)) else Inl FieldTooLarge)"

definition put_bytes :: "bytes \<Rightarrow> mutation_codec_error + bytes" where
  "put_bytes v = wr_bytes FieldTooLarge v"

definition put_string :: "string \<Rightarrow> mutation_codec_error + bytes" where
  "put_string s = put_bytes (str_bytes s)"

definition put_column :: "column_def \<Rightarrow> mutation_codec_error + bytes" where
  "put_column c = wr_pair put_string put_string (col_name c, col_data_type c)"

definition put_row :: "replicated_row_write \<Rightarrow> mutation_codec_error + bytes" where
  "put_row w = wr_pair put_bytes put_bytes (primary_key w, row_value w)"

definition encode_row_writes ::
  "u8 \<Rightarrow> string \<Rightarrow> u32 \<Rightarrow> u64 \<Rightarrow> replicated_row_write list \<Rightarrow> mutation_codec_error + bytes" where
  "encode_row_writes opcode table table_id commit_ts rows =
     rbind (validate_table_name table) (\<lambda>_.
     rbind (validate_commit_ts commit_ts) (\<lambda>_.
     rbind (put_string table) (\<lambda>t.
     let canonical = sort_key primary_key rows in
     rbind (ensure_row_write_order canonical) (\<lambda>_.
     rbind (put_count (length canonical)) (\<lambda>n.
     rbind (wr_many put_row canonical) (\<lambda>rs.
       Inr ([opcode] @ t @ wr_u32 table_id @ wr_u64 commit_ts @ n @ rs)))))))"

definition encode_body :: "replicated_mutation \<Rightarrow> mutation_codec_error + bytes" where
  "encode_body m =
     (case m of
        CreateTable schema \<Rightarrow>
          rbind (validate_table_name (schema_name schema)) (\<lambda>_.
          rbind (put_string (schema_name schema)) (\<lambda>t.
          rbind (put_count (length (schema_columns schema))) (\<lambda>n.
          rbind (wr_many put_column (schema_columns schema)) (\<lambda>cs.
            Inr ([OP_CREATE_TABLE] @ t @ n @ cs)))))
      | DropTable table table_id \<Rightarrow>
          rbind (validate_table_name table) (\<lambda>_.
          rbind (put_string table) (\<lambda>t. Inr ([OP_DROP_TABLE] @ t @ wr_u32 table_id)))
      | InsertRows table table_id commit_ts rows \<Rightarrow>
          encode_row_writes OP_INSERT_ROWS table table_id commit_ts rows
      | UpdateRows table table_id commit_ts rows \<Rightarrow>
          encode_row_writes OP_UPDATE_ROWS table table_id commit_ts rows
      | DeleteRows table table_id commit_ts primary_keys \<Rightarrow>
          rbind (validate_table_name table) (\<lambda>_.
          rbind (validate_commit_ts commit_ts) (\<lambda>_.
          rbind (put_string table) (\<lambda>t.
          let keys = sort primary_keys in
          rbind (ensure_strict_key_order keys) (\<lambda>_.
          rbind (put_count (length keys)) (\<lambda>n.
          rbind (wr_many put_bytes keys) (\<lambda>ks.
            Inr ([OP_DELETE_ROWS] @ t @ wr_u32 table_id @ wr_u64 commit_ts @ n @ ks))))))))"

definition encode_mutation :: "replicated_mutation \<Rightarrow> mutation_codec_error + bytes" where
  "encode_mutation m =
     rbind (encode_body m) (\<lambda>body.
       let out = NBRM_MAGIC @ [REPLICATED_MUTATION_VERSION] @ body in
       if MAX_REPLICATED_MUTATION_BYTES < length out then Inl TooLarge else Inr out)"

section \<open>Decoder\<close>

definition rd_count :: "bytes \<Rightarrow> mutation_codec_error + nat \<times> bytes" where
  "rd_count r =
     rbind (rd_u32 UnexpectedEof r) (\<lambda>(v, r).
       if MAX_ITEMS < unat v then Inl TooManyItems else Inr (unat v, r))"

definition rd_column :: "bytes \<Rightarrow> mutation_codec_error + column_def \<times> bytes" where
  "rd_column r =
     rbind (rd_pair (rd_string UnexpectedEof InvalidUtf8) (rd_string UnexpectedEof InvalidUtf8) r)
       (\<lambda>((n, t), r). Inr (\<lparr>col_name = n, col_data_type = t\<rparr>, r))"

definition rd_row :: "bytes \<Rightarrow> mutation_codec_error + replicated_row_write \<times> bytes" where
  "rd_row r =
     rbind (rd_pair (rd_bytes UnexpectedEof) (rd_bytes UnexpectedEof) r)
       (\<lambda>((k, v), r). Inr (\<lparr>primary_key = k, row_value = v\<rparr>, r))"

text \<open>The fields that the three DML commands share: table, table id, timestamp and count.\<close>

definition rd_dml_head ::
  "bytes \<Rightarrow> mutation_codec_error + (string \<times> u32 \<times> u64 \<times> nat) \<times> bytes" where
  "rd_dml_head r =
     rbind (rd_string UnexpectedEof InvalidUtf8 r) (\<lambda>(table, r).
     rbind (validate_table_name table) (\<lambda>_.
     rbind (rd_u32 UnexpectedEof r) (\<lambda>(table_id, r).
     rbind (rd_u64 UnexpectedEof r) (\<lambda>(commit_ts, r).
     rbind (validate_commit_ts commit_ts) (\<lambda>_.
     rbind (rd_count r) (\<lambda>(count, r). Inr ((table, table_id, commit_ts, count), r)))))))"

definition decode_body :: "u8 \<Rightarrow> bytes \<Rightarrow> mutation_codec_error + replicated_mutation \<times> bytes" where
  "decode_body opcode r =
     (if opcode = OP_CREATE_TABLE then
        rbind (rd_string UnexpectedEof InvalidUtf8 r) (\<lambda>(name, r).
        rbind (validate_table_name name) (\<lambda>_.
        rbind (rd_count r) (\<lambda>(count, r).
        rbind (rd_many rd_column count r) (\<lambda>(columns, r).
          Inr (CreateTable \<lparr>schema_name = name, schema_columns = columns\<rparr>, r)))))
      else if opcode = OP_DROP_TABLE then
        rbind (rd_string UnexpectedEof InvalidUtf8 r) (\<lambda>(table, r).
        rbind (validate_table_name table) (\<lambda>_.
        rbind (rd_u32 UnexpectedEof r) (\<lambda>(table_id, r). Inr (DropTable table table_id, r))))
      else if opcode = OP_INSERT_ROWS \<or> opcode = OP_UPDATE_ROWS then
        rbind (rd_dml_head r) (\<lambda>((table, table_id, commit_ts, count), r).
        rbind (rd_many rd_row count r) (\<lambda>(rows, r).
        rbind (ensure_row_write_order rows) (\<lambda>_.
          if opcode = OP_INSERT_ROWS then Inr (InsertRows table table_id commit_ts rows, r)
          else Inr (UpdateRows table table_id commit_ts rows, r))))
      else if opcode = OP_DELETE_ROWS then
        rbind (rd_dml_head r) (\<lambda>((table, table_id, commit_ts, count), r).
        rbind (rd_many (rd_bytes UnexpectedEof) count r) (\<lambda>(primary_keys, r).
        rbind (ensure_strict_key_order primary_keys) (\<lambda>_.
          Inr (DeleteRows table table_id commit_ts primary_keys, r))))
      else Inl (UnknownOpcode opcode))"

definition decode_mutation :: "bytes \<Rightarrow> mutation_codec_error + replicated_mutation" where
  "decode_mutation bs =
     (if MAX_REPLICATED_MUTATION_BYTES < length bs then Inl TooLarge
      else
        rbind (rd_take UnexpectedEof 4 bs) (\<lambda>(magic, r).
        rbind (require (magic = NBRM_MAGIC) InvalidMagic) (\<lambda>_.
        rbind (rd_u8 UnexpectedEof r) (\<lambda>(version, r).
        rbind (require (version = REPLICATED_MUTATION_VERSION) (UnsupportedVersion version)) (\<lambda>_.
        rbind (rd_u8 UnexpectedEof r) (\<lambda>(opcode, r).
        rbind (decode_body opcode r) (\<lambda>(mutation, r).
          if r \<noteq> [] then Inl TrailingBytes else Inr mutation)))))))"

section \<open>What a mutation reports\<close>

definition sql_command_tag :: "replicated_mutation \<Rightarrow> string" where
  "sql_command_tag m =
     (case m of
        CreateTable _ \<Rightarrow> ''CREATE TABLE''
      | DropTable _ _ \<Rightarrow> ''DROP TABLE''
      | InsertRows _ _ _ _ \<Rightarrow> ''INSERT''
      | UpdateRows _ _ _ _ \<Rightarrow> ''UPDATE''
      | DeleteRows _ _ _ _ \<Rightarrow> ''DELETE'')"

definition mut_affected_rows :: "replicated_mutation \<Rightarrow> u64 option" where
  "mut_affected_rows m =
     (case m of
        InsertRows _ _ _ rows \<Rightarrow> Some (of_nat (length rows))
      | UpdateRows _ _ _ rows \<Rightarrow> Some (of_nat (length rows))
      | DeleteRows _ _ _ primary_keys \<Rightarrow> Some (of_nat (length primary_keys))
      | _ \<Rightarrow> None)"

definition mut_commit_ts :: "replicated_mutation \<Rightarrow> u64 option" where
  "mut_commit_ts m =
     (case m of
        InsertRows _ _ ts _ \<Rightarrow> Some ts
      | UpdateRows _ _ ts _ \<Rightarrow> Some ts
      | DeleteRows _ _ ts _ \<Rightarrow> Some ts
      | _ \<Rightarrow> None)"

definition is_replicated_mutation :: "bytes \<Rightarrow> bool" where
  "is_replicated_mutation bs = starts_with bs NBRM_MAGIC"

section \<open>The codec is exact\<close>

text \<open>The strings of a mutation are Rust strings.\<close>

definition rust_mutation :: "replicated_mutation \<Rightarrow> bool" where
  "rust_mutation m \<longleftrightarrow>
     (case m of
        CreateTable s \<Rightarrow> rust_string (schema_name s) \<and>
          list_all (\<lambda>c. rust_string (col_name c) \<and> rust_string (col_data_type c)) (schema_columns s)
      | DropTable t _ \<Rightarrow> rust_string t
      | InsertRows t _ _ _ \<Rightarrow> rust_string t
      | UpdateRows t _ _ _ \<Rightarrow> rust_string t
      | DeleteRows t _ _ _ \<Rightarrow> rust_string t)"

text \<open>The form of a mutation in which its rows are in key order.\<close>

definition canonical :: "replicated_mutation \<Rightarrow> replicated_mutation" where
  "canonical m =
     (case m of
        InsertRows t i ts rows \<Rightarrow> InsertRows t i ts (sort_key primary_key rows)
      | UpdateRows t i ts rows \<Rightarrow> UpdateRows t i ts (sort_key primary_key rows)
      | DeleteRows t i ts keys \<Rightarrow> DeleteRows t i ts (sort keys)
      | _ \<Rightarrow> m)"

interpretation key_wire: wire put_bytes "rd_bytes UnexpectedEof" "\<lambda>_. True"
  unfolding put_bytes_def by unfold_locales

interpretation name_wire: wire put_string "rd_string UnexpectedEof InvalidUtf8" rust_string
  using string_wire.wire_axioms [of FieldTooLarge UnexpectedEof InvalidUtf8]
  by (simp add: put_string_def [abs_def] put_bytes_def comp_def)

interpretation row_fields: wire_pair put_bytes "rd_bytes UnexpectedEof" "\<lambda>_. True"
  put_bytes "rd_bytes UnexpectedEof" "\<lambda>_. True" ..

interpretation column_fields: wire_pair put_string "rd_string UnexpectedEof InvalidUtf8" rust_string
  put_string "rd_string UnexpectedEof InvalidUtf8" rust_string ..

interpretation row_wire: wire put_row rd_row "\<lambda>_. True"
  by unfold_locales
    (auto simp: put_row_def rd_row_def result_simps row_fields.pair.get_put dest: row_fields.pair.put_get)

interpretation column_wire: wire put_column rd_column
    "\<lambda>c. rust_string (col_name c) \<and> rust_string (col_data_type c)"
  by unfold_locales
    (auto simp: put_column_def rd_column_def result_simps column_fields.pair.get_put [of "(col_name c, col_data_type c)" for c]
      dest: column_fields.pair.put_get)

lemma put_count_iff [result_simps]:
  "put_count v = Inr bs \<longleftrightarrow> v \<le> MAX_ITEMS \<and> bs = wr_u32 (of_nat v)"
  by (auto simp: put_count_def MAX_ITEMS_def)

interpretation count_wire: wire put_count rd_count "\<lambda>_. True"
proof
  show "put_count x = Inr bs \<Longrightarrow> rd_count (bs @ rest) = Inr (x, rest)" for x bs rest
    by (auto simp: rd_count_def put_count_iff unat_of_nat_eq MAX_ITEMS_def)
  show "rd_count r = Inr (x, rest) \<Longrightarrow> True \<and> (\<exists>bs. put_count x = Inr bs \<and> r = bs @ rest)" for r x rest
    by (auto simp: rd_count_def result_simps if_error_iff)
qed

lemma validate_iff [result_simps]:
  "validate_table_name t = Inr u \<longleftrightarrow> t \<noteq> []" "validate_commit_ts ts = Inr u \<longleftrightarrow> ts \<noteq> 0"
  by (simp_all add: validate_table_name_def validate_commit_ts_def)

lemma order_iff [result_simps]:
  "ensure_row_write_order rows = Inr u \<longleftrightarrow> sorted_wrt (\<lambda>a b. primary_key a < primary_key b) rows"
  "ensure_strict_key_order keys = Inr u \<longleftrightarrow> sorted_wrt (<) keys"
  using windows_strict [of "\<lambda>x. x" keys]
  by (simp_all add: ensure_row_write_order_def ensure_strict_key_order_def windows_strict result_simps)

text \<open>What the encoder and the decoder do is one relation between mutations and bodies.\<close>

lemma encode_body_canonical: "encode_body (canonical m) = encode_body m"
  by (cases m) (simp_all add: sort_key_id_if_sorted encode_body_def canonical_def encode_row_writes_def)

lemma rd_dml_head_iff [result_simps]:
  "rd_dml_head r = Inr ((table, table_id, commit_ts, count), rest) \<longleftrightarrow>
   rust_string table \<and> table \<noteq> [] \<and> commit_ts \<noteq> 0 \<and>
   (\<exists>t n. put_string table = Inr t \<and> put_count count = Inr n \<and>
      r = t @ wr_u32 table_id @ wr_u64 commit_ts @ n @ rest)"
  unfolding rd_dml_head_def
  by (auto simp: result_simps name_wire.get_iff count_wire.get_iff)

lemmas op_defs = OP_CREATE_TABLE_def OP_DROP_TABLE_def OP_INSERT_ROWS_def OP_UPDATE_ROWS_def OP_DELETE_ROWS_def

lemmas decode_simps = decode_body_def encode_body_def encode_row_writes_def rust_mutation_def
  canonical_def result_simps name_wire.get_iff count_wire.get_iff column_wire.many_iff
  row_wire.many_iff key_wire.many_iff list.pred_True

text \<open>The bodies of each command: the decoder reads what the encoder writes, and nothing else.\<close>

definition body_of :: "replicated_mutation \<Rightarrow> u8 \<Rightarrow> bytes \<Rightarrow> bytes \<Rightarrow> bool" where
  "body_of m opcode r rest \<longleftrightarrow> rust_mutation m \<and> canonical m = m \<and>
     (\<exists>bs. encode_body m = Inr (opcode # bs) \<and> r = bs @ rest)"

lemma decode_create:
  "decode_body OP_CREATE_TABLE r = Inr (m, rest) \<longleftrightarrow>
   (\<exists>s. m = CreateTable s \<and> body_of m OP_CREATE_TABLE r rest)" (is "?l \<longleftrightarrow> ?r")
proof
  show "?l \<Longrightarrow> ?r" by (auto simp: decode_simps body_of_def)
  assume ?r
  then obtain s where m: "m = CreateTable s" and "body_of m OP_CREATE_TABLE r rest" by blast
  then show ?l by (cases s) (auto simp: decode_simps body_of_def)
qed

lemma decode_drop:
  "decode_body OP_DROP_TABLE r = Inr (m, rest) \<longleftrightarrow>
   (\<exists>t i. m = DropTable t i \<and> body_of m OP_DROP_TABLE r rest)"
  by (auto simp: decode_simps body_of_def op_defs)

lemma decode_insert:
  "decode_body OP_INSERT_ROWS r = Inr (m, rest) \<longleftrightarrow>
   (\<exists>t i ts rows. m = InsertRows t i ts rows \<and> body_of m OP_INSERT_ROWS r rest)"
  by (auto simp: decode_simps body_of_def op_defs strict_sort_key_id)

lemma decode_update:
  "decode_body OP_UPDATE_ROWS r = Inr (m, rest) \<longleftrightarrow>
   (\<exists>t i ts rows. m = UpdateRows t i ts rows \<and> body_of m OP_UPDATE_ROWS r rest)"
  by (auto simp: decode_simps body_of_def op_defs strict_sort_key_id)

lemma decode_delete:
  "decode_body OP_DELETE_ROWS r = Inr (m, rest) \<longleftrightarrow>
   (\<exists>t i ts keys. m = DeleteRows t i ts keys \<and> body_of m OP_DELETE_ROWS r rest)"
  by (auto simp: decode_simps body_of_def op_defs strict_sort_key_id [where f = "\<lambda>x. x"])

lemma encode_body_opcode:
  "encode_body m = Inr (opcode # bs) \<Longrightarrow> opcode =
    (case m of CreateTable _ \<Rightarrow> OP_CREATE_TABLE | DropTable _ _ \<Rightarrow> OP_DROP_TABLE
     | InsertRows _ _ _ _ \<Rightarrow> OP_INSERT_ROWS | UpdateRows _ _ _ _ \<Rightarrow> OP_UPDATE_ROWS
     | DeleteRows _ _ _ _ \<Rightarrow> OP_DELETE_ROWS)"
  by (cases m) (auto simp: encode_body_def encode_row_writes_def Let_def result_simps)

lemma decode_body_iff: "decode_body opcode r = Inr (m, rest) \<longleftrightarrow> body_of m opcode r rest"
proof
  assume l: "decode_body opcode r = Inr (m, rest)"
  then have "opcode \<in> {OP_CREATE_TABLE, OP_DROP_TABLE, OP_INSERT_ROWS, OP_UPDATE_ROWS, OP_DELETE_ROWS}"
    by (auto simp: decode_body_def split: if_splits)
  with l show "body_of m opcode r rest"
    by (auto simp: decode_create decode_drop decode_insert decode_update decode_delete)
next
  assume b: "body_of m opcode r rest"
  then obtain bs where "encode_body m = Inr (opcode # bs)" by (auto simp: body_of_def)
  from encode_body_opcode [OF this] b show "decode_body opcode r = Inr (m, rest)"
    by (cases m) (auto simp: decode_create decode_drop decode_insert decode_update decode_delete)
qed

lemma encode_body_nonempty: "encode_body m = Inr body \<Longrightarrow> \<exists>opcode bs. body = opcode # bs"
  by (cases m) (auto simp: encode_body_def encode_row_writes_def Let_def result_simps)

lemma encode_mutation_canonical: "encode_mutation (canonical m) = encode_mutation m"
  by (simp add: encode_mutation_def encode_body_canonical)

lemma decode_mutation_iff:
  "decode_mutation bs = Inr m \<longleftrightarrow> encode_mutation m = Inr bs \<and> rust_mutation m \<and> canonical m = m"
proof -
  have magic: "length NBRM_MAGIC = 4" by (simp add: NBRM_MAGIC_def)
  show ?thesis
    using encode_body_nonempty [of m]
    by (auto simp: decode_mutation_def encode_mutation_def result_simps decode_body_iff body_of_def
        magic Let_def if_error_iff)
qed

text \<open>C17. The codec of replicated SQL commands is exact: the decoder accepts a byte string exactly
  when it is the encoding of the mutation it returns, whose rows are in strict key order, so no
  two byte strings decode to the same command; and the encoder gives a mutation the same bytes
  whatever the order of its rows.\<close>

theorem mutation_codec_exact:
  "(decode_mutation bs = Inr m \<longleftrightarrow>
      encode_mutation m = Inr bs \<and> rust_mutation m \<and> canonical m = m) \<and>
   encode_mutation (canonical m) = encode_mutation m"
  using decode_mutation_iff encode_mutation_canonical by blast

end
