(* ===== verification/Replicated_Identity.thy ===== *)
theory Replicated_Identity
  imports Wire Storage
begin

text \<open>
  Replicated cluster identity: the commands and their codec (\<open>replicated_identity.rs\<close>) and the
  durable user registry (\<open>replicated_identity_store.rs\<close>), with the credential types of
  \<open>auth.rs\<close> that they convert from and to. Base64 is a third-party codec and the record
  \<open>base64\<close>; arrays \<open>[u8; 32]\<close> are byte lists whose length is part of the type invariant
  \<open>rust_credential\<close>.

  The registry is one canonical \<open>Initialize\<close> payload. The last section shows that its
  operations refine updates of a finite map from user names to credentials.
\<close>

section \<open>Credentials\<close>

record scram_keys =
  salt_b64 :: string
  sk_iterations :: u32
  sk_stored_key :: bytes
  sk_server_key :: bytes

datatype stored_credential = ScramSha256 scram_keys | Md5 string

record user_record =
  ur_username :: string
  ur_credential :: stored_credential

record scram_credential =
  sc_salt :: bytes
  sc_iterations :: u32
  sc_stored_key :: bytes
  sc_server_key :: bytes

record identity_user =
  iu_username :: string
  iu_credential :: scram_credential

datatype identity_mutation =
    Initialize "identity_user list"
  | CreateUser string scram_credential
  | AlterUser string scram_credential
  | DropUser string bool

datatype identity_codec_error =
    TooLarge | UnexpectedEof | InvalidMagic | UnsupportedVersion u8 | UnknownOpcode u8 | InvalidUtf8
  | InvalidUsername | TooManyUsers | NonCanonicalUserOrder | InvalidScramSalt
  | InvalidScramIterations u32 | UnsupportedLegacyMd5 | TrailingBytes | FieldTooLarge
  | InvalidBoolean u8 | UnsupportedCredentialVersion u8

record base64 =
  b64_encode :: "bytes \<Rightarrow> string"
  b64_decode :: "string \<Rightarrow> bytes option"

definition NBRI_MAGIC :: bytes where "NBRI_MAGIC = str_bytes ''NBRI''"
definition REPLICATED_IDENTITY_VERSION :: u8 where "REPLICATED_IDENTITY_VERSION = 1"
definition SCRAM_CREDENTIAL_VERSION :: u8 where "SCRAM_CREDENTIAL_VERSION = 1"
definition MAX_REPLICATED_IDENTITY_BYTES :: nat where "MAX_REPLICATED_IDENTITY_BYTES = 1024 * 1024"
definition MAX_USERNAME_BYTES :: nat where "MAX_USERNAME_BYTES = 256"
definition MAX_INITIAL_USERS :: nat where "MAX_INITIAL_USERS = 100000"
definition SCRAM_SALT_MIN_BYTES :: nat where "SCRAM_SALT_MIN_BYTES = 8"
definition SCRAM_SALT_MAX_BYTES :: nat where "SCRAM_SALT_MAX_BYTES = 64"
definition SCRAM_MIN_ITERATIONS :: u32 where "SCRAM_MIN_ITERATIONS = 4096"
definition SCRAM_MAX_ITERATIONS :: u32 where "SCRAM_MAX_ITERATIONS = 10000000"
definition OP_INITIALIZE :: u8 where "OP_INITIALIZE = 1"
definition OP_CREATE_USER :: u8 where "OP_CREATE_USER = 2"
definition OP_ALTER_USER :: u8 where "OP_ALTER_USER = 3"
definition OP_DROP_USER :: u8 where "OP_DROP_USER = 4"

definition validate_credential :: "scram_credential \<Rightarrow> identity_codec_error + unit" where
  "validate_credential c =
     (if \<not> (SCRAM_SALT_MIN_BYTES \<le> length (sc_salt c) \<and> length (sc_salt c) \<le> SCRAM_SALT_MAX_BYTES)
      then Inl InvalidScramSalt
      else if \<not> (SCRAM_MIN_ITERATIONS \<le> sc_iterations c \<and> sc_iterations c \<le> SCRAM_MAX_ITERATIONS)
      then Inl (InvalidScramIterations (sc_iterations c))
      else Inr ())"

definition validate_username :: "string \<Rightarrow> identity_codec_error + unit" where
  "validate_username username =
     (if username = [] \<or> MAX_USERNAME_BYTES < length username \<or> 0 \<in> set (str_bytes username)
      then Inl InvalidUsername else Inr ())"

definition from_scram_keys :: "base64 \<Rightarrow> scram_keys \<Rightarrow> identity_codec_error + scram_credential" where
  "from_scram_keys b keys =
     rbind (ok_or (b64_decode b (salt_b64 keys)) InvalidScramSalt) (\<lambda>salt.
       let credential = \<lparr>sc_salt = salt, sc_iterations = sk_iterations keys,
             sc_stored_key = sk_stored_key keys, sc_server_key = sk_server_key keys\<rparr>
       in rbind (validate_credential credential) (\<lambda>_. Inr credential))"

definition from_user_record :: "base64 \<Rightarrow> user_record \<Rightarrow> identity_codec_error + scram_credential" where
  "from_user_record b record =
     (case ur_credential record of
        ScramSha256 keys \<Rightarrow> from_scram_keys b keys
      | Md5 _ \<Rightarrow> Inl UnsupportedLegacyMd5)"

definition to_user_record ::
  "base64 \<Rightarrow> scram_credential \<Rightarrow> string \<Rightarrow> identity_codec_error + user_record" where
  "to_user_record b c username =
     rbind (validate_username username) (\<lambda>_.
     rbind (validate_credential c) (\<lambda>_.
       Inr \<lparr>ur_username = username, ur_credential = ScramSha256
         \<lparr>salt_b64 = b64_encode b (sc_salt c), sk_iterations = sc_iterations c,
          sk_stored_key = sc_stored_key c, sk_server_key = sc_server_key c\<rparr>\<rparr>))"

section \<open>Encoder\<close>

definition put_username :: "string \<Rightarrow> identity_codec_error + bytes" where
  "put_username username =
     rbind (validate_username username) (\<lambda>_. wr_bytes FieldTooLarge (str_bytes username))"

definition put_credential :: "scram_credential \<Rightarrow> identity_codec_error + bytes" where
  "put_credential c =
     rbind (validate_credential c) (\<lambda>_.
     rbind (wr_bytes FieldTooLarge (sc_salt c)) (\<lambda>salt.
       Inr ([SCRAM_CREDENTIAL_VERSION] @ salt @ wr_u32 (sc_iterations c) @
         sc_stored_key c @ sc_server_key c)))"

definition put_user :: "identity_user \<Rightarrow> identity_codec_error + bytes" where
  "put_user u = wr_pair put_username put_credential (iu_username u, iu_credential u)"

fun check_users :: "identity_user list \<Rightarrow> identity_codec_error + unit" where
  "check_users [] = Inr ()"
| "check_users (u # us) =
     rbind (validate_username (iu_username u)) (\<lambda>_.
     rbind (validate_credential (iu_credential u)) (\<lambda>_. check_users us))"

definition ensure_user_order :: "identity_user list \<Rightarrow> identity_codec_error + unit" where
  "ensure_user_order users =
     rbind (check_users users) (\<lambda>_.
       require (list_all (\<lambda>(a, b). \<not> iu_username b \<le> iu_username a) (zip users (tl users)))
         NonCanonicalUserOrder)"

definition put_user_count :: "nat \<Rightarrow> identity_codec_error + bytes" where
  "put_user_count n =
     (if MAX_INITIAL_USERS < n then Inl TooManyUsers
      else if n < 2 ^ 32 then Inr (wr_u32 (of_nat n)) else Inl TooManyUsers)"

definition encode_identity_body :: "identity_mutation \<Rightarrow> identity_codec_error + bytes" where
  "encode_identity_body m =
     (case m of
        Initialize users \<Rightarrow>
          let canonical = sort_key iu_username users in
          rbind (ensure_user_order canonical) (\<lambda>_.
          rbind (put_user_count (length canonical)) (\<lambda>n.
          rbind (wr_many put_user canonical) (\<lambda>us. Inr ([OP_INITIALIZE] @ n @ us))))
      | CreateUser username credential \<Rightarrow>
          rbind (wr_pair put_username put_credential (username, credential)) (\<lambda>u.
            Inr ([OP_CREATE_USER] @ u))
      | AlterUser username credential \<Rightarrow>
          rbind (wr_pair put_username put_credential (username, credential)) (\<lambda>u.
            Inr ([OP_ALTER_USER] @ u))
      | DropUser username if_exists \<Rightarrow>
          rbind (put_username username) (\<lambda>u. Inr ([OP_DROP_USER] @ u @ [of_bool if_exists])))"

definition encode_identity :: "identity_mutation \<Rightarrow> identity_codec_error + bytes" where
  "encode_identity m =
     rbind (encode_identity_body m) (\<lambda>body.
       let out = NBRI_MAGIC @ [REPLICATED_IDENTITY_VERSION] @ body in
       if MAX_REPLICATED_IDENTITY_BYTES < length out then Inl TooLarge else Inr out)"

section \<open>Decoder\<close>

definition rd_username :: "bytes \<Rightarrow> identity_codec_error + string \<times> bytes" where
  "rd_username r =
     rbind (rd_string UnexpectedEof InvalidUtf8 r) (\<lambda>(username, r).
     rbind (validate_username username) (\<lambda>_. Inr (username, r)))"

definition rd_credential :: "bytes \<Rightarrow> identity_codec_error + scram_credential \<times> bytes" where
  "rd_credential r =
     rbind (rd_u8 UnexpectedEof r) (\<lambda>(version, r).
     rbind (require (version = SCRAM_CREDENTIAL_VERSION) (UnsupportedCredentialVersion version)) (\<lambda>_.
     rbind (rd_bytes UnexpectedEof r) (\<lambda>(salt, r).
     rbind (rd_u32 UnexpectedEof r) (\<lambda>(iterations, r).
     rbind (rd_take UnexpectedEof 32 r) (\<lambda>(stored_key, r).
     rbind (rd_take UnexpectedEof 32 r) (\<lambda>(server_key, r).
       let credential = \<lparr>sc_salt = salt, sc_iterations = iterations,
             sc_stored_key = stored_key, sc_server_key = server_key\<rparr>
       in rbind (validate_credential credential) (\<lambda>_. Inr (credential, r))))))))"

definition rd_user :: "bytes \<Rightarrow> identity_codec_error + identity_user \<times> bytes" where
  "rd_user r =
     rbind (rd_pair rd_username rd_credential r)
       (\<lambda>((u, c), r). Inr (\<lparr>iu_username = u, iu_credential = c\<rparr>, r))"

definition rd_user_count :: "bytes \<Rightarrow> identity_codec_error + nat \<times> bytes" where
  "rd_user_count r =
     rbind (rd_u32 UnexpectedEof r) (\<lambda>(v, r).
       if MAX_INITIAL_USERS < unat v then Inl TooManyUsers else Inr (unat v, r))"

definition rd_flag :: "u8 \<Rightarrow> identity_codec_error + bool" where
  "rd_flag flag = (if flag = 0 then Inr False else if flag = 1 then Inr True else Inl (InvalidBoolean flag))"

definition decode_identity_body :: "u8 \<Rightarrow> bytes \<Rightarrow> identity_codec_error + identity_mutation \<times> bytes" where
  "decode_identity_body opcode r =
     (if opcode = OP_INITIALIZE then
        rbind (rd_user_count r) (\<lambda>(count, r).
        rbind (rd_many rd_user count r) (\<lambda>(users, r).
        rbind (ensure_user_order users) (\<lambda>_. Inr (Initialize users, r))))
      else if opcode = OP_CREATE_USER then
        rbind (rd_pair rd_username rd_credential r) (\<lambda>((u, c), r). Inr (CreateUser u c, r))
      else if opcode = OP_ALTER_USER then
        rbind (rd_pair rd_username rd_credential r) (\<lambda>((u, c), r). Inr (AlterUser u c, r))
      else if opcode = OP_DROP_USER then
        rbind (rd_username r) (\<lambda>(username, r).
        rbind (rd_u8 UnexpectedEof r) (\<lambda>(flag, r).
        rbind (rd_flag flag) (\<lambda>if_exists. Inr (DropUser username if_exists, r))))
      else Inl (UnknownOpcode opcode))"

definition decode_identity :: "bytes \<Rightarrow> identity_codec_error + identity_mutation" where
  "decode_identity bs =
     (if MAX_REPLICATED_IDENTITY_BYTES < length bs then Inl TooLarge
      else
        rbind (rd_take UnexpectedEof 4 bs) (\<lambda>(magic, r).
        rbind (require (magic = NBRI_MAGIC) InvalidMagic) (\<lambda>_.
        rbind (rd_u8 UnexpectedEof r) (\<lambda>(version, r).
        rbind (require (version = REPLICATED_IDENTITY_VERSION) (UnsupportedVersion version)) (\<lambda>_.
        rbind (rd_u8 UnexpectedEof r) (\<lambda>(opcode, r).
        rbind (decode_identity_body opcode r) (\<lambda>(mutation, r).
          if r \<noteq> [] then Inl TrailingBytes else Inr mutation)))))))"

definition id_command_tag :: "identity_mutation \<Rightarrow> string" where
  "id_command_tag m =
     (case m of
        Initialize _ \<Rightarrow> ''INITIALIZE IDENTITY''
      | CreateUser _ _ \<Rightarrow> ''CREATE USER''
      | AlterUser _ _ \<Rightarrow> ''ALTER USER''
      | DropUser _ _ \<Rightarrow> ''DROP USER'')"

definition is_replicated_identity_mutation :: "bytes \<Rightarrow> bool" where
  "is_replicated_identity_mutation bs = starts_with bs NBRI_MAGIC"

section \<open>The durable registry\<close>

definition REPLICATED_IDENTITY_STATE_KEY :: bytes where
  "REPLICATED_IDENTITY_STATE_KEY = str_bytes ''raft/identity/state-v1''"

record identity_state =
  st_users :: "identity_user list"

datatype identity_state_error =
    IdCodec identity_codec_error | IdRocks string | InvalidStatePayload
  | UserAlreadyExists string | UserNotFound string

definition state_encode :: "identity_state \<Rightarrow> identity_state_error + bytes" where
  "state_encode st = map_err IdCodec (encode_identity (Initialize (st_users st)))"

definition state_decode :: "bytes \<Rightarrow> identity_state_error + identity_state" where
  "state_decode bs =
     rbind (map_err IdCodec (decode_identity bs)) (\<lambda>m.
       case m of Initialize users \<Rightarrow> Inr \<lparr>st_users = users\<rparr> | _ \<Rightarrow> Inl InvalidStatePayload)"

definition state_new :: "identity_user list \<Rightarrow> identity_state_error + identity_state" where
  "state_new users = rbind (map_err IdCodec (encode_identity (Initialize users))) state_decode"

fun convert_records ::
  "base64 \<Rightarrow> user_record list \<Rightarrow> identity_codec_error + identity_user list" where
  "convert_records b [] = Inr []"
| "convert_records b (rec # recs) =
     rbind (from_user_record b rec) (\<lambda>c.
     rbind (convert_records b recs) (\<lambda>us.
       Inr (\<lparr>iu_username = ur_username rec, iu_credential = c\<rparr> # us)))"

definition from_user_records :: "base64 \<Rightarrow> user_record list \<Rightarrow> identity_state_error + identity_state" where
  "from_user_records b records = rbind (map_err IdCodec (convert_records b records)) state_new"

definition state_load :: "'db rocks \<Rightarrow> 'db \<Rightarrow> identity_state_error + identity_state option" where
  "state_load r d =
     rbind (map_err IdRocks (rk_get r CF_META REPLICATED_IDENTITY_STATE_KEY d)) (\<lambda>v.
       case v of None \<Rightarrow> Inr None | Some bs \<Rightarrow> rbind (state_decode bs) (\<lambda>st. Inr (Some st)))"

text \<open>\<open>binary_search_by\<close> on the user names: \<open>Ok\<close> is the position of the name, \<open>Err\<close> the position
  where it would be inserted. On a strictly increasing list, which the registry is, both are
  determined by the names below the one searched for.\<close>

definition find_user :: "identity_state \<Rightarrow> string \<Rightarrow> nat + nat" where
  "find_user st username =
     (let i = length (takeWhile (\<lambda>u. iu_username u < username) (st_users st)) in
      if i < length (st_users st) \<and> iu_username (st_users st ! i) = username then Inr i else Inl i)"

definition contains_user :: "identity_state \<Rightarrow> string \<Rightarrow> bool" where
  "contains_user st username = is_ok (find_user st username)"

definition user_record_of ::
  "base64 \<Rightarrow> identity_state \<Rightarrow> string \<Rightarrow> identity_state_error + user_record option" where
  "user_record_of b st username =
     (case find_user st username of
        Inl _ \<Rightarrow> Inr None
      | Inr i \<Rightarrow>
          map_sum IdCodec Some
            (to_user_record b (iu_credential (st_users st ! i)) (iu_username (st_users st ! i))))"

definition validate_canonical :: "identity_state \<Rightarrow> identity_state_error + unit" where
  "validate_canonical st =
     rbind (state_encode st) (\<lambda>encoded.
     rbind (state_decode encoded) (\<lambda>decoded.
       if decoded = st then Inr () else Inl InvalidStatePayload))"

text \<open>The operations change the registry in place, also when the check after the change fails.\<close>

definition create_user ::
  "identity_user \<Rightarrow> identity_state \<Rightarrow> identity_state \<times> (identity_state_error + unit)" where
  "create_user user st =
     (case find_user st (iu_username user) of
        Inr _ \<Rightarrow> (st, Inl (UserAlreadyExists (iu_username user)))
      | Inl position \<Rightarrow>
          let st' = st\<lparr>st_users := take position (st_users st) @ [user] @ drop position (st_users st)\<rparr>
          in (st', validate_canonical st'))"

definition alter_user ::
  "identity_user \<Rightarrow> identity_state \<Rightarrow> identity_state \<times> (identity_state_error + unit)" where
  "alter_user user st =
     (case find_user st (iu_username user) of
        Inl _ \<Rightarrow> (st, Inl (UserNotFound (iu_username user)))
      | Inr index \<Rightarrow>
          let st' = st\<lparr>st_users := (st_users st)[index := user]\<rparr> in (st', validate_canonical st'))"

definition drop_user ::
  "string \<Rightarrow> bool \<Rightarrow> identity_state \<Rightarrow> identity_state \<times> (identity_state_error + bool)" where
  "drop_user username if_exists st =
     (case find_user st username of
        Inr index \<Rightarrow>
          (st\<lparr>st_users := take index (st_users st) @ drop (Suc index) (st_users st)\<rparr>, Inr True)
      | Inl _ \<Rightarrow> if if_exists then (st, Inr False) else (st, Inl (UserNotFound username)))"

section \<open>The codec is exact\<close>

text \<open>The type invariants: arrays have 32 bytes, strings are Rust strings.\<close>

definition rust_credential :: "scram_credential \<Rightarrow> bool" where
  "rust_credential c \<longleftrightarrow> length (sc_stored_key c) = 32 \<and> length (sc_server_key c) = 32"

definition rust_user :: "identity_user \<Rightarrow> bool" where
  "rust_user u \<longleftrightarrow> rust_string (iu_username u) \<and> rust_credential (iu_credential u)"

definition rust_identity :: "identity_mutation \<Rightarrow> bool" where
  "rust_identity m \<longleftrightarrow>
     (case m of
        Initialize users \<Rightarrow> list_all rust_user users
      | CreateUser u c \<Rightarrow> rust_string u \<and> rust_credential c
      | AlterUser u c \<Rightarrow> rust_string u \<and> rust_credential c
      | DropUser u _ \<Rightarrow> rust_string u)"

definition id_canonical :: "identity_mutation \<Rightarrow> identity_mutation" where
  "id_canonical m = (case m of Initialize users \<Rightarrow> Initialize (sort_key iu_username users) | _ \<Rightarrow> m)"

lemma validate_credential_len: "validate_credential c = Inr u \<Longrightarrow> length (sc_salt c) < 2 ^ 32"
  by (auto simp: validate_credential_def SCRAM_SALT_MAX_BYTES_def split: if_splits)

interpretation username_wire: wire put_username rd_username rust_string
  by unfold_locales
    (auto simp: put_username_def rd_username_def result_simps
      string_wire.get_iff [where too_large = FieldTooLarge])

lemma rd_bytes_iff [result_simps]:
  "rd_bytes (eof :: identity_codec_error) r = Inr (x, rest) \<longleftrightarrow>
   (\<exists>bs. wr_bytes FieldTooLarge x = Inr bs \<and> r = bs @ rest)"
  using bytes_wire.get_iff [of eof r x rest FieldTooLarge] by simp

interpretation credential_wire: wire put_credential rd_credential rust_credential
proof
  show "rust_credential c \<Longrightarrow> put_credential c = Inr bs \<Longrightarrow> rd_credential (bs @ rest) = Inr (c, rest)"
    for c bs rest
    by (cases c) (auto simp: put_credential_def rd_credential_def rust_credential_def result_simps Let_def)
  show "rd_credential r = Inr (c, rest) \<Longrightarrow>
      rust_credential c \<and> (\<exists>bs. put_credential c = Inr bs \<and> r = bs @ rest)" for r c rest
    by (auto simp: put_credential_def rd_credential_def rust_credential_def result_simps Let_def)
qed

interpretation user_fields: wire_pair put_username rd_username rust_string
  put_credential rd_credential rust_credential ..

interpretation user_wire: wire put_user rd_user rust_user
  by unfold_locales
    (auto simp: put_user_def rd_user_def rust_user_def result_simps
      user_fields.pair.get_put [of "(iu_username u, iu_credential u)" for u]
      dest: user_fields.pair.put_get)

lemma put_user_count_iff [result_simps]:
  "put_user_count n = Inr bs \<longleftrightarrow> n \<le> MAX_INITIAL_USERS \<and> bs = wr_u32 (of_nat n)"
  by (auto simp: put_user_count_def MAX_INITIAL_USERS_def)

interpretation user_count_wire: wire put_user_count rd_user_count "\<lambda>_. True"
proof
  show "put_user_count x = Inr bs \<Longrightarrow> rd_user_count (bs @ rest) = Inr (x, rest)" for x bs rest
    by (auto simp: rd_user_count_def put_user_count_iff unat_of_nat_eq MAX_INITIAL_USERS_def)
  show "rd_user_count r = Inr (x, rest) \<Longrightarrow> True \<and> (\<exists>bs. put_user_count x = Inr bs \<and> r = bs @ rest)"
    for r x rest
    by (auto simp: rd_user_count_def result_simps if_error_iff)
qed

text \<open>A user that both checks accept.\<close>

definition valid_user :: "identity_user \<Rightarrow> bool" where
  "valid_user u \<longleftrightarrow> is_ok (validate_username (iu_username u)) \<and> is_ok (validate_credential (iu_credential u))"

lemma check_users_iff: "check_users us = Inr u \<longleftrightarrow> list_all valid_user us"
  by (induction us) (auto simp: valid_user_def result_simps is_ok_iff)

lemma ensure_user_order_iff [result_simps]:
  "ensure_user_order users = Inr u \<longleftrightarrow>
   list_all valid_user users \<and> sorted_wrt (\<lambda>a b. iu_username a < iu_username b) users"
  by (auto simp: ensure_user_order_def result_simps check_users_iff windows_strict)

lemma put_user_valid: "valid_user u \<Longrightarrow> \<exists>bs. put_user u = Inr bs"
  by (auto simp: valid_user_def put_user_def wr_pair_def put_username_def put_credential_def is_ok_iff
      wr_bytes_def validate_username_def MAX_USERNAME_BYTES_def split: if_splits
      dest: validate_credential_len)

lemma put_users_valid: "list_all valid_user us \<Longrightarrow> \<exists>bs. wr_many put_user us = Inr bs"
proof (induction us)
  case (Cons u us)
  then show ?case using put_user_valid [of u] by auto
qed simp

lemma rd_flag_iff [result_simps]: "rd_flag f = Inr b \<longleftrightarrow> f = of_bool b"
  by (auto simp: rd_flag_def)

lemmas id_op_defs = OP_INITIALIZE_def OP_CREATE_USER_def OP_ALTER_USER_def OP_DROP_USER_def

definition id_body_of :: "identity_mutation \<Rightarrow> u8 \<Rightarrow> bytes \<Rightarrow> bytes \<Rightarrow> bool" where
  "id_body_of m opcode r rest \<longleftrightarrow> rust_identity m \<and> id_canonical m = m \<and>
     (\<exists>bs. encode_identity_body m = Inr (opcode # bs) \<and> r = bs @ rest)"

lemmas id_decode_simps = decode_identity_body_def encode_identity_body_def rust_identity_def
  id_canonical_def id_body_of_def result_simps user_count_wire.get_iff user_wire.many_iff
  username_wire.get_iff user_fields.pair.get_iff if_error_iff Let_def

lemma decode_initialize:
  "decode_identity_body OP_INITIALIZE r = Inr (m, rest) \<longleftrightarrow>
   (\<exists>us. m = Initialize us \<and> id_body_of m OP_INITIALIZE r rest)"
  by (auto simp: id_decode_simps strict_sort_key_id)

lemma decode_create_user:
  "decode_identity_body OP_CREATE_USER r = Inr (m, rest) \<longleftrightarrow>
   (\<exists>u c. m = CreateUser u c \<and> id_body_of m OP_CREATE_USER r rest)"
  by (auto simp: id_decode_simps id_op_defs)

lemma decode_alter_user:
  "decode_identity_body OP_ALTER_USER r = Inr (m, rest) \<longleftrightarrow>
   (\<exists>u c. m = AlterUser u c \<and> id_body_of m OP_ALTER_USER r rest)"
  by (auto simp: id_decode_simps id_op_defs)

lemma decode_drop_user:
  "decode_identity_body OP_DROP_USER r = Inr (m, rest) \<longleftrightarrow>
   (\<exists>u b. m = DropUser u b \<and> id_body_of m OP_DROP_USER r rest)" (is "?l \<longleftrightarrow> ?r")
proof
  show "?l \<Longrightarrow> ?r" by (auto simp: id_decode_simps id_op_defs)
  assume ?r
  then obtain u b x where "m = DropUser u b" "rust_string u" "put_username u = Inr x" "r = x @ of_bool b # rest"
    by (auto simp: id_decode_simps)
  moreover have "rd_u8 UnexpectedEof (of_bool b # rest) = Inr (of_bool b, rest)"
    by (simp add: u_wire_iff)
  ultimately show ?l
    by (simp add: decode_identity_body_def id_op_defs username_wire.get_put rd_flag_def)
qed

lemma encode_identity_opcode:
  "encode_identity_body m = Inr body \<Longrightarrow> \<exists>bs. body =
    (case m of Initialize _ \<Rightarrow> OP_INITIALIZE | CreateUser _ _ \<Rightarrow> OP_CREATE_USER
     | AlterUser _ _ \<Rightarrow> OP_ALTER_USER | DropUser _ _ \<Rightarrow> OP_DROP_USER) # bs"
  by (cases m) (auto simp: encode_identity_body_def Let_def result_simps)

lemma decode_identity_body_iff:
  "decode_identity_body opcode r = Inr (m, rest) \<longleftrightarrow> id_body_of m opcode r rest"
proof
  assume l: "decode_identity_body opcode r = Inr (m, rest)"
  then have "opcode \<in> {OP_INITIALIZE, OP_CREATE_USER, OP_ALTER_USER, OP_DROP_USER}"
    by (auto simp: decode_identity_body_def split: if_splits)
  with l show "id_body_of m opcode r rest"
    by (auto simp: decode_initialize decode_create_user decode_alter_user decode_drop_user)
next
  assume b: "id_body_of m opcode r rest"
  then obtain bs where "encode_identity_body m = Inr (opcode # bs)" by (auto simp: id_body_of_def)
  from encode_identity_opcode [OF this] b show "decode_identity_body opcode r = Inr (m, rest)"
    by (cases m) (auto simp: decode_initialize decode_create_user decode_alter_user decode_drop_user)
qed

lemma encode_identity_canonical: "encode_identity (id_canonical m) = encode_identity m"
  by (cases m) (simp_all add: encode_identity_def encode_identity_body_def id_canonical_def sort_key_id_if_sorted)

lemma decode_identity_iff:
  "decode_identity bs = Inr m \<longleftrightarrow>
   encode_identity m = Inr bs \<and> rust_identity m \<and> id_canonical m = m"
proof -
  have "length NBRI_MAGIC = 4" by (simp add: NBRI_MAGIC_def)
  then show ?thesis
    using encode_identity_opcode [of m]
    by (auto simp: decode_identity_def encode_identity_def result_simps decode_identity_body_iff
        id_body_of_def Let_def if_error_iff)
qed

text \<open>The codec of replicated identity commands is exact: the decoder accepts a byte string
  exactly when it is the encoding of the command it returns, which is well formed and lists its
  users in strict name order; the order in which an initialization lists them does not change
  the bytes.\<close>

theorem identity_codec_exact:
  "(decode_identity bs = Inr m \<longleftrightarrow>
      encode_identity m = Inr bs \<and> rust_identity m \<and> id_canonical m = m) \<and>
   encode_identity (id_canonical m) = encode_identity m"
  using decode_identity_iff encode_identity_canonical by blast

section \<open>The registry refines a map\<close>

text \<open>The abstract registry: the credential of each user. The invariant is what \<open>state_decode\<close>
  guarantees of every state it returns.\<close>

definition creds :: "identity_state \<Rightarrow> string \<Rightarrow> scram_credential option" where
  "creds st = map_of (map (\<lambda>u. (iu_username u, iu_credential u)) (st_users st))"

definition registry_inv :: "identity_state \<Rightarrow> bool" where
  "registry_inv st \<longleftrightarrow> list_all rust_user (st_users st) \<and> (\<exists>bs. state_encode st = Inr bs) \<and>
     sorted_wrt (\<lambda>a b. iu_username a < iu_username b) (st_users st)"

abbreviation names_sorted :: "identity_user list \<Rightarrow> bool" where
  "names_sorted us \<equiv> sorted_wrt (\<lambda>a b. iu_username a < iu_username b) us"

text \<open>Splitting a sorted registry at a name.\<close>

lemma split_at_name:
  assumes "names_sorted us"
  shows "us = takeWhile (\<lambda>u. iu_username u < n) us @ dropWhile (\<lambda>u. iu_username u < n) us"
    "\<forall>u \<in> set (takeWhile (\<lambda>u. iu_username u < n) us). iu_username u < n"
    "\<forall>u \<in> set (dropWhile (\<lambda>u. iu_username u < n) us). n \<le> iu_username u"
proof -
  show "us = takeWhile (\<lambda>u. iu_username u < n) us @ dropWhile (\<lambda>u. iu_username u < n) us" by simp
  show "\<forall>u \<in> set (takeWhile (\<lambda>u. iu_username u < n) us). iu_username u < n"
    by (auto dest: set_takeWhileD)
  show "\<forall>u \<in> set (dropWhile (\<lambda>u. iu_username u < n) us). n \<le> iu_username u"
    using assms by (induction us) (auto simp: not_less intro: order.strict_implies_order less_le_trans)
qed

lemma find_user_cases:
  assumes "names_sorted (st_users st)"
  obtains (found) i where "find_user st n = Inr i" "i < length (st_users st)"
      "iu_username (st_users st ! i) = n"
  | (missing) i where "find_user st n = Inl i"
      "\<forall>u \<in> set (take i (st_users st)). iu_username u < n"
      "\<forall>u \<in> set (drop i (st_users st)). n < iu_username u"
proof -
  let ?us = "st_users st"
  let ?p = "\<lambda>u. iu_username u < n"
  let ?i = "length (takeWhile ?p ?us)"
  have t: "take ?i ?us = takeWhile ?p ?us" and d: "drop ?i ?us = dropWhile ?p ?us"
    by (rule takeWhile_eq_take [symmetric], rule dropWhile_eq_drop [symmetric])
  show thesis
  proof (cases "?i < length ?us \<and> iu_username (?us ! ?i) = n")
    case True
    then show thesis using found [of ?i] by (simp add: find_user_def)
  next
    case False
    have "n < iu_username u" if u: "u \<in> set (dropWhile ?p ?us)" for u
    proof -
      from u obtain v vs where dw: "dropWhile ?p ?us = v # vs" by (cases "dropWhile ?p ?us") auto
      then have us: "?us = takeWhile ?p ?us @ v # vs" by (metis takeWhile_dropWhile_id)
      then have i: "?i < length ?us" and v: "?us ! ?i = v"
        by (metis length_append length_Cons less_add_Suc1 add_Suc_right, metis nth_append_length)
      with False have "iu_username v \<noteq> n" by simp
      moreover have "n \<le> iu_username v" using split_at_name(3) [OF assms, of n] dw by simp
      moreover have "names_sorted (v # vs)" using assms us by (metis sorted_wrt_append)
      ultimately show ?thesis using u dw by auto
    qed
    then have "\<forall>u \<in> set (dropWhile ?p ?us). n < iu_username u" by blast
    then show thesis
      using False split_at_name(2) [OF assms, of n]
      by (intro missing [of ?i]) (simp_all only: find_user_def Let_def if_False t d simp_thms)
  qed
qed

lemma creds_iff:
  "names_sorted (st_users st) \<Longrightarrow> creds st n = Some c \<longleftrightarrow>
   (\<exists>u \<in> set (st_users st). iu_username u = n \<and> iu_credential u = c)"
proof -
  assume s: "names_sorted (st_users st)"
  have "distinct (map iu_username (st_users st))"
    using s strict_sorted_iff [of "map iu_username (st_users st)"] by (simp add: sorted_wrt_map)
  then have "distinct (map fst (map (\<lambda>u. (iu_username u, iu_credential u)) (st_users st)))"
    by (simp add: comp_def)
  from map_of_eq_Some_iff [OF this] show ?thesis by (auto simp: creds_def)
qed

lemma wr_users_remove:
  "wr_many put_user (xs @ u # ys) = Inr bs \<Longrightarrow>
   \<exists>bs'. wr_many put_user (xs @ ys) = Inr bs' \<and> length bs' \<le> length bs"
proof (induction xs arbitrary: bs)
  case (Cons x xs)
  then obtain a b where a: "put_user x = Inr a" and b: "wr_many put_user (xs @ u # ys) = Inr b"
    and bs: "bs = a @ b" by (auto simp: result_simps)
  from Cons.IH [OF b] a bs show ?case by auto
qed (auto simp: result_simps)

lemma state_encode_iff:
  "names_sorted (st_users st) \<Longrightarrow> (\<exists>bs. state_encode st = Inr bs) \<longleftrightarrow>
   list_all valid_user (st_users st) \<and> length (st_users st) \<le> MAX_INITIAL_USERS \<and>
   (\<exists>us. wr_many put_user (st_users st) = Inr us \<and> 10 + length us \<le> MAX_REPLICATED_IDENTITY_BYTES)"
  by (auto simp: state_encode_def encode_identity_def encode_identity_body_def result_simps Let_def
      strict_sort_key_id if_error_iff NBRI_MAGIC_def)

lemma validate_canonical_eq:
  assumes "names_sorted (st_users st)" "list_all rust_user (st_users st)"
  shows "validate_canonical st = rbind (state_encode st) (\<lambda>_. Inr ())"
proof (cases "state_encode st")
  case (Inr bs)
  then have "encode_identity (Initialize (st_users st)) = Inr bs"
    by (simp add: state_encode_def result_simps)
  then have "decode_identity bs = Inr (Initialize (st_users st))"
    using assms by (simp add: decode_identity_iff rust_identity_def id_canonical_def strict_sort_key_id)
  then show ?thesis by (simp add: validate_canonical_def Inr state_decode_def)
qed (simp add: validate_canonical_def)

lemma encode_initialize_sorted:
  "encode_identity (Initialize us) = Inr bs \<Longrightarrow> names_sorted (sort_key iu_username us)"
  by (auto simp: encode_identity_def encode_identity_body_def result_simps Let_def)

lemma state_decode_inv:
  assumes "state_decode bs = Inr st"
  shows "registry_inv st" "state_encode st = Inr bs"
proof -
  from assms obtain m where "decode_identity bs = Inr m"
      "(case m of Initialize users \<Rightarrow> Inr \<lparr>st_users = users\<rparr> | _ \<Rightarrow> Inl InvalidStatePayload) = Inr st"
    by (auto simp: state_decode_def result_simps)
  then have d: "decode_identity bs = Inr (Initialize (st_users st))" by (cases m) auto
  then have "encode_identity (Initialize (st_users st)) = Inr bs" "list_all rust_user (st_users st)"
    "sort_key iu_username (st_users st) = st_users st"
    by (simp_all add: decode_identity_iff rust_identity_def id_canonical_def)
  with encode_initialize_sorted [OF this(1)] show "registry_inv st" "state_encode st = Inr bs"
    by (simp_all add: registry_inv_def state_encode_def)
qed

lemma state_new_inv: "state_new us = Inr st \<Longrightarrow> registry_inv st"
  by (auto simp: state_new_def result_simps dest: state_decode_inv)

lemma registry_inv_sorted: "registry_inv st \<Longrightarrow> names_sorted (st_users st)"
  by (simp add: registry_inv_def)

lemma registry_inv_rust: "registry_inv st \<Longrightarrow> list_all rust_user (st_users st)"
  by (simp add: registry_inv_def)

lemma contains_user_iff:
  assumes "registry_inv st"
  shows "contains_user st n \<longleftrightarrow> creds st n \<noteq> None"
proof (rule find_user_cases [OF registry_inv_sorted [OF assms], of n])
  fix i assume "find_user st n = Inr i" "i < length (st_users st)" "iu_username (st_users st ! i) = n"
  moreover from this have "creds st n = Some (iu_credential (st_users st ! i))"
    using creds_iff [OF registry_inv_sorted [OF assms]] nth_mem by blast
  ultimately show ?thesis by (simp add: contains_user_def)
next
  fix i assume f: "find_user st n = Inl i" and "\<forall>u \<in> set (take i (st_users st)). iu_username u < n"
    "\<forall>u \<in> set (drop i (st_users st)). n < iu_username u"
  then have "\<forall>u \<in> set (take i (st_users st) @ drop i (st_users st)). iu_username u \<noteq> n"
    by (auto simp del: append_take_drop_id)
  then have "creds st n = None"
    using creds_iff [OF registry_inv_sorted [OF assms], of n] by (cases "creds st n") auto
  with f show ?thesis by (simp add: contains_user_def)
qed

lemma creds_eqI:
  assumes "names_sorted (st_users st)"
    and "\<And>n c. f n = Some c \<longleftrightarrow> (\<exists>u \<in> set (st_users st). iu_username u = n \<and> iu_credential u = c)"
  shows "creds st = f"
proof
  fix n
  show "creds st n = f n"
    using creds_iff [OF assms(1), of n] assms(2) [of n] by (metis not_None_eq)
qed

lemma set_split: "set xs = set (take i xs) \<union> set (drop i xs)"
  by (metis append_take_drop_id set_append)

lemma drop_Suc_update:
  assumes "i < length xs"
  shows "xs = take i xs @ xs ! i # drop (Suc i) xs"
  using assms by (rule id_take_nth_drop)

lemma list_all_parts:
  assumes "list_all P xs"
  shows "list_all P (take i xs)" "list_all P (drop i xs)"
  using assms by (auto simp: list_all_iff dest: in_set_takeD in_set_dropD)

lemma create_user_refines:
  assumes inv: "registry_inv st" and ru: "rust_user user"
  shows "case create_user user st of
      (st', Inr _) \<Rightarrow> registry_inv st' \<and> creds st (iu_username user) = None \<and>
        creds st' = (creds st)(iu_username user \<mapsto> iu_credential user)
    | (st', Inl e) \<Rightarrow> e = UserAlreadyExists (iu_username user) \<and> creds st (iu_username user) \<noteq> None \<or>
        creds st (iu_username user) = None \<and> state_encode st' = Inl e"
proof (rule find_user_cases [OF registry_inv_sorted [OF inv], of "iu_username user"])
  fix i assume "find_user st (iu_username user) = Inr i"
  then show ?thesis
    using contains_user_iff [OF inv, of "iu_username user"] by (simp add: create_user_def contains_user_def)
next
  let ?n = "iu_username user" and ?us = "st_users st"
  fix i assume f: "find_user st ?n = Inl i" and lt: "\<forall>u \<in> set (take i ?us). iu_username u < ?n"
    and gt: "\<forall>u \<in> set (drop i ?us). ?n < iu_username u"
  let ?st = "st\<lparr>st_users := take i ?us @ [user] @ drop i ?us\<rparr>"
  have s: "names_sorted ?us" by (rule registry_inv_sorted [OF inv])
  then have s1: "names_sorted (take i ?us @ drop i ?us)" by simp
  then have s': "names_sorted (st_users ?st)"
    using lt gt by (auto simp: sorted_wrt_append simp del: append_take_drop_id)
  have none: "creds st ?n = None"
    using contains_user_iff [OF inv, of ?n] f by (simp add: contains_user_def)
  have rust: "list_all rust_user (st_users ?st)"
    using list_all_parts [OF registry_inv_rust [OF inv], of i] ru by simp
  have set: "set (st_users ?st) = insert user (set ?us)" using set_split [of ?us i, symmetric] by simp
  have new: "creds ?st = (creds st)(?n \<mapsto> iu_credential user)"
  proof (rule creds_eqI [OF s'])
    have "\<forall>u \<in> set ?us. iu_username u \<noteq> ?n" using creds_iff [OF s, of ?n] none by auto
    then show "((creds st)(?n \<mapsto> iu_credential user)) n = Some c \<longleftrightarrow>
        (\<exists>u \<in> set (st_users ?st). iu_username u = n \<and> iu_credential u = c)" for n c
      using creds_iff [OF s, of n c] unfolding set by auto
  qed
  have res: "create_user user st = (?st, rbind (state_encode ?st) (\<lambda>_. Inr ()))"
    by (simp add: create_user_def f Let_def validate_canonical_eq [OF s' rust, simplified])
  show ?thesis
  proof (cases "state_encode ?st")
    case (Inl e)
    then show ?thesis using none unfolding res by simp
  next
    case (Inr bs)
    then have "registry_inv ?st" using s' rust by (simp add: registry_inv_def)
    then show ?thesis using none new Inr unfolding res by simp
  qed
qed

lemma creds_update:
  assumes "i < length (st_users st)" "iu_username (st_users st ! i) = iu_username user"
    "names_sorted (st_users st)"
  shows "creds (st\<lparr>st_users := (st_users st)[i := user]\<rparr>) =
    (creds st)(iu_username user \<mapsto> iu_credential user)"
proof -
  let ?us = "st_users st"
  have us: "?us = take i ?us @ ?us ! i # drop (Suc i) ?us" using assms(1) by (rule id_take_nth_drop)
  have "names_sorted (take i ?us @ ?us ! i # drop (Suc i) ?us)" using assms(3) us by simp
  then have s': "names_sorted (take i ?us @ user # drop (Suc i) ?us)"
    and ne: "\<forall>u \<in> set (take i ?us) \<union> set (drop (Suc i) ?us). iu_username u \<noteq> iu_username user"
    using assms(2) by (auto simp: sorted_wrt_append)
  have upd: "?us[i := user] = take i ?us @ user # drop (Suc i) ?us"
    using assms(1) by (rule upd_conv_take_nth_drop)
  have set: "set ?us = insert (?us ! i) (set (take i ?us) \<union> set (drop (Suc i) ?us))"
    by (subst us) simp
  show ?thesis
  proof (rule creds_eqI)
    show "((creds st)(iu_username user \<mapsto> iu_credential user)) m = Some c \<longleftrightarrow>
        (\<exists>u \<in> set (st_users (st\<lparr>st_users := ?us[i := user]\<rparr>)). iu_username u = m \<and> iu_credential u = c)" for m c
      using creds_iff [OF assms(3), of m c] assms(2) ne by (auto simp: set upd)
  qed (simp add: upd s')
qed

lemma alter_user_refines:
  assumes inv: "registry_inv st" and ru: "rust_user user"
  shows "case alter_user user st of
      (st', Inr _) \<Rightarrow> registry_inv st' \<and> creds st (iu_username user) \<noteq> None \<and>
        creds st' = (creds st)(iu_username user \<mapsto> iu_credential user)
    | (st', Inl e) \<Rightarrow> e = UserNotFound (iu_username user) \<and> creds st (iu_username user) = None \<or>
        creds st (iu_username user) \<noteq> None \<and> state_encode st' = Inl e"
proof (rule find_user_cases [OF registry_inv_sorted [OF inv], of "iu_username user"])
  fix i assume "find_user st (iu_username user) = Inl i"
  then show ?thesis
    using contains_user_iff [OF inv, of "iu_username user"] by (simp add: alter_user_def contains_user_def)
next
  let ?n = "iu_username user" and ?us = "st_users st"
  fix i assume f: "find_user st ?n = Inr i" and i: "i < length ?us" and n: "iu_username (?us ! i) = ?n"
  let ?st = "st\<lparr>st_users := ?us[i := user]\<rparr>"
  have s: "names_sorted ?us" by (rule registry_inv_sorted [OF inv])
  have names: "map iu_username (?us[i := user]) = map iu_username ?us"
    using i n by (simp add: map_update) (metis list_update_id nth_map)
  have s': "names_sorted (st_users ?st)"
    using s names by (metis sorted_wrt_map identity_state.select_convs(1) identity_state.surjective
        identity_state.update_convs(1))
  have some: "creds st ?n \<noteq> None"
    using contains_user_iff [OF inv, of ?n] f by (simp add: contains_user_def)
  have rust: "list_all rust_user (st_users ?st)"
    using inv ru set_update_subset_insert [of ?us i user] by (auto simp: registry_inv_def list_all_iff)
  have new: "creds ?st = (creds st)(?n \<mapsto> iu_credential user)"
    using i n s by (rule creds_update)
  have res: "alter_user user st = (?st, rbind (state_encode ?st) (\<lambda>_. Inr ()))"
    by (simp add: alter_user_def f Let_def validate_canonical_eq [OF s' rust, simplified])
  show ?thesis
  proof (cases "state_encode ?st")
    case (Inl e)
    then show ?thesis using some unfolding res by simp
  next
    case (Inr bs)
    then have "registry_inv ?st" using s' rust by (simp add: registry_inv_def)
    then show ?thesis using some new Inr unfolding res by simp
  qed
qed

lemma drop_user_refines:
  assumes inv: "registry_inv st"
  shows "case drop_user n if_exists st of
      (st', Inr b) \<Rightarrow> registry_inv st' \<and> creds st' = (creds st)(n := None) \<and>
        (b \<longleftrightarrow> creds st n \<noteq> None) \<and> (b \<or> if_exists)
    | (st', Inl e) \<Rightarrow> st' = st \<and> e = UserNotFound n \<and> creds st n = None \<and> \<not> if_exists"
proof (rule find_user_cases [OF registry_inv_sorted [OF inv], of n])
  fix i assume f: "find_user st n = Inl i"
  then have "creds st n = None"
    using contains_user_iff [OF inv, of n] by (simp add: contains_user_def)
  then show ?thesis using f inv by (auto simp: drop_user_def fun_upd_idem)
next
  let ?us = "st_users st"
  fix i assume f: "find_user st n = Inr i" and i: "i < length ?us" and n: "iu_username (?us ! i) = n"
  let ?st = "st\<lparr>st_users := take i ?us @ drop (Suc i) ?us\<rparr>"
  have us: "?us = take i ?us @ ?us ! i # drop (Suc i) ?us" using i by (rule id_take_nth_drop)
  have "names_sorted (take i ?us @ ?us ! i # drop (Suc i) ?us)" using registry_inv_sorted [OF inv] us by simp
  then have s': "names_sorted (st_users ?st)" and ne: "\<forall>u \<in> set (st_users ?st). iu_username u \<noteq> n"
    using n by (auto simp: sorted_wrt_append)
  have "list_all valid_user ?us \<and> length ?us \<le> MAX_INITIAL_USERS \<and>
      (\<exists>bs. wr_many put_user ?us = Inr bs \<and> 10 + length bs \<le> MAX_REPLICATED_IDENTITY_BYTES)"
    using state_encode_iff [OF registry_inv_sorted [OF inv]] inv by (simp add: registry_inv_def)
  then have "list_all valid_user (st_users ?st) \<and> length (st_users ?st) \<le> MAX_INITIAL_USERS \<and>
      (\<exists>bs. wr_many put_user (st_users ?st) = Inr bs \<and> 10 + length bs \<le> MAX_REPLICATED_IDENTITY_BYTES)"
    using wr_users_remove [of "take i ?us" "?us ! i" "drop (Suc i) ?us"] us list_all_parts
    by auto
  moreover have "list_all rust_user (st_users ?st)"
    using list_all_parts [OF registry_inv_rust [OF inv]] by simp
  ultimately have inv': "registry_inv ?st"
    using state_encode_iff [OF s'] s' by (simp add: registry_inv_def)
  have "creds ?st = (creds st)(n := None)"
  proof (rule creds_eqI [OF s'])
    have "set ?us = insert (?us ! i) (set (st_users ?st))" by (subst us) simp
    then show "((creds st)(n := None)) m = Some c \<longleftrightarrow>
        (\<exists>u \<in> set (st_users ?st). iu_username u = m \<and> iu_credential u = c)" for m c
      using creds_iff [OF registry_inv_sorted [OF inv], of m c] n ne by auto
  qed
  moreover have "creds st n \<noteq> None"
    using contains_user_iff [OF inv, of n] f by (simp add: contains_user_def)
  ultimately show ?thesis using inv' by (simp add: drop_user_def f)
qed

text \<open>C21. The user registry refines a map from names to credentials: creating a user adds exactly
  that entry and is refused exactly for an existing name or a registry that no longer encodes;
  altering replaces exactly an existing entry; dropping removes it and always keeps the registry
  encodable. Every accepted operation keeps the names in strict order.\<close>

theorem registry_refines_map:
  assumes "registry_inv st" "rust_user user"
  shows "(case create_user user st of
      (st', Inr _) \<Rightarrow> registry_inv st' \<and> creds st (iu_username user) = None \<and>
        creds st' = (creds st)(iu_username user \<mapsto> iu_credential user)
    | (st', Inl e) \<Rightarrow> e = UserAlreadyExists (iu_username user) \<and> creds st (iu_username user) \<noteq> None \<or>
        creds st (iu_username user) = None \<and> state_encode st' = Inl e) \<and>
   (case alter_user user st of
      (st', Inr _) \<Rightarrow> registry_inv st' \<and> creds st (iu_username user) \<noteq> None \<and>
        creds st' = (creds st)(iu_username user \<mapsto> iu_credential user)
    | (st', Inl e) \<Rightarrow> e = UserNotFound (iu_username user) \<and> creds st (iu_username user) = None \<or>
        creds st (iu_username user) \<noteq> None \<and> state_encode st' = Inl e) \<and>
   (case drop_user n if_exists st of
      (st', Inr b) \<Rightarrow> registry_inv st' \<and> creds st' = (creds st)(n := None) \<and>
        (b \<longleftrightarrow> creds st n \<noteq> None) \<and> (b \<or> if_exists)
    | (st', Inl e) \<Rightarrow> st' = st \<and> e = UserNotFound n \<and> creds st n = None \<and> \<not> if_exists)"
  using assms by (intro conjI create_user_refines alter_user_refines drop_user_refines)

definition sample_credential :: "u8 \<Rightarrow> scram_credential" where
  "sample_credential seed = \<lparr>sc_salt = replicate 8 seed, sc_iterations = 4096,
     sc_stored_key = replicate 32 seed, sc_server_key = replicate 32 seed\<rparr>"

definition sample_user :: "string \<Rightarrow> u8 \<Rightarrow> identity_user" where
  "sample_user n seed = \<lparr>iu_username = n, iu_credential = sample_credential seed\<rparr>"

definition sample_registry :: identity_state where
  "sample_registry = \<lparr>st_users = [sample_user ''bob'' 1]\<rparr>"

lemma sample_valid:
  "valid_user (sample_user ''bob'' 1)" "valid_user (sample_user ''al'' 2)"
  by (simp_all add: valid_user_def sample_user_def sample_credential_def validate_username_def
      validate_credential_def MAX_USERNAME_BYTES_def SCRAM_SALT_MIN_BYTES_def SCRAM_SALT_MAX_BYTES_def
      SCRAM_MIN_ITERATIONS_def SCRAM_MAX_ITERATIONS_def str_bytes_def)

lemma sample_len: "length n < 100 \<Longrightarrow> put_user (sample_user n s) = Inr bs \<Longrightarrow> length bs < 200"
  by (auto simp: put_user_def sample_user_def sample_credential_def wr_pair_def put_username_def
      put_credential_def result_simps wr_bytes_def)

lemma sample_encodes:
  "\<exists>bs. state_encode \<lparr>st_users = [sample_user ''bob'' 1]\<rparr> = Inr bs"
  "\<exists>bs. state_encode \<lparr>st_users = [sample_user ''al'' 2, sample_user ''bob'' 1]\<rparr> = Inr bs"
proof -
  obtain a b where ab: "put_user (sample_user ''bob'' 1) = Inr a" "put_user (sample_user ''al'' 2) = Inr b"
    using sample_valid put_user_valid by metis
  moreover from this have "length a < 200" "length b < 200"
    using sample_len [of "''bob''" 1 a] sample_len [of "''al''" 2 b] by simp_all
  ultimately show "\<exists>bs. state_encode \<lparr>st_users = [sample_user ''bob'' 1]\<rparr> = Inr bs"
    "\<exists>bs. state_encode \<lparr>st_users = [sample_user ''al'' 2, sample_user ''bob'' 1]\<rparr> = Inr bs"
    by (subst state_encode_iff; simp add: sample_valid MAX_INITIAL_USERS_def
        MAX_REPLICATED_IDENTITY_BYTES_def; simp add: sample_user_def)+
qed

lemma sample_rust: "rust_user (sample_user ''bob'' 1)" "rust_user (sample_user ''al'' 2)"
  by (simp_all add: rust_user_def sample_user_def sample_credential_def rust_credential_def ascii_rust_string)

theorem registry_refines_map_witness:
  "creds (fst (create_user (sample_user ''al'' 2) sample_registry)) =
     [''bob'' \<mapsto> sample_credential 1, ''al'' \<mapsto> sample_credential 2]"
proof -
  let ?u = "sample_user ''al'' 2"
  let ?st = "\<lparr>st_users = [sample_user ''al'' 2, sample_user ''bob'' 1]\<rparr>"
  have inv: "registry_inv sample_registry"
    using sample_encodes sample_rust by (simp add: registry_inv_def sample_registry_def)
  have c: "creds sample_registry = [''bob'' \<mapsto> sample_credential 1]"
    by (simp add: creds_def sample_registry_def sample_user_def)
  have "find_user sample_registry ''al'' = Inl 0"
    by (simp add: find_user_def sample_registry_def sample_user_def)
  then have e: "create_user ?u sample_registry = (?st, validate_canonical ?st)"
    by (simp add: create_user_def sample_registry_def sample_user_def Let_def)
  have "validate_canonical ?st = Inr ()"
    using sample_encodes sample_rust
    by (subst validate_canonical_eq) (auto simp: sample_user_def)
  with e have "create_user ?u sample_registry = (?st, Inr ())" by simp
  with registry_refines_map [OF inv sample_rust(2), of "[]" True] c show ?thesis
    by (simp add: sample_user_def)
qed

end
