(* ===== verification/State_Machine.thy ===== *)
theory State_Machine
  imports Replicated_Sql Replicated_Identity Raft_Log
begin

unbundle bit_operations_syntax

text \<open>
  The replicated state machine of \<open>replicated_state_machine.rs\<close>, which turns committed Raft
  entries into one RocksDB batch each, and the task of \<open>main.rs\<close> that feeds it.

  The engine, the in-memory catalog and the clock, shared through \<open>Arc\<close>, are the fields of
  \<open>state_machine\<close>. \<open>serde_json\<close> and Unicode lower-casing are the record \<open>sm_env\<close>. Log indices
  are natural numbers as in the Raft theories and are written as eight bytes.

  The specification of the machine is the same code over the contents alone (\<open>spec_rocks\<close>);
  the refinement says that over any store that keeps RocksDB's contract the machine computes
  exactly that, unless the store reports an error, in which case nothing changes.
\<close>

section \<open>State, results and errors\<close>

definition APPLY_STATE_KEY :: bytes where
  "APPLY_STATE_KEY = str_bytes ''raft/sql/apply-state-v1''"

definition APPLY_STATE_BYTES :: nat where
  "APPLY_STATE_BYTES = 16"

record apply_state =
  last_applied_index :: nat
  last_commit_ts :: u64

datatype replicated_apply_outcome =
    IgnoredNonSql
  | AlreadyApplied nat
  | AppliedEntry nat string "u64 option"

datatype apply_error =
    SmCodec mutation_codec_error
  | SmIdentityCodec identity_codec_error
  | SmIdentityState identity_state_error
  | IdentityNotInitialized
  | ConflictingIdentityInitialization
  | SmStorage storage_error
  | SmRocks string
  | CatalogSerialization string
  | CorruptApplyState nat
  | TableIdMismatch string u32 u32
  | NonMonotonicCommitTimestamp u64 u64

record sm_env =
  to_lowercase :: "string \<Rightarrow> string"
  schema_to_json :: "table_schema \<Rightarrow> string + bytes"

record 'db state_machine =
  sm_engine :: 'db
  sm_catalog :: "string \<Rightarrow> table_schema option"
  sm_clock :: hlc_clock

definition apply_state_encode :: "apply_state \<Rightarrow> bytes" where
  "apply_state_encode s = be_bytes 8 (last_applied_index s) @ be_bytes 8 (unat (last_commit_ts s))"

definition apply_state_decode :: "bytes \<Rightarrow> apply_error + apply_state" where
  "apply_state_decode bs =
     (if length bs \<noteq> APPLY_STATE_BYTES then Inl (CorruptApplyState (length bs))
      else Inr \<lparr>last_applied_index = be_value (take 8 bs),
                last_commit_ts = of_nat (be_value (drop 8 bs))\<rparr>)"

definition load_state :: "'db rocks \<Rightarrow> 'db \<Rightarrow> apply_error + apply_state" where
  "load_state r d =
     rbind (map_err SmRocks (rk_get r CF_META APPLY_STATE_KEY d)) (\<lambda>v.
       case v of
         Some bs \<Rightarrow> apply_state_decode bs
       | None \<Rightarrow> Inr \<lparr>last_applied_index = 0, last_commit_ts = 0\<rparr>)"

definition sm_new ::
  "'db rocks \<Rightarrow> 'db \<Rightarrow> (string \<Rightarrow> table_schema option) \<Rightarrow> hlc_clock \<Rightarrow> apply_error + 'db state_machine" where
  "sm_new r d cat c =
     rbind (load_state r d) (\<lambda>s.
       Inr \<lparr>sm_engine = d, sm_catalog = cat,
            sm_clock = (if last_commit_ts s \<noteq> 0
                        then fst (observe_committed (from_u64 (last_commit_ts s)) c) else c)\<rparr>)"

section \<open>Table identifiers\<close>

text \<open>FNV-1a over the bytes of the name, with wrapping multiplication.\<close>

definition FNV_PRIME :: u32 where "FNV_PRIME = 16777619"
definition FNV_OFFSET :: u32 where "FNV_OFFSET = 2166136261"

definition table_id_for :: "string \<Rightarrow> u32" where
  "table_id_for name = foldl (\<lambda>h b. (h XOR ucast b) * FNV_PRIME) FNV_OFFSET (str_bytes name)"

definition validate_table_id :: "replicated_mutation \<Rightarrow> apply_error + unit" where
  "validate_table_id m =
     (let check = (\<lambda>table command_table_id.
            if command_table_id \<noteq> table_id_for table
            then Inl (TableIdMismatch table command_table_id (table_id_for table)) else Inr ())
      in case m of
           CreateTable _ \<Rightarrow> Inr ()
         | DropTable table table_id \<Rightarrow> check table table_id
         | InsertRows table table_id _ _ \<Rightarrow> check table table_id
         | UpdateRows table table_id _ _ \<Rightarrow> check table table_id
         | DeleteRows table table_id _ _ \<Rightarrow> check table table_id)"

section \<open>Applying one entry\<close>

definition cursor_op :: "nat \<Rightarrow> u64 \<Rightarrow> batch_op" where
  "cursor_op raft_index commit_ts = Put CF_META APPLY_STATE_KEY
     (apply_state_encode \<lparr>last_applied_index = raft_index, last_commit_ts = commit_ts\<rparr>)"

definition advance_control_apply ::
  "'db rocks \<Rightarrow> nat \<Rightarrow> apply_state \<Rightarrow> 'db state_machine \<Rightarrow> 'db state_machine \<times> (apply_error + unit)" where
  "advance_control_apply r raft_index previous sm =
     (case write_batch r [cursor_op raft_index (last_commit_ts previous)] (sm_engine sm) of
        Inl e \<Rightarrow> (sm, Inl (SmStorage e))
      | Inr d \<Rightarrow> (sm\<lparr>sm_engine := d\<rparr>, Inr ()))"

text \<open>The registry that an identity mutation asks for.\<close>

definition loaded_registry :: "'db rocks \<Rightarrow> 'db \<Rightarrow> apply_error + identity_state" where
  "loaded_registry r d =
     rbind (map_err SmIdentityState (state_load r d)) (\<lambda>st. ok_or st IdentityNotInitialized)"

definition after_change :: "identity_state \<times> (identity_state_error + 'a) \<Rightarrow> apply_error + identity_state" where
  "after_change p = rbind (map_err SmIdentityState (snd p)) (\<lambda>_. Inr (fst p))"

definition requested_registry ::
  "'db rocks \<Rightarrow> identity_mutation \<Rightarrow> 'db \<Rightarrow> apply_error + identity_state" where
  "requested_registry r m d =
     (case m of
        Initialize users \<Rightarrow>
          rbind (map_err SmIdentityState (state_new users)) (\<lambda>requested.
          rbind (map_err SmIdentityState (state_load r d)) (\<lambda>existing.
            case existing of
              None \<Rightarrow> Inr requested
            | Some st \<Rightarrow> if st = requested then Inr st else Inl ConflictingIdentityInitialization))
      | CreateUser username credential \<Rightarrow>
          rbind (loaded_registry r d) (\<lambda>st.
            after_change (create_user \<lparr>iu_username = username, iu_credential = credential\<rparr> st))
      | AlterUser username credential \<Rightarrow>
          rbind (loaded_registry r d) (\<lambda>st.
            after_change (alter_user \<lparr>iu_username = username, iu_credential = credential\<rparr> st))
      | DropUser username if_exists \<Rightarrow>
          rbind (loaded_registry r d) (\<lambda>st. after_change (drop_user username if_exists st)))"

definition apply_identity ::
  "'db rocks \<Rightarrow> nat \<Rightarrow> identity_mutation \<Rightarrow> apply_state \<Rightarrow> 'db state_machine \<Rightarrow>
   'db state_machine \<times> (apply_error + replicated_apply_outcome)" where
  "apply_identity r raft_index m previous sm =
     (case rbind (requested_registry r m (sm_engine sm)) (\<lambda>st.
             map_err SmIdentityState (state_encode st)) of
        Inl e \<Rightarrow> (sm, Inl e)
      | Inr encoded_state \<Rightarrow>
          (case write_batch r [Put CF_META REPLICATED_IDENTITY_STATE_KEY encoded_state,
                  cursor_op raft_index (last_commit_ts previous)] (sm_engine sm) of
             Inl e \<Rightarrow> (sm, Inl (SmStorage e))
           | Inr d \<Rightarrow>
               (sm\<lparr>sm_engine := d\<rparr>, Inr (AppliedEntry raft_index (id_command_tag m) None))))"

definition put_rows :: "u32 \<Rightarrow> u64 \<Rightarrow> replicated_row_write list \<Rightarrow> batch_op list" where
  "put_rows table_id commit_ts rows =
     (let ts = from_u64 commit_ts in
      map (\<lambda>row. Put CF_DATA (encode_versioned_key table_id (primary_key row) ts) (row_value row)) rows)"

text \<open>The part of the batch that depends on the kind of mutation.\<close>

definition mutation_batch ::
  "sm_env \<Rightarrow> 'db rocks \<Rightarrow> replicated_mutation \<Rightarrow> 'db \<Rightarrow> apply_error + batch_op list" where
  "mutation_batch env r m d =
     (case m of
        CreateTable schema \<Rightarrow>
          rbind (map_err CatalogSerialization (schema_to_json env schema)) (\<lambda>serialized.
            Inr [Put CF_CATALOG (str_bytes (to_lowercase env (schema_name schema))) serialized])
      | DropTable table table_id \<Rightarrow>
          rbind (map_err SmStorage (raw_scan_table_versions r table_id d)) (\<lambda>rows.
            Inr (Delete CF_CATALOG (str_bytes (to_lowercase env table)) #
                 map (\<lambda>(raw_key, _). Delete CF_DATA raw_key) rows))
      | InsertRows _ table_id commit_ts rows \<Rightarrow> Inr (put_rows table_id commit_ts rows)
      | UpdateRows _ table_id commit_ts rows \<Rightarrow> Inr (put_rows table_id commit_ts rows)
      | DeleteRows _ table_id commit_ts primary_keys \<Rightarrow>
          (let ts = from_u64 commit_ts in
           Inr (map (\<lambda>pk. Put CF_DATA (encode_versioned_key table_id pk ts) []) primary_keys)))"

definition catalog_after ::
  "sm_env \<Rightarrow> replicated_mutation \<Rightarrow> (string \<Rightarrow> table_schema option) \<Rightarrow> string \<Rightarrow> table_schema option" where
  "catalog_after env m cat =
     (case m of
        CreateTable schema \<Rightarrow> cat(to_lowercase env (schema_name schema) \<mapsto> schema)
      | DropTable table _ \<Rightarrow> cat(to_lowercase env table := None)
      | _ \<Rightarrow> cat)"

definition check_commit_ts :: "replicated_mutation \<Rightarrow> apply_state \<Rightarrow> apply_error + unit" where
  "check_commit_ts m previous =
     (case mut_commit_ts m of
        None \<Rightarrow> Inr ()
      | Some commit_ts \<Rightarrow>
          if commit_ts \<le> last_commit_ts previous
          then Inl (NonMonotonicCommitTimestamp commit_ts (last_commit_ts previous)) else Inr ())"

definition apply_sql ::
  "sm_env \<Rightarrow> 'db rocks \<Rightarrow> nat \<Rightarrow> replicated_mutation \<Rightarrow> apply_state \<Rightarrow> 'db state_machine \<Rightarrow>
   'db state_machine \<times> (apply_error + replicated_apply_outcome)" where
  "apply_sql env r raft_index m previous sm =
     (case rbind (check_commit_ts m previous) (\<lambda>_.
           rbind (validate_table_id m) (\<lambda>_.
           rbind (mutation_batch env r m (sm_engine sm)) (\<lambda>ops.
             let new_commit_ts = (case mut_commit_ts m of
                   Some ts \<Rightarrow> ts | None \<Rightarrow> last_commit_ts previous)
             in map_err SmStorage
                  (write_batch r (ops @ [cursor_op raft_index new_commit_ts]) (sm_engine sm))))) of
        Inl e \<Rightarrow> (sm, Inl e)
      | Inr d \<Rightarrow>
          (\<lparr>sm_engine = d, sm_catalog = catalog_after env m (sm_catalog sm),
            sm_clock = (case mut_commit_ts m of
              Some ts \<Rightarrow> fst (observe_committed (from_u64 ts) (sm_clock sm)) | None \<Rightarrow> sm_clock sm)\<rparr>,
           Inr (AppliedEntry raft_index (sql_command_tag m) (mut_affected_rows m))))"

definition apply_log_entry ::
  "sm_env \<Rightarrow> 'db rocks \<Rightarrow> log_entry \<Rightarrow> 'db state_machine \<Rightarrow>
   'db state_machine \<times> (apply_error + replicated_apply_outcome)" where
  "apply_log_entry env r entry sm =
     (case load_state r (sm_engine sm) of
        Inl e \<Rightarrow> (sm, Inl e)
      | Inr previous \<Rightarrow>
          if le_index entry \<le> last_applied_index previous
          then (sm, Inr (AlreadyApplied (le_index entry)))
          else if is_replicated_identity_mutation (le_command entry) then
            (case decode_identity (le_command entry) of
               Inl e \<Rightarrow> (sm, Inl (SmIdentityCodec e))
             | Inr m \<Rightarrow> apply_identity r (le_index entry) m previous sm)
          else if \<not> is_replicated_mutation (le_command entry) then
            (case advance_control_apply r (le_index entry) previous sm of
               (sm', Inl e) \<Rightarrow> (sm', Inl e)
             | (sm', Inr _) \<Rightarrow> (sm', Inr IgnoredNonSql))
          else
            (case decode_mutation (le_command entry) of
               Inl e \<Rightarrow> (sm, Inl (SmCodec e))
             | Inr m \<Rightarrow> apply_sql env r (le_index entry) m previous sm))"

definition durable_state :: "'db rocks \<Rightarrow> 'db state_machine \<Rightarrow> apply_error + apply_state" where
  "durable_state r sm = load_state r (sm_engine sm)"

text \<open>The apply task without the archive: each entry is answered, and the task ends at the first
  failure.\<close>

fun apply_task ::
  "sm_env \<Rightarrow> 'db rocks \<Rightarrow> log_entry list \<Rightarrow> 'db state_machine \<Rightarrow>
   'db state_machine \<times> (apply_error + unit) list" where
  "apply_task env r [] sm = (sm, [])"
| "apply_task env r (e # es) sm =
     (case apply_log_entry env r e sm of
        (sm', Inl err) \<Rightarrow> (sm', [Inl err])
      | (sm', Inr _) \<Rightarrow>
          (case apply_task env r es sm' of (sm'', answers) \<Rightarrow> (sm'', Inr () # answers)))"

section \<open>Refinement of a function of the contents\<close>

definition spec_rocks :: "contents rocks" where
  "spec_rocks =
     \<lparr>rk_has_cf = (\<lambda>_ _. True),
      rk_create_cf = (\<lambda>_ m. Inr m),
      rk_drop_cf = (\<lambda>cf m. Inr (m(cf := Map.empty))),
      rk_get = (\<lambda>cf k m. Inr (m cf k)),
      rk_put = (\<lambda>cf k v m. Inr (apply_op (Put cf k v) m)),
      rk_delete = (\<lambda>cf k m. Inr (apply_op (Delete cf k) m)),
      rk_write = (\<lambda>ops m. Inr (fold apply_op ops m)),
      rk_seek = (\<lambda>cf k m. pairs_from (m cf) k),
      rk_seek_for_prev = (\<lambda>cf k m. last_at_most (m cf) k)\<rparr>"

definition abs_sm :: "('db \<Rightarrow> contents) \<Rightarrow> 'db state_machine \<Rightarrow> contents state_machine" where
  "abs_sm view sm = \<lparr>sm_engine = view (sm_engine sm), sm_catalog = sm_catalog sm, sm_clock = sm_clock sm\<rparr>"

text \<open>The errors that come from the store itself.\<close>

fun from_store :: "apply_error \<Rightarrow> bool" where
  "from_store (SmRocks _) = True"
| "from_store (SmStorage (Rocks _)) = True"
| "from_store (SmIdentityState (IdRocks _)) = True"
| "from_store _ = False"

definition store_error :: "apply_error + 'a \<Rightarrow> bool" where
  "store_error res = (case res of Inl e \<Rightarrow> from_store e | Inr _ \<Rightarrow> False)"

lemma store_error_simps [simp]: "store_error (Inl e) = from_store e" "\<not> store_error (Inr x)"
  by (simp_all add: store_error_def)

lemma abs_sm_simps [simp]:
  "sm_engine (abs_sm view sm) = view (sm_engine sm)"
  "sm_catalog (abs_sm view sm) = sm_catalog sm"
  "sm_clock (abs_sm view sm) = sm_clock sm"
  "abs_sm view (sm\<lparr>sm_engine := d\<rparr>) = (abs_sm view sm)\<lparr>sm_engine := view d\<rparr>"
  by (simp_all add: abs_sm_def)

lemma spec_rocks_simps [simp]:
  "rk_get spec_rocks cf k m = Inr (m cf k)"
  "rk_write spec_rocks ops m = Inr (fold apply_op ops m)"
  "rk_seek spec_rocks cf k m = pairs_from (m cf) k"
  by (simp_all add: spec_rocks_def)

lemma write_batch_spec [simp]: "write_batch spec_rocks ops m = Inr (fold apply_op ops m)"
  by (simp add: write_batch_def)

lemma write_batch_error: "write_batch r ops d = Inl e \<Longrightarrow> \<exists>s. e = Rocks s"
  by (cases "rk_write r ops d") (auto simp: write_batch_def)

context rocks_store begin

lemma load_state_refines:
  "store_error (load_state r d) \<or> load_state r d = load_state spec_rocks (view d)"
  using get_view [of CF_META APPLY_STATE_KEY d]
  by (cases "rk_get r CF_META APPLY_STATE_KEY d") (auto simp: load_state_def split: option.splits)

lemma state_load_refines:
  "(\<exists>s. state_load r d = Inl (IdRocks s)) \<or> state_load r d = state_load spec_rocks (view d)"
  using get_view [of CF_META REPLICATED_IDENTITY_STATE_KEY d]
  by (cases "rk_get r CF_META REPLICATED_IDENTITY_STATE_KEY d")
    (auto simp: state_load_def split: option.splits)

lemma requested_registry_refines:
  "store_error (requested_registry r m d) \<or>
   requested_registry r m d = requested_registry spec_rocks m (view d)"
  using state_load_refines [of d]
  by (cases m) (auto simp: requested_registry_def loaded_registry_def rbind_def map_err_def split: sum.splits)

lemma mutation_batch_refines: "mutation_batch env r m d = mutation_batch env spec_rocks m (view d)"
  by (cases m) (simp_all add: mutation_batch_def raw_scan_table_versions_def seek_view)

lemma write_batch_refines: "write_batch r ops d = Inr d' \<Longrightarrow> view d' = fold apply_op ops (view d)"
  by (auto simp: write_batch_def result_simps dest: write_view)

lemma apply_identity_refines:
  assumes "apply_identity r i m s sm = (sm', res)"
  shows "if store_error res then sm' = sm
    else apply_identity spec_rocks i m s (abs_sm view sm) = (abs_sm view sm', res)"
proof (cases "rbind (requested_registry r m (sm_engine sm)) (\<lambda>st. map_err SmIdentityState (state_encode st))")
  case (Inl e)
  with assms have res: "sm' = sm" "res = Inl e" by (simp_all add: apply_identity_def)
  show ?thesis
  proof (cases "store_error res")
    case False
    with res Inl have "\<not> store_error (requested_registry r m (sm_engine sm))"
      by (auto simp: rbind_def split: sum.splits)
    with requested_registry_refines [of m "sm_engine sm"] Inl res False show ?thesis
      by (simp add: apply_identity_def)
  qed (use res in simp)
next
  case (Inr bs)
  then have "\<not> store_error (requested_registry r m (sm_engine sm))"
    by (cases "requested_registry r m (sm_engine sm)") auto
  with requested_registry_refines [of m "sm_engine sm"]
  have eq: "requested_registry spec_rocks m (view (sm_engine sm)) = requested_registry r m (sm_engine sm)"
    by simp
  let ?ops = "[Put CF_META REPLICATED_IDENTITY_STATE_KEY bs, cursor_op i (last_commit_ts s)]"
  show ?thesis
  proof (cases "write_batch r ?ops (sm_engine sm)")
    case Inl2: (Inl e)
    with assms Inr write_batch_error [OF Inl2] show ?thesis by (auto simp: apply_identity_def)
  next
    case Inr2: (Inr d)
    with assms Inr eq write_batch_refines [OF Inr2] show ?thesis by (auto simp: apply_identity_def)
  qed
qed

lemma apply_sql_refines:
  assumes "apply_sql env r i m s sm = (sm', res)"
  shows "if store_error res then sm' = sm
    else apply_sql env spec_rocks i m s (abs_sm view sm) = (abs_sm view sm', res)"
proof (cases "rbind (check_commit_ts m s) (\<lambda>_. rbind (validate_table_id m) (\<lambda>_.
    mutation_batch env r m (sm_engine sm)))")
  case (Inl e)
  with assms show ?thesis
    by (auto simp: apply_sql_def rbind_def mutation_batch_refines split: sum.splits)
next
  case (Inr ops)
  then have ok: "check_commit_ts m s = Inr ()" "validate_table_id m = Inr ()"
    "mutation_batch env r m (sm_engine sm) = Inr ops"
    by (auto simp: result_simps)
  let ?ts = "case mut_commit_ts m of Some ts \<Rightarrow> ts | None \<Rightarrow> last_commit_ts s"
  show ?thesis
  proof (cases "write_batch r (ops @ [cursor_op i ?ts]) (sm_engine sm)")
    case Inl2: (Inl e)
    with assms ok write_batch_error [OF Inl2] show ?thesis by (auto simp: apply_sql_def)
  next
    case Inr2: (Inr d)
    with assms ok write_batch_refines [OF Inr2] show ?thesis
      by (cases "mut_commit_ts m") (auto simp: apply_sql_def mutation_batch_refines abs_sm_def)
  qed
qed

lemma advance_refines:
  "case advance_control_apply r i s sm of
     (sm', Inl e) \<Rightarrow> sm' = sm \<and> from_store e
   | (sm', Inr _) \<Rightarrow> advance_control_apply spec_rocks i s (abs_sm view sm) = (abs_sm view sm', Inr ())"
  using write_batch_error [of r "[cursor_op i (last_commit_ts s)]" "sm_engine sm"]
    write_batch_refines [of "[cursor_op i (last_commit_ts s)]" "sm_engine sm"]
  by (auto simp: advance_control_apply_def split: sum.splits)

lemma apply_refines:
  assumes "apply_log_entry env r e sm = (sm', res)"
  shows "if store_error res then sm' = sm
    else apply_log_entry env spec_rocks e (abs_sm view sm) = (abs_sm view sm', res)"
proof (cases "load_state r (sm_engine sm)")
  case (Inl err)
  with load_state_refines [of "sm_engine sm"]
  have "from_store err \<or> load_state spec_rocks (view (sm_engine sm)) = Inl err" by auto
  with assms Inl show ?thesis by (auto simp: apply_log_entry_def)
next
  case (Inr s)
  with load_state_refines [of "sm_engine sm"] have "load_state spec_rocks (view (sm_engine sm)) = Inr s"
    by simp
  with assms Inr advance_refines [where i = "le_index e" and s = s and sm = sm]
    apply_identity_refines [of "le_index e" _ s sm sm' res] apply_sql_refines [of env "le_index e" _ s sm sm' res]
  show ?thesis
    by (auto simp: apply_log_entry_def split: if_splits sum.splits prod.splits)
qed

end

section \<open>The durable cursor\<close>

lemma apply_state_roundtrip:
  "last_applied_index s < 2 ^ 64 \<Longrightarrow> apply_state_decode (apply_state_encode s) = Inr s"
  using unat_less_2p [of "last_commit_ts s"]
  by (simp add: apply_state_decode_def apply_state_encode_def APPLY_STATE_BYTES_def)

lemma load_after_cursor:
  "i < 2 ^ 64 \<Longrightarrow> load_state spec_rocks (fold apply_op (ops @ [cursor_op i ts]) m) =
   Inr \<lparr>last_applied_index = i, last_commit_ts = ts\<rparr>"
  by (simp add: load_state_def cursor_op_def apply_state_roundtrip)

lemma spec_cursor:
  assumes "apply_log_entry env spec_rocks e sm = (sm', Inr out)" "le_index e < 2 ^ 64"
  shows "\<exists>s s'. load_state spec_rocks (sm_engine sm) = Inr s \<and> load_state spec_rocks (sm_engine sm') = Inr s' \<and>
    last_applied_index s' = max (last_applied_index s) (le_index e) \<and> last_commit_ts s \<le> last_commit_ts s' \<and>
    (le_index e \<le> last_applied_index s \<longrightarrow> sm' = sm \<and> out = AlreadyApplied (le_index e))"
proof -
  from assms(1) obtain s where s: "load_state spec_rocks (sm_engine sm) = Inr s"
    by (auto simp: apply_log_entry_def split: sum.splits)
  show ?thesis
  proof (cases "le_index e \<le> last_applied_index s")
    case True
    with assms(1) s show ?thesis by (auto simp: apply_log_entry_def)
  next
    case False
    have id: "\<exists>ops. sm_engine sm' = fold apply_op (ops @ [cursor_op (le_index e) (last_commit_ts s)]) (sm_engine sm)"
      if "apply_identity spec_rocks (le_index e) m s sm = (sm', Inr out)" for m
    proof -
      from that obtain bs where "sm_engine sm' = fold apply_op
          ([Put CF_META REPLICATED_IDENTITY_STATE_KEY bs] @ [cursor_op (le_index e) (last_commit_ts s)]) (sm_engine sm)"
        by (auto simp: apply_identity_def split: sum.splits)
      then show ?thesis by blast
    qed
    have sql: "\<exists>ops ts. sm_engine sm' = fold apply_op (ops @ [cursor_op (le_index e) ts]) (sm_engine sm) \<and>
        last_commit_ts s \<le> ts"
      if "apply_sql env spec_rocks (le_index e) m s sm = (sm', Inr out)" for m
      using that
      by (auto simp: apply_sql_def check_commit_ts_def result_simps Let_def simp del: fold_append
          split: sum.splits option.splits if_splits) (metis order.refl linorder_not_le order.strict_implies_order)+
    have ctl: "\<exists>ops. sm_engine sm' = fold apply_op (ops @ [cursor_op (le_index e) (last_commit_ts s)]) (sm_engine sm)"
      if "advance_control_apply spec_rocks (le_index e) s sm = (sm', Inr ())"
    proof -
      from that have "sm_engine sm' = fold apply_op ([] @ [cursor_op (le_index e) (last_commit_ts s)]) (sm_engine sm)"
        by (auto simp: advance_control_apply_def)
      then show ?thesis by blast
    qed
    obtain ops ts where "sm_engine sm' = fold apply_op (ops @ [cursor_op (le_index e) ts]) (sm_engine sm)"
      "last_commit_ts s \<le> ts"
      using assms(1) s False id sql ctl
      by (auto simp: apply_log_entry_def simp del: fold_append split: if_splits sum.splits prod.splits)
    with load_after_cursor [OF assms(2)] s False show ?thesis by simp
  qed
qed

text \<open>What is written and answered depends on the contents alone, not on the catalog in memory or
  on the clock.\<close>

lemma apply_engine_only:
  assumes "sm_engine a = sm_engine b"
  shows "snd (apply_log_entry env r e a) = snd (apply_log_entry env r e b) \<and>
    sm_engine (fst (apply_log_entry env r e a)) = sm_engine (fst (apply_log_entry env r e b))"
  using assms
  by (auto simp: apply_log_entry_def apply_identity_def apply_sql_def advance_control_apply_def
      split: sum.split)

lemma task_engine_only:
  assumes "sm_engine a = sm_engine b"
  shows "snd (apply_task env r es a) = snd (apply_task env r es b) \<and>
    sm_engine (fst (apply_task env r es a)) = sm_engine (fst (apply_task env r es b))"
  using assms
proof (induction es arbitrary: a b)
  case (Cons e es)
  obtain a' ra b' rb where ab: "apply_log_entry env r e a = (a', ra)" "apply_log_entry env r e b = (b', rb)"
    by fastforce
  with apply_engine_only [OF Cons.prems, of env r e] have "ra = rb" "sm_engine a' = sm_engine b'" by simp_all
  with Cons.IH [of a' b'] ab show ?case by (auto split: sum.splits prod.splits)
qed simp

context rocks_store begin

lemma task_refines:
  assumes "apply_task env r es sm = (sm', answers)" "\<forall>a \<in> set answers. \<not> store_error a"
  shows "apply_task env spec_rocks es (abs_sm view sm) = (abs_sm view sm', answers)"
  using assms
proof (induction es arbitrary: sm answers)
  case (Cons e es)
  obtain sm1 res where e: "apply_log_entry env r e sm = (sm1, res)" by fastforce
  with Cons.prems have "\<not> store_error res" by (cases res) (auto split: prod.splits)
  with apply_refines [OF e]
  have spec: "apply_log_entry env spec_rocks e (abs_sm view sm) = (abs_sm view sm1, res)" by simp
  show ?case
  proof (cases res)
    case (Inl err)
    with Cons.prems e spec show ?thesis by simp
  next
    case (Inr out)
    with Cons.prems e obtain rest where "apply_task env r es sm1 = (sm', rest)" "answers = Inr () # rest"
      by (auto split: prod.splits)
    with Cons.IH [of sm1 rest] Cons.prems spec Inr show ?thesis by simp
  qed
qed simp

end

lemma spec_task_cursor:
  assumes "apply_task env spec_rocks es sm = (sm', answers)" "\<forall>a \<in> set answers. is_ok a"
    and "\<forall>e \<in> set es. le_index e < 2 ^ 64" "load_state spec_rocks (sm_engine sm) = Inr s"
  shows "\<exists>s'. load_state spec_rocks (sm_engine sm') = Inr s' \<and>
    last_applied_index s' = Max (insert (last_applied_index s) (le_index ` set es))"
  using assms
proof (induction es arbitrary: sm answers s)
  case (Cons e es)
  obtain sm1 res where e: "apply_log_entry env spec_rocks e sm = (sm1, res)" by fastforce
  with Cons.prems obtain out rest where res: "res = Inr out" and
    t: "apply_task env spec_rocks es sm1 = (sm', rest)" "answers = Inr () # rest"
    by (auto split: sum.splits prod.splits)
  from spec_cursor [of env e sm sm1 out] e res Cons.prems obtain s1 where
    s1: "load_state spec_rocks (sm_engine sm1) = Inr s1"
    "last_applied_index s1 = max (last_applied_index s) (le_index e)" by auto
  have "Max (insert (max a b) A) = Max (insert a (insert b A))" if "finite A" for a b :: nat and A
    using that by (cases "A = {}") (simp_all add: max.assoc)
  with Cons.IH [OF t(1), of s1] t(2) Cons.prems s1 show ?case by fastforce
qed simp

context rocks_store begin

lemma known_entry:
  assumes "load_state spec_rocks (view (sm_engine sm)) = Inr s" "le_index e \<le> last_applied_index s"
    and "apply_log_entry env r e sm = (sm', res)"
  shows "sm' = sm \<and> (res = Inr (AlreadyApplied (le_index e)) \<or> store_error res)"
  using load_state_refines [of "sm_engine sm"] assms
  by (cases "load_state r (sm_engine sm)") (auto simp: apply_log_entry_def)

lemma known_entries:
  assumes "load_state spec_rocks (view (sm_engine sm)) = Inr s"
    and "\<forall>e \<in> set es. le_index e \<le> last_applied_index s" "apply_task env r es sm = (sm', answers)"
  shows "sm' = sm \<and> (\<forall>a \<in> set answers. a = Inr () \<or> store_error a)"
  using assms
proof (induction es arbitrary: answers)
  case (Cons e es)
  obtain sm1 res where e: "apply_log_entry env r e sm = (sm1, res)" by fastforce
  with known_entry [OF Cons.prems(1) _ e] Cons.prems(2)
  have "sm1 = sm" "res = Inr (AlreadyApplied (le_index e)) \<or> store_error res" by auto
  with Cons e show ?case by (auto split: sum.splits prod.splits)
qed simp

end


text \<open>C4. Replicas agree: two nodes that start from the same contents and apply the same entries
  without an error of their stores give the same answers and end with the same contents,
  whatever their clocks and in-memory catalogs are.\<close>

theorem replicas_agree:
  assumes "rocks_store r1 v1" "rocks_store r2 v2" "v1 (sm_engine a) = v2 (sm_engine b)"
    and "apply_task env r1 es a = (a', as)" "apply_task env r2 es b = (b', bs)"
    and "\<forall>x \<in> set as \<union> set bs. \<not> store_error x"
  shows "as = bs \<and> v1 (sm_engine a') = v2 (sm_engine b')"
proof -
  have "apply_task env spec_rocks es (abs_sm v1 a) = (abs_sm v1 a', as)"
    "apply_task env spec_rocks es (abs_sm v2 b) = (abs_sm v2 b', bs)"
    using rocks_store.task_refines [OF assms(1,4)] rocks_store.task_refines [OF assms(2,5)] assms(6)
    by auto
  then show ?thesis
    using task_engine_only [of "abs_sm v1 a" "abs_sm v2 b" env spec_rocks es] assms(3) by simp
qed

text \<open>C5. Entries are applied exactly once: after a restart, which rebuilds the catalog and the
  clock over the same store, delivering any entries again that had been applied changes nothing;
  each is answered positively or with an error of the store.\<close>

theorem replay_changes_nothing:
  assumes "rocks_store r view" "apply_task env r es sm = (sm1, answers)" "\<forall>a \<in> set answers. is_ok a"
    and "\<forall>e \<in> set es. le_index e < 2 ^ 64" "is_ok (load_state r (sm_engine sm))"
    and "sm_engine restarted = sm_engine sm1" "set again \<subseteq> set es"
    and "apply_task env r again restarted = (sm2, answers2)"
  shows "sm2 = restarted \<and> (\<forall>a \<in> set answers2. a = Inr () \<or> store_error a)"
proof -
  have "\<forall>a \<in> set answers. \<not> store_error a" using assms(3) by (auto simp: is_ok_iff)
  from rocks_store.task_refines [OF assms(1,2) this]
  have t: "apply_task env spec_rocks es (abs_sm view sm) = (abs_sm view sm1, answers)" .
  obtain s where "load_state r (sm_engine sm) = Inr s" using assms(5) by (auto simp: is_ok_iff)
  with rocks_store.load_state_refines [OF assms(1), of "sm_engine sm"]
  have "load_state spec_rocks (sm_engine (abs_sm view sm)) = Inr s" by simp
  from spec_task_cursor [OF t assms(3,4) this] obtain s' where
    "load_state spec_rocks (view (sm_engine restarted)) = Inr s'" "\<forall>e \<in> set es. le_index e \<le> last_applied_index s'"
    using assms(6) by (auto intro: Max_ge)
  with rocks_store.known_entries [OF assms(1) this(1) _ assms(8)] assms(7) show ?thesis by blast
qed

section \<open>Witnesses\<close>

definition sample_sm_env :: sm_env where
  "sample_sm_env = \<lparr>to_lowercase = (\<lambda>s. s), schema_to_json = (\<lambda>_. Inr [])\<rparr>"

definition sample_machine :: "mem_db state_machine" where
  "sample_machine = \<lparr>sm_engine = mem_open, sm_catalog = (\<lambda>_. None), sm_clock = hlc_new 500\<rparr>"

definition sample_insert :: replicated_mutation where
  "sample_insert = InsertRows ''t'' (table_id_for ''t'') 5 [\<lparr>primary_key = [7], row_value = [9]\<rparr>]"

definition sample_entries :: "log_entry list" where
  "sample_entries =
     [\<lparr>le_term = 1, le_index = 1, le_command = []\<rparr>,
      \<lparr>le_term = 1, le_index = 2, le_command = projr (encode_mutation sample_insert)\<rparr>]"

lemma sample_insert_encodes: "encode_mutation sample_insert =
    Inr (NBRM_MAGIC @ [1, 3] @ wr_u32 1 @ str_bytes ''t'' @ wr_u32 (table_id_for ''t'') @ wr_u64 5 @
      wr_u32 1 @ wr_u32 1 @ [7] @ wr_u32 1 @ [9])"
  by (simp add: encode_mutation_def encode_body_def sample_insert_def encode_row_writes_def
      validate_table_name_def validate_commit_ts_def put_string_def put_bytes_def wr_bytes_def put_row_def
      wr_pair_def put_count_def MAX_ITEMS_def ensure_row_write_order_def require_def NBRM_MAGIC_def
      REPLICATED_MUTATION_VERSION_def OP_INSERT_ROWS_def MAX_REPLICATED_MUTATION_BYTES_def Let_def)

lemma sample_insert_decodes:
  "decode_mutation (projr (encode_mutation sample_insert)) = Inr sample_insert"
proof -
  have "rust_mutation sample_insert"
    by (simp add: rust_mutation_def sample_insert_def ascii_rust_string)
  moreover have "canonical sample_insert = sample_insert" by (simp add: canonical_def sample_insert_def)
  ultimately show ?thesis
    using decode_mutation_iff [of "projr (encode_mutation sample_insert)" sample_insert] sample_insert_encodes
    by simp
qed

lemma sample_first:
  "apply_log_entry sample_sm_env mem_rocks (sample_entries ! 0) sample_machine =
    (sample_machine\<lparr>sm_engine := mem_op (cursor_op 1 0) mem_open\<rparr>, Inr IgnoredNonSql)"
  by (simp add: apply_log_entry_def sample_entries_def sample_machine_def load_state_def mem_rocks_def
      mem_view_def mem_open_def is_replicated_identity_mutation_def is_replicated_mutation_def
      NBRI_MAGIC_def NBRM_MAGIC_def str_bytes_def advance_control_apply_def write_batch_def)

lemma sample_second:
  "\<exists>sm. apply_log_entry sample_sm_env mem_rocks (sample_entries ! 1)
      (sample_machine\<lparr>sm_engine := mem_op (cursor_op 1 0) mem_open\<rparr>) =
    (sm, Inr (AppliedEntry 2 ''INSERT'' (Some 1)))"
proof -
  have "load_state mem_rocks (mem_op (cursor_op 1 0) mem_open) =
      Inr \<lparr>last_applied_index = 1, last_commit_ts = 0\<rparr>"
    by (simp add: load_state_def mem_rocks_def mem_view_def cursor_op_def mem_put_def mem_open_def apply_state_roundtrip)
  moreover have "le_index (sample_entries ! 1) = 2"
    "le_command (sample_entries ! 1) = projr (encode_mutation sample_insert)"
    by (simp_all add: sample_entries_def)
  moreover have "is_replicated_mutation (projr (encode_mutation sample_insert))"
    "\<not> is_replicated_identity_mutation (projr (encode_mutation sample_insert))"
    by (simp_all add: sample_insert_encodes is_replicated_mutation_def is_replicated_identity_mutation_def
        starts_with_def NBRM_MAGIC_def NBRI_MAGIC_def str_bytes_def)
  ultimately show ?thesis
    by (simp add: apply_log_entry_def sample_insert_decodes apply_sql_def)
      (simp add: sample_insert_def check_commit_ts_def mut_commit_ts_def validate_table_id_def
        mutation_batch_def write_batch_def mem_rocks_def sql_command_tag_def mut_affected_rows_def Let_def)
qed

lemma sample_task:
  "\<exists>sm. apply_task sample_sm_env mem_rocks sample_entries sample_machine = (sm, [Inr (), Inr ()])"
proof -
  have es: "sample_entries = [sample_entries ! 0, sample_entries ! 1]" by (simp add: sample_entries_def)
  obtain sm where "apply_log_entry sample_sm_env mem_rocks (sample_entries ! 1)
      (sample_machine\<lparr>sm_engine := mem_op (cursor_op 1 0) mem_open\<rparr>) =
    (sm, Inr (AppliedEntry 2 ''INSERT'' (Some 1)))" using sample_second by blast
  then show ?thesis by (subst es) (simp add: sample_first)
qed


definition other_machine :: "mem_db state_machine" where
  "other_machine = sample_machine\<lparr>sm_catalog := [''x'' \<mapsto> \<lparr>schema_name = ''x'', schema_columns = []\<rparr>],
     sm_clock := hlc_new 7\<rparr>"

theorem replicas_agree_witness:
  "let a = apply_task sample_sm_env mem_rocks sample_entries sample_machine;
       b = apply_task sample_sm_env mem_rocks sample_entries other_machine
   in snd a = [Inr (), Inr ()] \<and> snd b = snd a \<and> mem_view (sm_engine (fst a)) = mem_view (sm_engine (fst b))"
proof -
  obtain a where a: "apply_task sample_sm_env mem_rocks sample_entries sample_machine = (a, [Inr (), Inr ()])"
    using sample_task by blast
  have e: "sm_engine sample_machine = sm_engine other_machine" by (simp add: other_machine_def)
  obtain b bs where b: "apply_task sample_sm_env mem_rocks sample_entries other_machine = (b, bs)" by fastforce
  have "bs = [Inr (), Inr ()]" using task_engine_only [OF e, of sample_sm_env mem_rocks sample_entries] a b by simp
  then show ?thesis
    using replicas_agree [OF mem_store_laws.rocks_store_axioms mem_store_laws.rocks_store_axioms _ a b] a b e
    by simp
qed

theorem replay_changes_nothing_witness:
  "let a = apply_task sample_sm_env mem_rocks sample_entries sample_machine;
       restarted = (fst a)\<lparr>sm_clock := hlc_new 7\<rparr>
   in fst (apply_task sample_sm_env mem_rocks [sample_entries ! 1] restarted) = restarted"
proof -
  obtain a where a: "apply_task sample_sm_env mem_rocks sample_entries sample_machine = (a, [Inr (), Inr ()])"
    using sample_task by blast
  obtain b bs where b: "apply_task sample_sm_env mem_rocks [sample_entries ! 1] (a\<lparr>sm_clock := hlc_new 7\<rparr>) = (b, bs)"
    by fastforce
  have "is_ok (load_state mem_rocks (sm_engine sample_machine))"
    by (simp add: load_state_def sample_machine_def mem_rocks_def mem_view_def mem_open_def)
  with replay_changes_nothing [OF mem_store_laws.rocks_store_axioms a _ _ _ _ _ b] a b show ?thesis
    by (simp add: sample_entries_def)
qed

end
