(* ===== verification/Replication.thy ===== *)
theory Replication
  imports State_Machine Raft_Apply
begin

text \<open>
  Raft and the replicated state machine together: the confirmed apply channel of the Raft node
  is the apply task of \<open>main.rs\<close> over the state machine. The node's apply position and the
  durable cursor of the machine move together, and what the machine stores is the function of
  the committed entries that \<open>State_Machine\<close> specifies.
\<close>

section \<open>The apply channel\<close>

text \<open>One round of the task: the entry is applied and the result sent back; the error reaches the
  node as text (\<open>show_error\<close>).\<close>

definition confirm_entry ::
  "(apply_error \<Rightarrow> string) \<Rightarrow> sm_env \<Rightarrow> 'db rocks \<Rightarrow> 'db state_machine \<Rightarrow> log_entry \<Rightarrow>
   'db state_machine \<times> apply_outcome" where
  "confirm_entry show_error smenv r sm entry =
     (case apply_log_entry smenv r entry sm of
        (sm', Inr _) \<Rightarrow> (sm', Applied)
      | (sm', Inl e) \<Rightarrow> (sm', ApplyError (show_error e)))"

lemma confirm_all_task:
  assumes "sm_confirm env = confirm_entry show_error smenv r" "confirm_all env sm es = Some sm'"
  shows "apply_task smenv r es sm = (sm', replicate (length es) (Inr ()))"
  using assms(2)
proof (induction es arbitrary: sm)
  case (Cons e es)
  then obtain sm1 where "sm_confirm env sm e = (sm1, Applied)" and rest: "confirm_all env sm1 es = Some sm'"
    by (auto split: prod.splits apply_outcome.splits)
  then obtain out where "apply_log_entry smenv r e sm = (sm1, Inr out)"
    by (auto simp: assms(1) confirm_entry_def split: prod.splits sum.splits)
  with Cons.IH [OF rest] show ?case by simp
qed simp

section \<open>Positions stay inside the log\<close>

definition within_log :: "('s, 'm) raft_node \<Rightarrow> bool" where
  "within_log n \<longleftrightarrow> log_ok (ps n) \<and> snapshot_index (ps n) \<le> last_applied n \<and>
     last_applied n \<le> last_log_index (ps n)"

lemma applied_one_within: "applied_one env n m \<Longrightarrow> within_log n \<Longrightarrow> within_log m"
  by (auto simp: applied_one_def within_log_def log_extends_def last_log_index_def log_ok_nonempty
      intro: le_trans)

lemma apply_loop_within:
  assumes "within_log n"
  shows "all_opt (\<lambda>res. case res of Inl _ \<Rightarrow> True | Inr (n', go) \<Rightarrow> go \<longrightarrow> within_log n')
    (apply_loop fuel env n)"
  using assms
proof (induction fuel arbitrary: n)
  case 0
  then show ?case by (simp add: apply_loop.simps)
next
  case (Suc fuel)
  have "all_opt (\<lambda>res. case res of Inl _ \<Rightarrow> True | Inr (n', go) \<Rightarrow> go \<longrightarrow> within_log n')
     (if go then apply_loop fuel env m else Some (Inr (m, False)))"
    if "go \<longrightarrow> applied_one env n m" for m go
    using that Suc.IH [of m] applied_one_within [OF _ Suc.prems, of env m] by simp
  then show ?case
    using Suc.prems by (subst apply_loop.simps) (auto intro!: all_opt_mono [OF apply_entry_spec])
qed

lemma entries_between_index:
  assumes "within_log n" "e \<in> set (entries_between (ps n) a (last_applied n))" "snapshot_index (ps n) \<le> a"
  shows "a < le_index e \<and> le_index e \<le> last_applied n"
proof -
  from assms(2) obtain i where i: "e = entry_no (ps n) i" "a < i" "i \<le> last_applied n"
    by (auto simp: entries_between_def)
  have "ps_log (ps n) \<noteq> []" using assms(1) by (simp add: within_log_def log_ok_nonempty)
  then have "i - snapshot_index (ps n) < length (ps_log (ps n))" and "snapshot_index (ps n) \<le> i"
    using i assms by (auto simp: within_log_def last_log_index_def)
  then have "le_index e = i" using assms(1) i by (simp add: within_log_def log_ok_def entry_no_def)
  with i show ?thesis by simp
qed

lemma within_pos: "within_log n \<Longrightarrow> last_applied n - snapshot_index (ps n) < length (ps_log (ps n))"
proof -
  assume w: "within_log n"
  then have "length (ps_log (ps n)) \<noteq> 0" using log_ok_nonempty by (auto simp: within_log_def)
  with w show ?thesis unfolding within_log_def last_log_index_def by linarith
qed

lemma entries_between_max:
  assumes "within_log n" "snapshot_index (ps n) \<le> a" "a \<le> last_applied n"
  shows "Max (insert a (le_index ` set (entries_between (ps n) a (last_applied n)))) = last_applied n"
proof (rule Max_eqI)
  let ?es = "entries_between (ps n) a (last_applied n)"
  show "y \<le> last_applied n" if "y \<in> insert a (le_index ` set ?es)" for y
    using that entries_between_index [OF assms(1) _ assms(2)] assms(3) by auto
  show "last_applied n \<in> insert a (le_index ` set ?es)"
  proof (cases "a = last_applied n")
    case False
    then have "entry_no (ps n) (last_applied n) \<in> set ?es" using assms(3) by (auto simp: entries_between_def)
    moreover have "le_index (entry_no (ps n) (last_applied n)) = last_applied n"
      using assms(1) within_pos [OF assms(1)] by (simp add: within_log_def log_ok_def entry_no_def)
    ultimately show ?thesis by (metis image_eqI insertI2)
  qed simp
qed simp

text \<open>C3. A node stores exactly what its committed log says: when the apply loop ends with the node
  running, the contents of its store are the specified result of the entries above the old apply
  position, in log order and once each, everything committed is in them, and the durable cursor
  again equals the apply position, so a restart resumes after the last applied entry.\<close>

theorem stored_state_follows_log:
  assumes "rocks_store r view" "sm_confirm env = confirm_entry show_error smenv r"
    and "has_confirmed_apply_tx n" "within_log n"
    and "durable_state r (machine n) = Inr s" "last_applied_index s = last_applied n"
    and "apply_loop fuel env n = Some (Inr (n', True))" "last_log_index (ps n') < 2 ^ 64"
  shows "let es = entries_between (ps n') (last_applied n) (last_applied n') in
    apply_task smenv spec_rocks es (abs_sm view (machine n)) =
      (abs_sm view (machine n'), replicate (length es) (Inr ())) \<and>
    commit_index n' \<le> last_applied n' \<and>
    (\<exists>s'. load_state spec_rocks (view (sm_engine (machine n'))) = Inr s' \<and>
      last_applied_index s' = last_applied n')"
proof -
  let ?es = "entries_between (ps n') (last_applied n) (last_applied n')"
  have snap: "snapshot_index (ps n) \<le> last_applied n" using assms(4) by (simp add: within_log_def)
  from all_opt_D [OF apply_loop_in_order [OF assms(3) snap] assms(7)]
  have n': "last_applied n \<le> last_applied n'" "commit_index n' \<le> last_applied n'"
    "snapshot_index (ps n') = snapshot_index (ps n)" "confirm_all env (machine n) ?es = Some (machine n')"
    by (simp_all add: log_extends_def)
  have w: "within_log n'" using all_opt_D [OF apply_loop_within [OF assms(4)] assms(7)] by simp
  have t: "apply_task smenv r ?es (machine n) = (machine n', replicate (length ?es) (Inr ()))"
    by (rule confirm_all_task [OF assms(2) n'(4)])
  have spec: "apply_task smenv spec_rocks ?es (abs_sm view (machine n)) =
      (abs_sm view (machine n'), replicate (length ?es) (Inr ()))"
    by (rule rocks_store.task_refines [OF assms(1) t]) simp
  have "\<forall>e \<in> set ?es. le_index e < 2 ^ 64"
    using entries_between_index [OF w] snap n' w assms(8) by (fastforce simp: within_log_def)
  moreover have "load_state spec_rocks (sm_engine (abs_sm view (machine n))) = Inr s"
    using rocks_store.load_state_refines [OF assms(1), of "sm_engine (machine n)"] assms(5)
    by (simp add: durable_state_def)
  ultimately obtain s' where "load_state spec_rocks (view (sm_engine (machine n'))) = Inr s'"
    "last_applied_index s' = last_applied n'"
    using spec_task_cursor [OF spec, of s] entries_between_max [OF w] snap n' assms(6) by auto
  with spec n' show ?thesis by (simp add: Let_def)
qed

section \<open>Witness\<close>

text \<open>A node of a single-voter cluster whose machine has just been opened, with a committed entry
  that is a control command.\<close>

definition sample_raft_env :: "(mem_store, mem_db state_machine) raft_env" where
  "sample_raft_env =
     \<lparr>codec_of = codec_of mem_env, store_save = store_save mem_env, store_stage = store_stage mem_env,
      store_load_staged = store_load_staged mem_env, store_clear = store_clear mem_env,
      store_load = store_load mem_env, sm_create = (\<lambda>_ _ _. Inr []), sm_validate = (\<lambda>_ _ _ _. Inr ()),
      sm_restore = (\<lambda>m _ _ _. (m, Inr ())),
      sm_confirm = confirm_entry (\<lambda>_. []) sample_sm_env mem_rocks,
      sm_handoff = (\<lambda>m _. (m, ApplyClosed))\<rparr>"

definition sample_sql_node :: "(mem_store, mem_db state_machine) raft_node" where
  "sample_sql_node = (let n = raft_new ''n1'' [] sample_machine in
     n\<lparr>persistence := Some mem_new, has_confirmed_apply_tx := True,
       ps := fst (log_append (ps n) 1 []), commit_index := 1\<rparr>)"

lemma sample_sql_run:
  "case apply_loop 3 sample_raft_env sample_sql_node of
     Some (Inr (n', True)) \<Rightarrow> last_applied n' = 1 \<and> last_log_index (ps n') = 1 | _ \<Rightarrow> False"
  by code_simp

theorem stored_state_follows_log_witness:
  "case apply_loop 3 sample_raft_env sample_sql_node of
     Some (Inr (n', True)) \<Rightarrow>
       (\<exists>s. load_state spec_rocks (mem_view (sm_engine (machine n'))) = Inr s \<and> last_applied_index s = 1)
   | _ \<Rightarrow> False"
proof -
  obtain n' where n': "apply_loop 3 sample_raft_env sample_sql_node = Some (Inr (n', True))"
    "last_applied n' = 1" "last_log_index (ps n') = 1"
    using sample_sql_run by (auto split: option.splits sum.splits bool.splits)
  have "log_ok (ps_new\<lparr>membership := m\<rparr>)" for m by (simp add: log_ok_def ps_new_def)
  then have "within_log sample_sql_node"
    by (simp add: within_log_def sample_sql_node_def Let_def raft_new_def from_bootstrap_def log_ok_append)
      (simp add: ps_new_def log_append_def last_log_index_def)
  moreover have "has_confirmed_apply_tx sample_sql_node" "last_applied sample_sql_node = 0"
    "machine sample_sql_node = sample_machine"
    by (simp_all add: sample_sql_node_def Let_def raft_new_def from_bootstrap_def ps_new_def)
  moreover have "durable_state mem_rocks sample_machine = Inr \<lparr>last_applied_index = 0, last_commit_ts = 0\<rparr>"
    by (simp add: durable_state_def load_state_def sample_machine_def mem_rocks_def mem_view_def mem_open_def)
  ultimately show ?thesis
    using stored_state_follows_log [OF mem_store_laws.rocks_store_axioms _ _ _ _ _ n'(1)] n'
    by (simp add: sample_raft_env_def Let_def)
qed

end
