(* ===== verification/Raft_Persistence.thy ===== *)
theory Raft_Persistence
  imports Storage Raft_Log
begin

text \<open>
  The stable storage of Raft on RocksDB (\<open>raft_persistence.rs\<close>) and the fail-closed adapter
  around it (\<open>fail_closed.rs\<close>). The store keeps a compact hard state, one key per log entry, the
  snapshot bytes and a staged snapshot in the meta column family, and rewrites only what changed
  since the last save.

  The main result is that this store simulates the in-memory store of \<open>log.rs\<close>, on which the
  laws of the locale \<open>persistence_store\<close> are proved. A save that keeps the snapshot boundary
  writes only the entries above the end of the old log when the term at that end is unchanged;
  this is right when the two logs agree below it, which is Raft's log matching property and the
  hypothesis \<open>continues\<close> here. \<open>serde_json\<close> is the record \<open>raft_json\<close>.
\<close>

section \<open>Keys and records\<close>

definition RAFT_STATE_KEY_V1 :: bytes where "RAFT_STATE_KEY_V1 = str_bytes ''raft/core/persistent-state-v1''"
definition RAFT_HARD_STATE_KEY_V2 :: bytes where "RAFT_HARD_STATE_KEY_V2 = str_bytes ''raft/core/hard-state-v2''"
definition RAFT_LOG_PREFIX_V2 :: bytes where "RAFT_LOG_PREFIX_V2 = str_bytes ''raft/core/log-v2/''"
definition RAFT_SNAPSHOT_KEY :: bytes where "RAFT_SNAPSHOT_KEY = str_bytes ''raft/core/snapshot-v1''"
definition RAFT_STAGED_SNAPSHOT_KEY :: bytes where
  "RAFT_STAGED_SNAPSHOT_KEY = str_bytes ''raft/core/snapshot-staged-v1''"

definition STAGED_MAGIC :: bytes where "STAGED_MAGIC = str_bytes ''NBST''"
definition STAGED_VERSION :: u8 where "STAGED_VERSION = 1"
definition STAGED_HEADER_BYTES :: nat where "STAGED_HEADER_BYTES = 4 + 1 + 1 + 8 + 8"
definition LOG_ENTRY_MAGIC :: bytes where "LOG_ENTRY_MAGIC = str_bytes ''NBL2''"
definition LOG_ENTRY_VERSION :: u8 where "LOG_ENTRY_VERSION = 1"
definition LOG_ENTRY_HEADER_BYTES :: nat where "LOG_ENTRY_HEADER_BYTES = 4 + 1 + 8 + 8 + 4"

record hard_state =
  hs_current_term :: nat
  hs_voted_for :: "nodeid option"
  hs_snapshot_index :: nat
  hs_snapshot_term :: nat
  hs_membership :: "cluster_membership option"
  hs_last_log_index :: nat
  hs_last_log_term :: nat
  hs_snapshot_bytes_len :: nat

datatype store_failure =
    CfUnavailable
  | RocksFailure string
  | SerializeFailure string
  | DecodeFailure string
  | CommandTooLong nat
  | TruncatedEntry nat nat
  | BadEntryMagic nat
  | BadEntryVersion nat u8
  | EntryIndexMismatch nat nat
  | EntryLengthMismatch nat nat nat
  | StateMissingEntry nat
  | TruncatedStaged nat
  | BadStagedMagic
  | BadStagedVersion u8
  | BadStagedKind u8
  | EndPrecedesBoundary nat nat
  | MissingEntry nat
  | TermMismatch nat nat nat
  | SnapshotLengthMismatch nat nat
  | SnapshotWithoutState

record raft_json =
  hard_to_json :: "hard_state \<Rightarrow> string + bytes"
  hard_from_json :: "bytes \<Rightarrow> string + hard_state"
  state_from_json :: "bytes \<Rightarrow> string + persistent_state"

record 'db raft_store =
  rs_engine :: 'db
  cached_hard :: "hard_state option"

definition hard_from_state :: "persistent_state \<Rightarrow> bytes \<Rightarrow> hard_state" where
  "hard_from_state s snapshot_data =
     \<lparr>hs_current_term = current_term s, hs_voted_for = voted_for s,
      hs_snapshot_index = snapshot_index s, hs_snapshot_term = snapshot_term s,
      hs_membership = membership s, hs_last_log_index = last_log_index s,
      hs_last_log_term = last_log_term s, hs_snapshot_bytes_len = length snapshot_data\<rparr>"

definition raft_store_new :: "'db \<Rightarrow> 'db raft_store" where
  "raft_store_new d = \<lparr>rs_engine = d, cached_hard = None\<rparr>"

definition meta_cf :: "'db rocks \<Rightarrow> 'db \<Rightarrow> store_failure + unit" where
  "meta_cf r d = require (rk_has_cf r CF_META d) CfUnavailable"

definition load_hard_v2 :: "raft_json \<Rightarrow> 'db rocks \<Rightarrow> 'db \<Rightarrow> store_failure + hard_state option" where
  "load_hard_v2 j r d =
     rbind (meta_cf r d) (\<lambda>_.
     rbind (map_err RocksFailure (rk_get r CF_META RAFT_HARD_STATE_KEY_V2 d)) (\<lambda>v.
       case v of
         None \<Rightarrow> Inr None
       | Some bs \<Rightarrow> rbind (map_err DecodeFailure (hard_from_json j bs)) (\<lambda>h. Inr (Some h))))"

definition current_hard_v2 ::
  "raft_json \<Rightarrow> 'db rocks \<Rightarrow> 'db raft_store \<Rightarrow> 'db raft_store \<times> (store_failure + hard_state option)" where
  "current_hard_v2 j r s =
     (case cached_hard s of
        Some h \<Rightarrow> (s, Inr (Some h))
      | None \<Rightarrow>
          (case load_hard_v2 j r (rs_engine s) of
             Inl e \<Rightarrow> (s, Inl e)
           | Inr None \<Rightarrow> (s, Inr None)
           | Inr (Some h) \<Rightarrow> (s\<lparr>cached_hard := Some h\<rparr>, Inr (Some h))))"

section \<open>Entries and staged snapshots\<close>

definition raft_log_key :: "nat \<Rightarrow> bytes" where
  "raft_log_key index = RAFT_LOG_PREFIX_V2 @ be_bytes 8 index"

definition encode_log_entry :: "log_entry \<Rightarrow> store_failure + bytes" where
  "encode_log_entry e =
     (if length (le_command e) < 2 ^ 32
      then Inr (LOG_ENTRY_MAGIC @ [LOG_ENTRY_VERSION] @ be_bytes 8 (le_term e) @ be_bytes 8 (le_index e) @
             be_bytes 4 (length (le_command e)) @ le_command e)
      else Inl (CommandTooLong (le_index e)))"

definition byte_slice :: "nat \<Rightarrow> nat \<Rightarrow> bytes \<Rightarrow> bytes" where
  "byte_slice a b bs = take (b - a) (drop a bs)"

definition decode_log_entry :: "nat \<Rightarrow> bytes \<Rightarrow> store_failure + log_entry" where
  "decode_log_entry expected_index bs =
     (if length bs < LOG_ENTRY_HEADER_BYTES then Inl (TruncatedEntry expected_index (length bs))
      else if byte_slice 0 4 bs \<noteq> LOG_ENTRY_MAGIC then Inl (BadEntryMagic expected_index)
      else if bs ! 4 \<noteq> LOG_ENTRY_VERSION then Inl (BadEntryVersion expected_index (bs ! 4))
      else
        let term' = be_value (byte_slice 5 13 bs); index = be_value (byte_slice 13 21 bs);
            command_len = be_value (byte_slice 21 25 bs)
        in if index \<noteq> expected_index then Inl (EntryIndexMismatch expected_index index)
           else if length bs \<noteq> LOG_ENTRY_HEADER_BYTES + command_len
           then Inl (EntryLengthMismatch expected_index command_len (length bs))
           else Inr \<lparr>le_term = term', le_index = index, le_command = drop LOG_ENTRY_HEADER_BYTES bs\<rparr>)"

definition state_entry :: "persistent_state \<Rightarrow> nat \<Rightarrow> log_entry option" where
  "state_entry s index =
     (if index < snapshot_index s then None
      else if index - snapshot_index s < length (ps_log s)
      then Some (ps_log s ! (index - snapshot_index s)) else None)"

fun put_entries :: "persistent_state \<Rightarrow> nat list \<Rightarrow> store_failure + batch_op list" where
  "put_entries s [] = Inr []"
| "put_entries s (index # rest) =
     rbind (ok_or (state_entry s index) (StateMissingEntry index)) (\<lambda>entry.
       if index = snapshot_index s then put_entries s rest
       else
         rbind (encode_log_entry entry) (\<lambda>bs.
         rbind (put_entries s rest) (\<lambda>ops. Inr (Put CF_META (raft_log_key index) bs # ops))))"

definition put_log_range :: "persistent_state \<Rightarrow> nat \<Rightarrow> nat \<Rightarrow> store_failure + batch_op list" where
  "put_log_range s first last' =
     (if last' < first then Inr [] else put_entries s [first ..< Suc last'])"

definition delete_log_range :: "nat \<Rightarrow> nat \<Rightarrow> batch_op list" where
  "delete_log_range first last' =
     (if last' < first then [] else map (\<lambda>i. Delete CF_META (raft_log_key i)) [first ..< Suc last'])"

definition encode_staged_snapshot :: "staged_snapshot \<Rightarrow> bytes" where
  "encode_staged_snapshot g =
     STAGED_MAGIC @ [STAGED_VERSION] @ [case st_kind g of Creation \<Rightarrow> 1 | Installation \<Rightarrow> 2] @
     be_bytes 8 (st_index g) @ be_bytes 8 (st_term g) @ st_data g"

definition decode_staged_snapshot :: "bytes \<Rightarrow> store_failure + staged_snapshot" where
  "decode_staged_snapshot bs =
     (if length bs < STAGED_HEADER_BYTES then Inl (TruncatedStaged (length bs))
      else if byte_slice 0 4 bs \<noteq> STAGED_MAGIC then Inl BadStagedMagic
      else if bs ! 4 \<noteq> STAGED_VERSION then Inl (BadStagedVersion (bs ! 4))
      else if bs ! 5 \<noteq> 1 \<and> bs ! 5 \<noteq> 2 then Inl (BadStagedKind (bs ! 5))
      else Inr \<lparr>st_kind = (if bs ! 5 = 1 then Creation else Installation),
                st_index = be_value (byte_slice 6 14 bs), st_term = be_value (byte_slice 14 22 bs),
                st_data = drop STAGED_HEADER_BYTES bs\<rparr>)"

section \<open>The store\<close>

text \<open>What a save adds to the batch for the log and the snapshot, given the previous hard state.\<close>

definition save_suffix :: "persistent_state \<Rightarrow> bytes \<Rightarrow> store_failure + batch_op list" where
  "save_suffix s snapshot_data =
     rbind (put_log_range s (sat_add (snapshot_index s) 1) (last_log_index s)) (\<lambda>ops.
       Inr (ops @ [Put CF_META RAFT_SNAPSHOT_KEY snapshot_data]))"

definition save_log_ops ::
  "hard_state option \<Rightarrow> hard_state \<Rightarrow> persistent_state \<Rightarrow> bytes \<Rightarrow> store_failure + batch_op list" where
  "save_log_ops previous next s snapshot_data =
     (case previous of
        None \<Rightarrow> save_suffix s snapshot_data
      | Some old \<Rightarrow>
          if hs_snapshot_index old \<noteq> hs_snapshot_index next then
            rbind (save_suffix s snapshot_data) (\<lambda>ops.
              Inr (delete_log_range (sat_add (hs_snapshot_index old) 1) (hs_last_log_index old) @ ops))
          else
            let prefix_still_matches = (hs_last_log_index old \<le> hs_last_log_index next \<and>
                  term_at s (hs_last_log_index old) = hs_last_log_term old)
            in rbind (if prefix_still_matches
                      then put_log_range s (sat_add (hs_last_log_index old) 1) (hs_last_log_index next)
                      else rbind (put_log_range s (sat_add (snapshot_index s) 1) (hs_last_log_index next))
                        (\<lambda>ops. Inr (delete_log_range (sat_add (snapshot_index s) 1) (hs_last_log_index old) @ ops)))
                 (\<lambda>ops. Inr (ops @ (if hs_snapshot_bytes_len old \<noteq> hs_snapshot_bytes_len next
                                     then [Put CF_META RAFT_SNAPSHOT_KEY snapshot_data] else []))))"

definition engine_write :: "'db rocks \<Rightarrow> batch_op list \<Rightarrow> 'db \<Rightarrow> store_failure + 'db" where
  "engine_write r batch d =
     map_err (\<lambda>e. case e of Rocks m \<Rightarrow> RocksFailure m | Serde m \<Rightarrow> RocksFailure m) (write_batch r batch d)"

definition save_batch :: "raft_json \<Rightarrow> hard_state option \<Rightarrow> persistent_state \<Rightarrow> bytes \<Rightarrow> store_failure + batch_op list" where
  "save_batch j previous st snapshot_data =
     (let next = hard_from_state st snapshot_data in
      rbind (map_err SerializeFailure (hard_to_json j next)) (\<lambda>encoded_hard.
      rbind (save_log_ops previous next st snapshot_data) (\<lambda>ops.
        Inr ([Put CF_META RAFT_HARD_STATE_KEY_V2 encoded_hard, Delete CF_META RAFT_STATE_KEY_V1,
              Delete CF_META RAFT_STAGED_SNAPSHOT_KEY] @ ops))))"

definition raft_save ::
  "raft_json \<Rightarrow> 'db rocks \<Rightarrow> persistent_state \<Rightarrow> bytes \<Rightarrow> 'db raft_store \<Rightarrow>
   'db raft_store \<times> (store_failure + unit)" where
  "raft_save j r st snapshot_data s =
     (case meta_cf r (rs_engine s) of
        Inl e \<Rightarrow> (s, Inl e)
      | Inr _ \<Rightarrow>
          (case current_hard_v2 j r s of
             (s1, Inl e) \<Rightarrow> (s1, Inl e)
           | (s1, Inr previous) \<Rightarrow>
               (case rbind (save_batch j previous st snapshot_data)
                       (\<lambda>batch. engine_write r batch (rs_engine s1)) of
                  Inl e \<Rightarrow> (s1, Inl e)
                | Inr d \<Rightarrow> (\<lparr>rs_engine = d, cached_hard = Some (hard_from_state st snapshot_data)\<rparr>, Inr ()))))"

definition raft_stage ::
  "'db rocks \<Rightarrow> staged_snapshot \<Rightarrow> 'db raft_store \<Rightarrow> 'db raft_store \<times> (store_failure + unit)" where
  "raft_stage r g s =
     (case rbind (meta_cf r (rs_engine s)) (\<lambda>_.
            engine_write r [Put CF_META RAFT_STAGED_SNAPSHOT_KEY (encode_staged_snapshot g)] (rs_engine s)) of
        Inl e \<Rightarrow> (s, Inl e)
      | Inr d \<Rightarrow> (s\<lparr>rs_engine := d\<rparr>, Inr ()))"

definition raft_clear_staged :: "'db rocks \<Rightarrow> 'db raft_store \<Rightarrow> 'db raft_store \<times> (store_failure + unit)" where
  "raft_clear_staged r s =
     (case rbind (meta_cf r (rs_engine s)) (\<lambda>_.
            engine_write r [Delete CF_META RAFT_STAGED_SNAPSHOT_KEY] (rs_engine s)) of
        Inl e \<Rightarrow> (s, Inl e)
      | Inr d \<Rightarrow> (s\<lparr>rs_engine := d\<rparr>, Inr ()))"

definition raft_load_staged :: "'db rocks \<Rightarrow> 'db raft_store \<Rightarrow> store_failure + staged_snapshot option" where
  "raft_load_staged r s =
     rbind (meta_cf r (rs_engine s)) (\<lambda>_.
     rbind (map_err RocksFailure (rk_get r CF_META RAFT_STAGED_SNAPSHOT_KEY (rs_engine s))) (\<lambda>v.
       case v of
         None \<Rightarrow> Inr None
       | Some bs \<Rightarrow> rbind (decode_staged_snapshot bs) (\<lambda>g. Inr (Some g))))"

fun load_entries :: "'db rocks \<Rightarrow> 'db \<Rightarrow> nat list \<Rightarrow> store_failure + log_entry list" where
  "load_entries r d [] = Inr []"
| "load_entries r d (index # rest) =
     rbind (map_err RocksFailure (rk_get r CF_META (raft_log_key index) d)) (\<lambda>v.
     rbind (ok_or v (MissingEntry index)) (\<lambda>bs.
     rbind (decode_log_entry index bs) (\<lambda>e.
     rbind (load_entries r d rest) (\<lambda>es. Inr (e # es)))))"

definition load_v2 ::
  "'db rocks \<Rightarrow> hard_state \<Rightarrow> 'db \<Rightarrow> store_failure + persistent_state \<times> bytes" where
  "load_v2 r hard d =
     (if hs_last_log_index hard < hs_snapshot_index hard
      then Inl (EndPrecedesBoundary (hs_last_log_index hard) (hs_snapshot_index hard))
      else
        rbind (load_entries r d [sat_add (hs_snapshot_index hard) 1 ..< Suc (hs_last_log_index hard)]) (\<lambda>es.
        let state = \<lparr>current_term = hs_current_term hard, voted_for = hs_voted_for hard,
              ps_log = \<lparr>le_term = hs_snapshot_term hard, le_index = hs_snapshot_index hard, le_command = []\<rparr> # es,
              snapshot_index = hs_snapshot_index hard, snapshot_term = hs_snapshot_term hard,
              membership = hs_membership hard\<rparr>
        in if last_log_term state \<noteq> hs_last_log_term hard
           then Inl (TermMismatch (hs_last_log_index hard) (hs_last_log_term hard) (last_log_term state))
           else
             rbind (map_err RocksFailure (rk_get r CF_META RAFT_SNAPSHOT_KEY d)) (\<lambda>v.
             let snapshot = (case v of None \<Rightarrow> [] | Some bs \<Rightarrow> bs) in
             if length snapshot \<noteq> hs_snapshot_bytes_len hard
             then Inl (SnapshotLengthMismatch (hs_snapshot_bytes_len hard) (length snapshot))
             else Inr (state, snapshot))))"

definition load_v1 ::
  "raft_json \<Rightarrow> 'db rocks \<Rightarrow> 'db \<Rightarrow> store_failure + (persistent_state \<times> bytes) option" where
  "load_v1 j r d =
     rbind (map_err RocksFailure (rk_get r CF_META RAFT_STATE_KEY_V1 d)) (\<lambda>state_bytes.
     rbind (map_err RocksFailure (rk_get r CF_META RAFT_SNAPSHOT_KEY d)) (\<lambda>snapshot_bytes.
       case state_bytes of
         None \<Rightarrow> if snapshot_bytes \<noteq> None then Inl SnapshotWithoutState else Inr None
       | Some bs \<Rightarrow>
           rbind (map_err DecodeFailure (state_from_json j bs)) (\<lambda>st.
             Inr (Some (st, case snapshot_bytes of None \<Rightarrow> [] | Some b \<Rightarrow> b)))))"

definition raft_load ::
  "raft_json \<Rightarrow> 'db rocks \<Rightarrow> 'db raft_store \<Rightarrow>
   'db raft_store \<times> (store_failure + (persistent_state \<times> bytes) option)" where
  "raft_load j r s =
     (case rbind (meta_cf r (rs_engine s)) (\<lambda>_. load_hard_v2 j r (rs_engine s)) of
        Inl e \<Rightarrow> (s, Inl e)
      | Inr None \<Rightarrow> (s, load_v1 j r (rs_engine s))
      | Inr (Some hard) \<Rightarrow>
          (case load_v2 r hard (rs_engine s) of
             Inl e \<Rightarrow> (s, Inl e)
           | Inr res \<Rightarrow> (s\<lparr>cached_hard := Some hard\<rparr>, Inr (Some res))))"

text \<open>The fail-closed adapter: every error of the store below is a panic, here \<open>None\<close>. A node makes
  its calls through it; \<open>Reopen\<close> is a restart, which builds the store anew on the same database.\<close>

definition fail_closed :: "'s \<times> ('e + 'a) \<Rightarrow> ('s \<times> 'a) option" where
  "fail_closed p = (case p of (s, Inr x) \<Rightarrow> Some (s, x) | (s, Inl _) \<Rightarrow> None)"

datatype store_call =
    CallSave persistent_state bytes
  | CallStage staged_snapshot
  | CallLoadStaged
  | CallClearStaged
  | CallLoad
  | Reopen

datatype store_answer =
    Done
  | StagedIs "staged_snapshot option"
  | StateIs "(persistent_state \<times> bytes) option"

fun rocks_call ::
  "raft_json \<Rightarrow> 'db rocks \<Rightarrow> store_call \<Rightarrow> 'db raft_store \<Rightarrow> 'db raft_store \<times> (store_failure + store_answer)" where
  "rocks_call j r (CallSave st snapshot_data) s = apsnd (map_sum id (\<lambda>_. Done)) (raft_save j r st snapshot_data s)"
| "rocks_call j r (CallStage g) s = apsnd (map_sum id (\<lambda>_. Done)) (raft_stage r g s)"
| "rocks_call j r CallLoadStaged s = (s, map_sum id StagedIs (raft_load_staged r s))"
| "rocks_call j r CallClearStaged s = apsnd (map_sum id (\<lambda>_. Done)) (raft_clear_staged r s)"
| "rocks_call j r CallLoad s = apsnd (map_sum id StateIs) (raft_load j r s)"
| "rocks_call j r Reopen s = (raft_store_new (rs_engine s), Inr Done)"

fun closed_calls ::
  "raft_json \<Rightarrow> 'db rocks \<Rightarrow> store_call list \<Rightarrow> 'db raft_store \<Rightarrow> ('db raft_store \<times> store_answer list) option" where
  "closed_calls j r [] s = Some (s, [])"
| "closed_calls j r (c # cs) s =
     (case fail_closed (rocks_call j r c s) of
        None \<Rightarrow> None
      | Some (s1, a) \<Rightarrow> map_option (apsnd (Cons a)) (closed_calls j r cs s1))"

fun mem_call :: "store_call \<Rightarrow> mem_store \<Rightarrow> mem_store \<times> store_answer" where
  "mem_call (CallSave st snapshot_data) m = (projr (mem_save st snapshot_data m), Done)"
| "mem_call (CallStage g) m = (projr (mem_stage_snapshot g m), Done)"
| "mem_call CallLoadStaged m = (m, StagedIs (projr (mem_load_staged_snapshot m)))"
| "mem_call CallClearStaged m = (projr (mem_clear_staged_snapshot m), Done)"
| "mem_call CallLoad m = (m, StateIs (projr (mem_load m)))"
| "mem_call Reopen m = (m, Done)"

fun mem_calls :: "store_call list \<Rightarrow> mem_store \<Rightarrow> mem_store \<times> store_answer list" where
  "mem_calls [] m = (m, [])"
| "mem_calls (c # cs) m = (case mem_call c m of (m1, a) \<Rightarrow> apsnd (Cons a) (mem_calls cs m1))"

section \<open>Codecs\<close>

lemmas raft_key_defs = RAFT_STATE_KEY_V1_def RAFT_HARD_STATE_KEY_V2_def RAFT_LOG_PREFIX_V2_def
  RAFT_SNAPSHOT_KEY_def RAFT_STAGED_SNAPSHOT_KEY_def

lemma raft_keys_distinct [simp]:
  "RAFT_STATE_KEY_V1 \<noteq> RAFT_HARD_STATE_KEY_V2" "RAFT_HARD_STATE_KEY_V2 \<noteq> RAFT_STATE_KEY_V1"
  "RAFT_SNAPSHOT_KEY \<noteq> RAFT_HARD_STATE_KEY_V2" "RAFT_HARD_STATE_KEY_V2 \<noteq> RAFT_SNAPSHOT_KEY"
  "RAFT_STAGED_SNAPSHOT_KEY \<noteq> RAFT_HARD_STATE_KEY_V2" "RAFT_HARD_STATE_KEY_V2 \<noteq> RAFT_STAGED_SNAPSHOT_KEY"
  "RAFT_STATE_KEY_V1 \<noteq> RAFT_SNAPSHOT_KEY" "RAFT_SNAPSHOT_KEY \<noteq> RAFT_STATE_KEY_V1"
  "RAFT_STATE_KEY_V1 \<noteq> RAFT_STAGED_SNAPSHOT_KEY" "RAFT_STAGED_SNAPSHOT_KEY \<noteq> RAFT_STATE_KEY_V1"
  "RAFT_SNAPSHOT_KEY \<noteq> RAFT_STAGED_SNAPSHOT_KEY" "RAFT_STAGED_SNAPSHOT_KEY \<noteq> RAFT_SNAPSHOT_KEY"
  by (simp_all add: raft_key_defs str_bytes_def)

lemma raft_log_key_other [simp]:
  "raft_log_key i \<noteq> RAFT_STATE_KEY_V1" "raft_log_key i \<noteq> RAFT_HARD_STATE_KEY_V2"
  "raft_log_key i \<noteq> RAFT_SNAPSHOT_KEY" "raft_log_key i \<noteq> RAFT_STAGED_SNAPSHOT_KEY"
  "RAFT_STATE_KEY_V1 \<noteq> raft_log_key i" "RAFT_HARD_STATE_KEY_V2 \<noteq> raft_log_key i"
  "RAFT_SNAPSHOT_KEY \<noteq> raft_log_key i" "RAFT_STAGED_SNAPSHOT_KEY \<noteq> raft_log_key i"
  by (simp_all add: raft_log_key_def raft_key_defs str_bytes_def)

lemma raft_log_key_eq_iff: "a < 2 ^ 64 \<Longrightarrow> b < 2 ^ 64 \<Longrightarrow> raft_log_key a = raft_log_key b \<longleftrightarrow> a = b"
  by (simp add: raft_log_key_def be_bytes_eq_iff)

lemma byte_slice_append: "length xs = a \<Longrightarrow> length ys = b - a \<Longrightarrow> byte_slice a b (xs @ ys @ zs) = ys"
  by (simp add: byte_slice_def)

lemma byte_slice_join: "a \<le> b \<Longrightarrow> byte_slice a b bs @ drop b bs = drop a bs"
  by (simp add: byte_slice_def) (metis append_take_drop_id drop_drop le_add_diff_inverse2)

lemma length_byte_slice: "b \<le> length bs \<Longrightarrow> length (byte_slice a b bs) = b - a"
  by (simp add: byte_slice_def)

text \<open>An entry is accepted exactly when it is the encoding of the entry returned.\<close>

definition u64_entry :: "log_entry \<Rightarrow> bool" where
  "u64_entry e \<longleftrightarrow> le_term e < 2 ^ 64 \<and> le_index e < 2 ^ 64"

lemma decode_encode_log_entry:
  assumes "encode_log_entry e = Inr bs" "u64_entry e"
  shows "decode_log_entry (le_index e) bs = Inr e"
proof -
  have len: "length (le_command e) < 2 ^ 32" and
    bs: "bs = LOG_ENTRY_MAGIC @ [LOG_ENTRY_VERSION] @ be_bytes 8 (le_term e) @ be_bytes 8 (le_index e) @
      be_bytes 4 (length (le_command e)) @ le_command e"
    using assms(1) by (auto simp: encode_log_entry_def split: if_splits)
  have magic: "length LOG_ENTRY_MAGIC = 4" by (simp add: LOG_ENTRY_MAGIC_def)
  have "byte_slice 0 4 bs = LOG_ENTRY_MAGIC" using magic by (simp add: bs byte_slice_def)
  moreover have "bs ! 4 = LOG_ENTRY_VERSION" using magic by (simp add: bs nth_append)
  moreover have "byte_slice 5 13 bs = be_bytes 8 (le_term e)" "byte_slice 13 21 bs = be_bytes 8 (le_index e)"
    "byte_slice 21 25 bs = be_bytes 4 (length (le_command e))" "drop 25 bs = le_command e"
    using magic by (simp_all add: bs byte_slice_def)
  moreover have "length bs = 25 + length (le_command e)" using magic by (simp add: bs)
  ultimately show ?thesis
    using assms(2) len by (simp add: decode_log_entry_def LOG_ENTRY_HEADER_BYTES_def u64_entry_def Let_def)
qed

lemma encode_decode_log_entry:
  assumes "decode_log_entry i bs = Inr e"
  shows "encode_log_entry e = Inr bs \<and> u64_entry e \<and> le_index e = i"
proof -
  have h: "25 \<le> length bs" "byte_slice 0 4 bs = LOG_ENTRY_MAGIC" "bs ! 4 = LOG_ENTRY_VERSION"
    "be_value (byte_slice 13 21 bs) = i" "length bs = 25 + be_value (byte_slice 21 25 bs)"
    and e: "e = \<lparr>le_term = be_value (byte_slice 5 13 bs), le_index = i, le_command = drop 25 bs\<rparr>"
    using assms by (auto simp: decode_log_entry_def LOG_ENTRY_HEADER_BYTES_def Let_def split: if_splits)
  have val: "be_value (byte_slice 5 13 bs) < 2 ^ 64" "i < 2 ^ 64" "be_value (byte_slice 21 25 bs) < 2 ^ 32"
    using be_value_less [of "byte_slice 5 13 bs"] be_value_less [of "byte_slice 13 21 bs"]
      be_value_less [of "byte_slice 21 25 bs"] h(1,4) by (simp_all add: length_byte_slice)
  have be: "be_bytes 8 (be_value (byte_slice 5 13 bs)) = byte_slice 5 13 bs" "be_bytes 8 i = byte_slice 13 21 bs"
    "be_bytes 4 (length (drop 25 bs)) = byte_slice 21 25 bs"
    using h(1,4,5) be_bytes_be_value [of "byte_slice 5 13 bs"] be_bytes_be_value [of "byte_slice 13 21 bs"]
      be_bytes_be_value [of "byte_slice 21 25 bs"] by (simp_all add: length_byte_slice)
  have "bs = byte_slice 0 4 bs @ drop 4 bs" using byte_slice_join [of 0 4 bs] by simp
  also have "drop 4 bs = bs ! 4 # drop 5 bs" using h(1) Cons_nth_drop_Suc [of 4 bs] by simp
  also have "drop 5 bs = byte_slice 5 13 bs @ byte_slice 13 21 bs @ byte_slice 21 25 bs @ drop 25 bs"
    by (simp add: byte_slice_join)
  finally show ?thesis
    using h val be by (simp add: encode_log_entry_def e u64_entry_def)
qed

lemma decode_encode_staged:
  assumes "st_index g < 2 ^ 64" "st_term g < 2 ^ 64"
  shows "decode_staged_snapshot (encode_staged_snapshot g) = Inr g"
proof -
  let ?k = "(case st_kind g of Creation \<Rightarrow> 1 | Installation \<Rightarrow> 2) :: u8"
  have magic: "length STAGED_MAGIC = 4" by (simp add: STAGED_MAGIC_def)
  let ?bs = "encode_staged_snapshot g"
  have "byte_slice 0 4 ?bs = STAGED_MAGIC" "?bs ! 4 = STAGED_VERSION" "?bs ! 5 = ?k"
    "byte_slice 6 14 ?bs = be_bytes 8 (st_index g)" "byte_slice 14 22 ?bs = be_bytes 8 (st_term g)"
    "drop 22 ?bs = st_data g" "22 \<le> length ?bs"
    using magic by (simp_all add: encode_staged_snapshot_def byte_slice_def nth_append)
  moreover have "?k = 1 \<or> ?k = 2" "(if ?k = 1 then Creation else Installation) = st_kind g"
    by (cases "st_kind g"; simp)+
  ultimately show ?thesis
    using assms by (auto simp: decode_staged_snapshot_def STAGED_HEADER_BYTES_def)
qed

section \<open>What the database holds\<close>

text \<open>The states that a node saves: the log layout with an empty command at the snapshot boundary,
  and numbers that fit in 64 bits.\<close>

definition persistable :: "persistent_state \<Rightarrow> bool" where
  "persistable st \<longleftrightarrow> log_ok st \<and> le_command (hd (ps_log st)) = [] \<and> last_log_index st < u64_max \<and>
     list_all (\<lambda>e. le_term e < 2 ^ 64) (ps_log st)"

text \<open>The new state continues the old one: at an unchanged snapshot boundary, if the new log reaches
  the end of the old one with the same term there, the two agree up to that point (log matching),
  and snapshot bytes of the same length are the same bytes.\<close>

definition continues :: "persistent_state \<times> bytes \<Rightarrow> persistent_state \<Rightarrow> bytes \<Rightarrow> bool" where
  "continues old st snapshot_data \<longleftrightarrow>
     snapshot_index st = snapshot_index (fst old) \<longrightarrow>
       (last_log_index (fst old) \<le> last_log_index st \<and>
        term_at st (last_log_index (fst old)) = last_log_term (fst old) \<longrightarrow>
          list_all (\<lambda>i. entry_at st i = entry_at (fst old) i)
            [Suc (snapshot_index st) ..< Suc (last_log_index (fst old))]) \<and>
       (length snapshot_data = length (snd old) \<longrightarrow> snapshot_data = snd old)"

definition call_ok :: "store_call \<Rightarrow> mem_store \<Rightarrow> bool" where
  "call_ok c m = (case c of
       CallSave st snapshot_data \<Rightarrow> persistable st \<and>
         (case ms_active m of None \<Rightarrow> True | Some old \<Rightarrow> continues old st snapshot_data)
     | CallStage g \<Rightarrow> st_index g < 2 ^ 64 \<and> st_term g < 2 ^ 64
     | _ \<Rightarrow> True)"

fun calls_ok :: "store_call list \<Rightarrow> mem_store \<Rightarrow> bool" where
  "calls_ok [] m = True"
| "calls_ok (c # cs) m = (call_ok c m \<and> calls_ok cs (fst (mem_call c m)))"

definition holds_v2 :: "raft_json \<Rightarrow> (bytes \<Rightarrow> bytes option) \<Rightarrow> persistent_state \<Rightarrow> bytes \<Rightarrow> bool" where
  "holds_v2 j m st data \<longleftrightarrow> persistable st \<and>
     map_option (hard_from_json j) (m RAFT_HARD_STATE_KEY_V2) = Some (Inr (hard_from_state st data)) \<and>
     (\<forall>i. snapshot_index st < i \<and> i \<le> last_log_index st \<longrightarrow>
        map_option Inr (m (raft_log_key i)) = map_option encode_log_entry (entry_at st i)) \<and>
     m RAFT_SNAPSHOT_KEY = Some data"

definition holds_v1 :: "raft_json \<Rightarrow> (bytes \<Rightarrow> bytes option) \<Rightarrow> persistent_state \<Rightarrow> bytes \<Rightarrow> bool" where
  "holds_v1 j m st data \<longleftrightarrow> m RAFT_HARD_STATE_KEY_V2 = None \<and>
     map_option (state_from_json j) (m RAFT_STATE_KEY_V1) = Some (Inr st) \<and>
     data = (case m RAFT_SNAPSHOT_KEY of None \<Rightarrow> [] | Some b \<Rightarrow> b)"

definition holds_active :: "raft_json \<Rightarrow> (bytes \<Rightarrow> bytes option) \<Rightarrow> (persistent_state \<times> bytes) option \<Rightarrow> bool" where
  "holds_active j m a = (case a of
       None \<Rightarrow> m RAFT_HARD_STATE_KEY_V2 = None \<and> m RAFT_STATE_KEY_V1 = None \<and> m RAFT_SNAPSHOT_KEY = None
     | Some (st, data) \<Rightarrow> holds_v2 j m st data \<or> holds_v1 j m st data)"

definition holds_staged :: "(bytes \<Rightarrow> bytes option) \<Rightarrow> staged_snapshot option \<Rightarrow> bool" where
  "holds_staged m g \<longleftrightarrow> m RAFT_STAGED_SNAPSHOT_KEY = map_option encode_staged_snapshot g \<and>
     (case g of None \<Rightarrow> True | Some g \<Rightarrow> st_index g < 2 ^ 64 \<and> st_term g < 2 ^ 64)"

definition cache_ok :: "raft_json \<Rightarrow> (bytes \<Rightarrow> bytes option) \<Rightarrow> hard_state option \<Rightarrow> bool" where
  "cache_ok j m c = (case c of None \<Rightarrow> True
     | Some h \<Rightarrow> map_option (hard_from_json j) (m RAFT_HARD_STATE_KEY_V2) = Some (Inr h))"

definition store_sim :: "raft_json \<Rightarrow> ('db \<Rightarrow> contents) \<Rightarrow> 'db raft_store \<Rightarrow> mem_store \<Rightarrow> bool" where
  "store_sim j view s m \<longleftrightarrow> holds_active j (view (rs_engine s) CF_META) (ms_active m) \<and>
     holds_staged (view (rs_engine s) CF_META) (ms_staged m) \<and>
     cache_ok j (view (rs_engine s) CF_META) (cached_hard s)"

section \<open>The effect of a save\<close>

fun op_key :: "batch_op \<Rightarrow> bytes" where
  "op_key (Put cf k v) = k"
| "op_key (Delete cf k) = k"

lemma fold_apply_miss: "k \<notin> op_key ` set ops \<Longrightarrow> fold apply_op ops v cf k = v cf k"
proof (induction ops arbitrary: v)
  case (Cons x xs)
  then show ?case by (cases x) auto
qed simp

lemma state_entry_entry_at: "snapshot_index s < i \<Longrightarrow> ps_log s \<noteq> [] \<Longrightarrow> state_entry s i = entry_at s i"
  by (cases "ps_log s") (auto simp: state_entry_def entry_at_def last_log_index_def)

lemma put_entries_keys: "put_entries s is = Inr ops \<Longrightarrow> op_key ` set ops \<subseteq> raft_log_key ` set is"
proof (induction "is" arbitrary: ops)
  case (Cons i "is")
  from Cons.prems obtain e where e: "state_entry s i = Some e"
    by (auto simp: rbind_Inr_iff ok_or_Inr_iff)
  show ?case
  proof (cases "i = snapshot_index s")
    case True
    then have "put_entries s is = Inr ops" using Cons.prems e by (simp add: rbind_def)
    then show ?thesis using Cons.IH by auto
  next
    case False
    then obtain bs rest where "put_entries s is = Inr rest" "ops = Put CF_META (raft_log_key i) bs # rest"
      using Cons.prems e by (auto simp: rbind_def split: sum.splits)
    then show ?thesis using Cons.IH by auto
  qed
qed simp

lemma put_entries_hit:
  assumes "put_entries s is = Inr ops" "i \<in> set is" "distinct is" "ps_log s \<noteq> []"
    and "\<forall>k \<in> set is. snapshot_index s < k \<and> k < 2 ^ 64"
  shows "map_option Inr (fold apply_op ops v CF_META (raft_log_key i)) = map_option encode_log_entry (entry_at s i)"
  using assms
proof (induction "is" arbitrary: ops v)
  case (Cons k "is")
  then obtain e bs rest where e: "state_entry s k = Some e" "encode_log_entry e = Inr bs"
    and rest: "put_entries s is = Inr rest" and ops: "ops = Put CF_META (raft_log_key k) bs # rest"
    by (auto simp: result_simps split: if_splits)
  show ?case
  proof (cases "i = k")
    case True
    have "raft_log_key k \<notin> raft_log_key ` set is"
      using Cons.prems(3,5) by (auto simp: raft_log_key_eq_iff)
    then have "raft_log_key k \<notin> op_key ` set rest" using put_entries_keys [OF rest] by blast
    then show ?thesis
      using True e Cons.prems(4,5) by (simp add: ops fold_apply_miss state_entry_entry_at)
  next
    case False
    then show ?thesis using Cons.IH [OF rest] Cons.prems by (simp add: ops)
  qed
qed simp

lemma put_entries_error:
  assumes "put_entries s is = Inl err" "ps_log s \<noteq> []"
    and "\<forall>k \<in> set is. snapshot_index s < k \<and> k \<le> last_log_index s"
  shows "\<exists>n. err = CommandTooLong n"
  using assms
proof (induction "is")
  case (Cons k "is")
  have "state_entry s k \<noteq> None" using Cons.prems by (simp add: state_entry_entry_at entry_at_def)
  then show ?case
    using Cons by (auto simp: rbind_Inl_iff encode_log_entry_def split: if_splits)
qed simp

lemma put_log_range_keys: "put_log_range s a b = Inr ops \<Longrightarrow> op_key ` set ops \<subseteq> raft_log_key ` {a..b}"
  using put_entries_keys [of s "[a..<Suc b]" ops]
  by (auto simp: put_log_range_def atLeastLessThanSuc_atLeastAtMost split: if_splits simp del: upt_Suc)

lemma put_log_range_hit:
  assumes "put_log_range s a b = Inr ops" "a \<le> i" "i \<le> b" "persistable s" "snapshot_index s < a"
    "b \<le> last_log_index s"
  shows "map_option Inr (fold apply_op ops v CF_META (raft_log_key i)) = map_option encode_log_entry (entry_at s i)"
proof (rule put_entries_hit)
  show "put_entries s [a..<Suc b] = Inr ops" using assms(1-3) by (simp add: put_log_range_def del: upt_Suc)
  show "\<forall>k \<in> set [a..<Suc b]. snapshot_index s < k \<and> k < 2 ^ 64"
    using assms(4-6) by (auto simp: persistable_def u64_max_def simp del: upt_Suc)
qed (use assms in \<open>auto simp: persistable_def log_ok_def\<close>)

lemma put_log_range_error:
  assumes "put_log_range s a b = Inl err" "persistable s" "snapshot_index s < a" "b \<le> last_log_index s"
  shows "\<exists>n. err = CommandTooLong n"
proof (rule put_entries_error)
  show "put_entries s [a..<Suc b] = Inl err"
    using assms(1) by (simp add: put_log_range_def split: if_splits del: upt_Suc)
qed (use assms in \<open>auto simp: persistable_def log_ok_def simp del: upt_Suc\<close>)

lemma delete_log_range_keys: "op_key ` set (delete_log_range a b) \<subseteq> raft_log_key ` {a..b}"
  by (auto simp: delete_log_range_def simp del: upt_Suc)

lemma not_log_key: "A \<subseteq> raft_log_key ` B \<Longrightarrow> \<forall>i. k \<noteq> raft_log_key i \<Longrightarrow> k \<notin> A"
  by blast

lemma persistable_bounds:
  assumes "persistable s"
  shows "sat_add (snapshot_index s) 1 = Suc (snapshot_index s)" "snapshot_index s \<le> last_log_index s"
    "sat_add (last_log_index s) 1 = Suc (last_log_index s)"
  using assms snapshot_le_last [of s] by (auto simp: persistable_def sat_add_def)

text \<open>The suffix of a state that a batch leaves in the database, with the keys that it must not touch.\<close>

definition suffix_written :: "batch_op list \<Rightarrow> contents \<Rightarrow> persistent_state \<Rightarrow> bool" where
  "suffix_written ops v st \<longleftrightarrow> (\<forall>i. snapshot_index st < i \<and> i \<le> last_log_index st \<longrightarrow>
     map_option Inr (fold apply_op ops v CF_META (raft_log_key i)) = map_option encode_log_entry (entry_at st i))"

definition only_suffix_keys :: "batch_op list \<Rightarrow> bool" where
  "only_suffix_keys ops \<longleftrightarrow> op_key ` set ops \<subseteq> insert RAFT_SNAPSHOT_KEY (range raft_log_key)"

lemma full_put_written:
  assumes "put_log_range s (sat_add (snapshot_index s) 1) (last_log_index s) = Inr ops" "persistable s"
  shows "suffix_written (del @ ops) v s"
proof -
  have "put_log_range s (Suc (snapshot_index s)) (last_log_index s) = Inr ops"
    using assms by (simp add: persistable_bounds(1) [OF assms(2)] del: One_nat_def)
  then show ?thesis
    using put_log_range_hit [OF _ _ _ assms(2)] by (simp add: suffix_written_def Suc_le_eq)
qed

lemma save_suffix_written:
  assumes "save_suffix s data = Inr ops" "persistable s" "op_key ` set del \<subseteq> range raft_log_key"
  shows "suffix_written (del @ ops) v s" "fold apply_op (del @ ops) v CF_META RAFT_SNAPSHOT_KEY = Some data"
    "only_suffix_keys (del @ ops)"
proof -
  obtain puts where p: "put_log_range s (sat_add (snapshot_index s) 1) (last_log_index s) = Inr puts"
    and ops: "ops = puts @ [Put CF_META RAFT_SNAPSHOT_KEY data]"
    using assms(1) by (auto simp: save_suffix_def result_simps)
  show "suffix_written (del @ ops) v s"
    using full_put_written [OF p assms(2), of del v] by (simp add: suffix_written_def ops)
  show "fold apply_op (del @ ops) v CF_META RAFT_SNAPSHOT_KEY = Some data" by (simp add: ops)
  show "only_suffix_keys (del @ ops)"
    using put_log_range_keys [OF p] assms(3) by (auto simp: only_suffix_keys_def ops)
qed

lemma hard_from_state_simps [simp]:
  "hs_snapshot_index (hard_from_state st data) = snapshot_index st"
  "hs_last_log_index (hard_from_state st data) = last_log_index st"
  "hs_last_log_term (hard_from_state st data) = last_log_term st"
  "hs_snapshot_bytes_len (hard_from_state st data) = length data"
  by (simp_all add: hard_from_state_def)

text \<open>The write at an unchanged boundary: the entries above the old end, or the whole suffix.\<close>

definition rewrite_ops :: "persistent_state \<Rightarrow> persistent_state \<Rightarrow> store_failure + batch_op list" where
  "rewrite_ops old st =
     (if last_log_index old \<le> last_log_index st \<and> term_at st (last_log_index old) = last_log_term old
      then put_log_range st (sat_add (last_log_index old) 1) (last_log_index st)
      else rbind (put_log_range st (sat_add (snapshot_index st) 1) (last_log_index st))
        (\<lambda>ops. Inr (delete_log_range (sat_add (snapshot_index st) 1) (last_log_index old) @ ops)))"

lemma save_log_ops_same:
  "snapshot_index old = snapshot_index st \<Longrightarrow>
   save_log_ops (Some (hard_from_state old d)) (hard_from_state st data) st data =
     rbind (rewrite_ops old st) (\<lambda>ops.
       Inr (ops @ (if length d \<noteq> length data then [Put CF_META RAFT_SNAPSHOT_KEY data] else [])))"
  by (simp add: save_log_ops_def rewrite_ops_def)

lemma rewrite_keys:
  assumes "rewrite_ops old st = Inr ops"
  shows "op_key ` set ops \<subseteq> range raft_log_key"
proof -
  have range: "op_key ` set puts \<subseteq> range raft_log_key" if "put_log_range st a b = Inr puts" for puts a b
    using put_log_range_keys [OF that] by blast
  obtain puts del a b where "put_log_range st a b = Inr puts" "ops = del @ puts"
    "op_key ` set del \<subseteq> range raft_log_key"
  proof (cases "last_log_index old \<le> last_log_index st \<and> term_at st (last_log_index old) = last_log_term old")
    case True
    then show ?thesis using assms by (intro that [of _ _ ops "[]"]) (simp_all add: rewrite_ops_def)
  next
    case False
    have "op_key ` set (delete_log_range (sat_add (snapshot_index st) 1) (last_log_index old)) \<subseteq> range raft_log_key"
      using delete_log_range_keys by blast
    with False show ?thesis using assms by (auto simp: rewrite_ops_def rbind_Inr_iff intro: that)
  qed
  with range show ?thesis by (auto simp: image_Un)
qed

lemma rewrite_written:
  assumes "rewrite_ops old st = Inr ops" "persistable st" "persistable old"
    and "snapshot_index st = snapshot_index old" "continues (old, d) st data" "suffix_written [] v old"
  shows "suffix_written ops v st"
proof (cases "last_log_index old \<le> last_log_index st \<and> term_at st (last_log_index old) = last_log_term old")
  case True
  then have agree: "entry_at st i = entry_at old i" if "snapshot_index st < i" "i \<le> last_log_index old" for i
    using that assms(4,5) by (auto simp: continues_def list_all_iff simp del: upt_Suc)
  have ops: "put_log_range st (Suc (last_log_index old)) (last_log_index st) = Inr ops"
    using assms(1) True persistable_bounds(3) [OF assms(3)] by (simp add: rewrite_ops_def)
  have snap: "snapshot_index st \<le> last_log_index old"
    using persistable_bounds(2) [OF assms(3)] assms(4) by simp
  have "map_option Inr (fold apply_op ops v CF_META (raft_log_key i)) = map_option encode_log_entry (entry_at st i)"
    if i: "snapshot_index st < i" "i \<le> last_log_index st" for i
  proof (cases "i \<le> last_log_index old")
    case True
    have "raft_log_key i \<notin> raft_log_key ` {Suc (last_log_index old)..last_log_index st}"
      using i True assms(2) by (auto simp: raft_log_key_eq_iff persistable_def u64_max_def)
    then have "raft_log_key i \<notin> op_key ` set ops" using put_log_range_keys [OF ops] by blast
    then show ?thesis
      using assms(4,6) i True agree by (simp add: fold_apply_miss suffix_written_def)
  next
    case False
    then show ?thesis using put_log_range_hit [OF ops _ _ assms(2)] i snap by simp
  qed
  then show ?thesis by (simp add: suffix_written_def)
next
  case False
  then show ?thesis
    using assms(1,2) full_put_written by (auto simp: rewrite_ops_def rbind_Inr_iff split: if_splits)
qed

definition previous_ok ::
  "hard_state option \<Rightarrow> contents \<Rightarrow> persistent_state \<Rightarrow> bytes \<Rightarrow> bool" where
  "previous_ok previous v st data = (case previous of None \<Rightarrow> True
     | Some h \<Rightarrow> (\<exists>old d. h = hard_from_state old d \<and> persistable old \<and> suffix_written [] v old \<and>
         v CF_META RAFT_SNAPSHOT_KEY = Some d \<and> continues (old, d) st data))"

lemma save_log_ops_effect:
  assumes ops: "save_log_ops previous (hard_from_state st data) st data = Inr ops"
    and st: "persistable st" and prev: "previous_ok previous v st data"
  shows "suffix_written ops v st \<and> fold apply_op ops v CF_META RAFT_SNAPSHOT_KEY = Some data \<and>
    only_suffix_keys ops"
proof (cases previous)
  case None
  then show ?thesis
    using save_suffix_written [OF _ st, of data ops "[]"] ops by (simp add: save_log_ops_def)
next
  case (Some h)
  then obtain old d where h: "h = hard_from_state old d" and old: "persistable old"
    "suffix_written [] v old" "v CF_META RAFT_SNAPSHOT_KEY = Some d" "continues (old, d) st data"
    using prev by (auto simp: previous_ok_def)
  show ?thesis
  proof (cases "snapshot_index old = snapshot_index st")
    case True
    then obtain rw where rw: "rewrite_ops old st = Inr rw"
      and ops: "ops = rw @ (if length d \<noteq> length data then [Put CF_META RAFT_SNAPSHOT_KEY data] else [])"
      using ops by (auto simp: Some h save_log_ops_same rbind_Inr_iff)
    have "suffix_written rw v st" using rw st old True by (auto intro: rewrite_written)
    moreover have keys: "op_key ` set rw \<subseteq> range raft_log_key" using rw by (rule rewrite_keys)
    then have "RAFT_SNAPSHOT_KEY \<notin> op_key ` set rw" by (rule not_log_key) simp
    moreover have "length data = length d \<Longrightarrow> data = d" using old(4) True by (simp add: continues_def)
    ultimately show ?thesis
      using keys old(3) by (auto simp: ops suffix_written_def only_suffix_keys_def fold_apply_miss)
  next
    case False
    then obtain sfx where sfx: "save_suffix st data = Inr sfx" and
      ops: "ops = delete_log_range (sat_add (snapshot_index old) 1) (last_log_index old) @ sfx"
      using ops by (auto simp: Some h save_log_ops_def rbind_Inr_iff)
    have "op_key ` set (delete_log_range (sat_add (snapshot_index old) 1) (last_log_index old)) \<subseteq> range raft_log_key"
      using delete_log_range_keys by blast
    then show ?thesis using save_suffix_written [OF sfx st] by (simp add: ops)
  qed
qed

lemma full_put_error:
  assumes "put_log_range s (sat_add (snapshot_index s) 1) (last_log_index s) = Inl err" "persistable s"
  shows "\<exists>n. err = CommandTooLong n"
  using put_log_range_error [OF assms] persistable_bounds(1) [OF assms(2)] by simp

lemma save_log_ops_error:
  assumes err: "save_log_ops previous (hard_from_state st data) st data = Inl err"
    and st: "persistable st" and prev: "previous_ok previous v st data"
  shows "\<exists>n. err = CommandTooLong n"
proof -
  have suffix: "\<exists>n. err = CommandTooLong n" if "save_suffix st data = Inl err"
    using that full_put_error [OF _ st] by (auto simp: save_suffix_def rbind_Inl_iff)
  show ?thesis
  proof (cases previous)
    case None
    then show ?thesis using suffix err by (simp add: save_log_ops_def)
  next
    case (Some h)
    then obtain old d where h: "h = hard_from_state old d" "persistable old"
      using prev by (auto simp: previous_ok_def)
    show ?thesis
    proof (cases "snapshot_index old = snapshot_index st")
      case True
      then have "rewrite_ops old st = Inl err" using err by (auto simp: Some h(1) save_log_ops_same rbind_Inl_iff)
      then show ?thesis
        using full_put_error [OF _ st] put_log_range_error [OF _ st] persistable_bounds(2,3) [OF h(2)] True
        by (auto simp: rewrite_ops_def rbind_Inl_iff split: if_splits)
    next
      case False
      then show ?thesis using suffix err by (auto simp: Some h(1) save_log_ops_def rbind_Inl_iff)
    qed
  qed
qed

section \<open>The store against the in-memory store\<close>

text \<open>The failures that come from the environment: RocksDB, the serializer of the hard state, or a
  command that does not fit the length field. The others report a database that does not decode.\<close>

fun env_failure :: "store_failure \<Rightarrow> bool" where
  "env_failure CfUnavailable = True"
| "env_failure (RocksFailure _) = True"
| "env_failure (SerializeFailure _) = True"
| "env_failure (CommandTooLong _) = True"
| "env_failure _ = False"

lemma entry_u64: "persistable st \<Longrightarrow> entry_at st i = Some e \<Longrightarrow> u64_entry e \<and> le_index e = i"
proof -
  assume st: "persistable st" and e: "entry_at st i = Some e"
  then have ok: "log_ok st" and i: "snapshot_index st < i" "i \<le> last_log_index st"
    and nth: "e = ps_log st ! (i - snapshot_index st)"
    by (auto simp: persistable_def entry_at_def split: if_splits)
  have "e \<in> set (ps_log st)" using i length_log [OF ok] by (simp add: nth)
  then show ?thesis
    using st i entry_at_index [OF ok e] by (auto simp: persistable_def u64_entry_def list_all_iff u64_max_def)
qed

lemma log_from_entries:
  assumes "persistable st" "map Some es = map (entry_at st) [Suc (snapshot_index st)..<Suc (last_log_index st)]"
  shows "\<lparr>le_term = snapshot_term st, le_index = snapshot_index st, le_command = []\<rparr> # es = ps_log st"
proof -
  have ok: "log_ok st" using assms(1) by (simp add: persistable_def)
  obtain x xs where log: "ps_log st = x # xs" using log_ok_nonempty [OF ok] by (cases "ps_log st") auto
  have len: "length es = length xs"
    using arg_cong [OF assms(2), of length] length_log [OF ok] snapshot_le_last [OF ok] log
    by (simp del: upt_Suc)
  have "es ! k = xs ! k" if "k < length es" for k
  proof -
    have "Some (es ! k) = entry_at st (Suc (snapshot_index st) + k)"
      using arg_cong [OF assms(2), of "\<lambda>l. l ! k"] that len length_log [OF ok] snapshot_le_last [OF ok] log
      by (simp del: upt_Suc)
    then show ?thesis using log by (auto simp: entry_at_def split: if_splits)
  qed
  then have "es = xs" using len by (intro nth_equalityI) auto
  moreover have "x = \<lparr>le_term = snapshot_term st, le_index = snapshot_index st, le_command = []\<rparr>"
    using assms(1) ok log by (auto simp: persistable_def log_ok_def intro!: log_entry.equality)
  ultimately show ?thesis using log by simp
qed

locale stable_store = rocks_store r view
  for r :: "'db rocks" and view :: "'db \<Rightarrow> contents" +
  fixes j :: raft_json
  assumes hard_json: "hard_to_json j h = Inr b \<Longrightarrow> hard_from_json j b = Inr h"
begin

lemma load_entries_held:
  assumes "\<forall>i \<in> set is. \<exists>e bs. entry_at st i = Some e \<and> u64_entry e \<and> le_index e = i \<and>
    encode_log_entry e = Inr bs \<and> view d CF_META (raft_log_key i) = Some bs"
  shows "case load_entries r d is of Inl err \<Rightarrow> env_failure err | Inr es \<Rightarrow> map Some es = map (entry_at st) is"
  using assms
proof (induction "is")
  case (Cons i "is")
  then obtain e bs where e: "entry_at st i = Some e" "u64_entry e" "le_index e = i"
    "encode_log_entry e = Inr bs" "view d CF_META (raft_log_key i) = Some bs" by auto
  show ?case
  proof (cases "rk_get r CF_META (raft_log_key i) d")
    case (Inr v)
    then have "v = Some bs" using get_view e(5) by fastforce
    moreover have "decode_log_entry i bs = Inr e" using decode_encode_log_entry [OF e(4,2)] e(3) by simp
    ultimately show ?thesis
      using Inr Cons e(1) by (cases "load_entries r d is") (auto simp: rbind_def)
  qed (simp add: rbind_def)
qed simp

lemma load_v2_held:
  assumes "holds_v2 j (view d CF_META) st data"
  shows "case load_v2 r (hard_from_state st data) d of Inl err \<Rightarrow> env_failure err | Inr res \<Rightarrow> res = (st, data)"
proof -
  let ?is = "[Suc (snapshot_index st)..<Suc (last_log_index st)]"
  have st: "persistable st" and snap: "view d CF_META RAFT_SNAPSHOT_KEY = Some data"
    using assms by (auto simp: holds_v2_def)
  have "\<forall>i \<in> set ?is. \<exists>e bs. entry_at st i = Some e \<and> u64_entry e \<and> le_index e = i \<and>
    encode_log_entry e = Inr bs \<and> view d CF_META (raft_log_key i) = Some bs"
  proof
    fix i assume "i \<in> set ?is"
    then have i: "snapshot_index st < i" "i \<le> last_log_index st" by auto
    then obtain e where e: "entry_at st i = Some e" by (auto simp: entry_at_def)
    moreover have "map_option Inr (view d CF_META (raft_log_key i)) = Some (encode_log_entry e)"
      using assms i e by (simp add: holds_v2_def)
    then obtain bs where "view d CF_META (raft_log_key i) = Some bs" "encode_log_entry e = Inr bs" by auto
    ultimately show "\<exists>e bs. entry_at st i = Some e \<and> u64_entry e \<and> le_index e = i \<and>
        encode_log_entry e = Inr bs \<and> view d CF_META (raft_log_key i) = Some bs"
      using entry_u64 [OF st e] by blast
  qed
  note held = load_entries_held [OF this]
  have hard: "hs_current_term (hard_from_state st data) = current_term st"
    "hs_voted_for (hard_from_state st data) = voted_for st" "hs_membership (hard_from_state st data) = membership st"
    "hs_snapshot_term (hard_from_state st data) = snapshot_term st"
    by (simp_all add: hard_from_state_def)
  show ?thesis
  proof (cases "load_entries r d ?is")
    case (Inl err)
    then show ?thesis
      using held persistable_bounds(1,2) [OF st] by (simp add: load_v2_def rbind_def Let_def del: upt_Suc)
  next
    case (Inr es)
    have log: "\<lparr>le_term = snapshot_term st, le_index = snapshot_index st, le_command = []\<rparr> # es = ps_log st"
      using held Inr by (intro log_from_entries [OF st]) simp
    have state: "\<lparr>current_term = current_term st, voted_for = voted_for st, ps_log = ps_log st,
        snapshot_index = snapshot_index st, snapshot_term = snapshot_term st, membership = membership st\<rparr> = st"
      by simp
    note v2 = load_v2_def rbind_def Let_def hard log state Inr persistable_bounds(1) [OF st, unfolded One_nat_def]
    show ?thesis
    proof (cases "rk_get r CF_META RAFT_SNAPSHOT_KEY d")
      case (Inr v)
      then have "v = Some data" using get_view snap by metis
      then show ?thesis using Inr persistable_bounds(2) [OF st] by (simp add: v2 del: upt_Suc)
    qed (use persistable_bounds(2) [OF st] in \<open>simp add: v2 del: upt_Suc\<close>)
  qed
qed

lemma load_hard_cases:
  assumes "load_hard_v2 j r d = Inr h"
  shows "map_option (hard_from_json j) (view d CF_META RAFT_HARD_STATE_KEY_V2) = map_option Inr h"
proof -
  obtain v where v: "rk_get r CF_META RAFT_HARD_STATE_KEY_V2 d = Inr v"
    using assms by (auto simp: load_hard_v2_def rbind_Inr_iff map_err_Inr_iff)
  then have "v = view d CF_META RAFT_HARD_STATE_KEY_V2" by (rule get_view)
  then show ?thesis
    using assms v by (auto simp: load_hard_v2_def rbind_Inr_iff map_err_Inr_iff split: option.splits)
qed

lemma load_hard_error:
  assumes "load_hard_v2 j r d = Inl err"
    and "\<forall>b. view d CF_META RAFT_HARD_STATE_KEY_V2 = Some b \<longrightarrow> is_ok (hard_from_json j b)"
  shows "env_failure err"
proof (cases "rk_get r CF_META RAFT_HARD_STATE_KEY_V2 d")
  case (Inr v)
  then have "v = view d CF_META RAFT_HARD_STATE_KEY_V2" by (rule get_view)
  then show ?thesis
    using assms Inr
    by (auto simp: load_hard_v2_def rbind_def meta_cf_def require_def is_ok_iff split: if_splits option.splits)
qed (use assms(1) in \<open>auto simp: load_hard_v2_def rbind_def meta_cf_def require_def split: if_splits\<close>)

lemma hard_decodes:
  "holds_active j mt a \<Longrightarrow> mt RAFT_HARD_STATE_KEY_V2 = Some b \<Longrightarrow>
   \<exists>st data. a = Some (st, data) \<and> holds_v2 j mt st data \<and> hard_from_json j b = Inr (hard_from_state st data)"
  by (auto simp: holds_active_def holds_v2_def holds_v1_def split: option.splits)

lemma load_hard_sim:
  assumes "store_sim j view s m" "load_hard_v2 j r (rs_engine s) = Inl err"
  shows "env_failure err"
proof (rule load_hard_error [OF assms(2)], intro allI impI)
  fix b assume "view (rs_engine s) CF_META RAFT_HARD_STATE_KEY_V2 = Some b"
  moreover have "holds_active j (view (rs_engine s) CF_META) (ms_active m)"
    using assms(1) by (simp add: store_sim_def)
  ultimately show "is_ok (hard_from_json j b)" using hard_decodes is_ok_iff by metis
qed

lemma current_hard_sim:
  assumes "store_sim j view s m" "current_hard_v2 j r s = (s1, res)"
  shows "rs_engine s1 = rs_engine s" "store_sim j view s1 m"
    "case res of Inl err \<Rightarrow> env_failure err
     | Inr p \<Rightarrow> map_option (hard_from_json j) (view (rs_engine s) CF_META RAFT_HARD_STATE_KEY_V2) = map_option Inr p"
proof -
  have "rs_engine s1 = rs_engine s \<and> store_sim j view s1 m \<and> (case res of Inl err \<Rightarrow> env_failure err
     | Inr p \<Rightarrow> map_option (hard_from_json j) (view (rs_engine s) CF_META RAFT_HARD_STATE_KEY_V2) = map_option Inr p)"
  proof (cases "cached_hard s")
    case (Some h)
    then show ?thesis using assms by (auto simp: current_hard_v2_def store_sim_def cache_ok_def)
  next
    case None
    show ?thesis
    proof (cases "load_hard_v2 j r (rs_engine s)")
      case (Inl err)
      then show ?thesis using assms None load_hard_sim [OF assms(1) Inl] by (auto simp: current_hard_v2_def split: sum.splits)
    next
      case (Inr p)
      then show ?thesis
        using assms None load_hard_cases [OF Inr]
        by (cases p) (auto simp: current_hard_v2_def store_sim_def cache_ok_def split: sum.splits)
    qed
  qed
  then show "rs_engine s1 = rs_engine s" "store_sim j view s1 m"
    "case res of Inl err \<Rightarrow> env_failure err
     | Inr p \<Rightarrow> map_option (hard_from_json j) (view (rs_engine s) CF_META RAFT_HARD_STATE_KEY_V2) = map_option Inr p"
    by auto
qed

lemma previous_sim:
  assumes "store_sim j view s m" "call_ok (CallSave st data) m"
    and "map_option (hard_from_json j) (view (rs_engine s) CF_META RAFT_HARD_STATE_KEY_V2) = map_option Inr p"
  shows "previous_ok p (fold apply_op [Put CF_META RAFT_HARD_STATE_KEY_V2 bs, Delete CF_META RAFT_STATE_KEY_V1,
    Delete CF_META RAFT_STAGED_SNAPSHOT_KEY] (view (rs_engine s))) st data"
proof (cases p)
  case (Some h)
  then obtain b where b: "view (rs_engine s) CF_META RAFT_HARD_STATE_KEY_V2 = Some b" "hard_from_json j b = Inr h"
    using assms(3) by auto
  obtain old d where old: "ms_active m = Some (old, d)" "holds_v2 j (view (rs_engine s) CF_META) old d"
    "h = hard_from_state old d"
    using hard_decodes [of "view (rs_engine s) CF_META" "ms_active m" b] assms(1) b
    by (auto simp: store_sim_def)
  have "continues (old, d) st data" using assms(2) old(1) by (simp add: call_ok_def)
  with old(2,3) show ?thesis
    unfolding previous_ok_def Some option.case
    by (intro exI [of _ old] exI [of _ d]) (auto simp: holds_v2_def suffix_written_def)
qed (simp add: previous_ok_def)

lemma engine_write_cases:
  "case engine_write r ops d of Inl err \<Rightarrow> env_failure err | Inr d' \<Rightarrow> view d' = fold apply_op ops (view d)"
  using write_view [of ops d] by (cases "rk_write r ops d") (auto simp: engine_write_def write_batch_def)

lemma meta_cf_error: "meta_cf r d = Inl err \<Longrightarrow> env_failure err"
  by (auto simp: meta_cf_def require_Inl_iff)

lemma save_batch_sim:
  assumes sim: "store_sim j view s m" and ok: "call_ok (CallSave st data) m"
    and p: "map_option (hard_from_json j) (view (rs_engine s) CF_META RAFT_HARD_STATE_KEY_V2) = map_option Inr p"
    and batch: "save_batch j p st data = Inr batch" and v': "view d' = fold apply_op batch (view (rs_engine s))"
  shows "store_sim j view \<lparr>rs_engine = d', cached_hard = Some (hard_from_state st data)\<rparr> (projr (mem_save st data m))"
proof -
  obtain bs ops where bs: "hard_to_json j (hard_from_state st data) = Inr bs"
    and ops: "save_log_ops p (hard_from_state st data) st data = Inr ops"
    and b: "batch = [Put CF_META RAFT_HARD_STATE_KEY_V2 bs, Delete CF_META RAFT_STATE_KEY_V1,
      Delete CF_META RAFT_STAGED_SNAPSHOT_KEY] @ ops"
    using batch by (auto simp: save_batch_def rbind_Inr_iff map_err_Inr_iff Let_def)
  let ?v = "fold apply_op [Put CF_META RAFT_HARD_STATE_KEY_V2 bs, Delete CF_META RAFT_STATE_KEY_V1,
      Delete CF_META RAFT_STAGED_SNAPSHOT_KEY] (view (rs_engine s))"
  have st: "persistable st" using ok by (simp add: call_ok_def)
  have eff: "suffix_written ops ?v st" "fold apply_op ops ?v CF_META RAFT_SNAPSHOT_KEY = Some data"
    "only_suffix_keys ops"
    using save_log_ops_effect [OF ops st previous_sim [OF sim ok p, of bs]] by simp_all
  have v: "view d' = fold apply_op ops ?v" unfolding v' b fold_append comp_apply ..
  have miss: "view d' CF_META k = ?v CF_META k"
    if "k = RAFT_HARD_STATE_KEY_V2 \<or> k = RAFT_STATE_KEY_V1 \<or> k = RAFT_STAGED_SNAPSHOT_KEY" for k
    unfolding v using that eff(3) by (intro fold_apply_miss) (auto simp: only_suffix_keys_def)
  have hard: "view d' CF_META RAFT_HARD_STATE_KEY_V2 = Some bs" "view d' CF_META RAFT_STAGED_SNAPSHOT_KEY = None"
    by (simp_all add: miss)
  have json: "hard_from_json j bs = Inr (hard_from_state st data)" using bs by (rule hard_json)
  have "holds_v2 j (view d' CF_META) st data"
    using st hard(1) json eff(1,2) unfolding holds_v2_def suffix_written_def v [symmetric] by simp
  then show ?thesis
    using hard json by (simp add: store_sim_def holds_active_def holds_staged_def cache_ok_def mem_save_def)
qed

lemma save_batch_error:
  assumes sim: "store_sim j view s m" and ok: "call_ok (CallSave st data) m"
    and p: "map_option (hard_from_json j) (view (rs_engine s) CF_META RAFT_HARD_STATE_KEY_V2) = map_option Inr p"
    and err: "save_batch j p st data = Inl err"
  shows "env_failure err"
proof -
  have st: "persistable st" using ok by (simp add: call_ok_def)
  show ?thesis
  proof (cases "hard_to_json j (hard_from_state st data)")
    case (Inr bs)
    then have "save_log_ops p (hard_from_state st data) st data = Inl err"
      using err by (auto simp: save_batch_def rbind_Inl_iff Let_def)
    then show ?thesis using save_log_ops_error [OF _ st previous_sim [OF sim ok p, of bs]] by auto
  qed (use err in \<open>auto simp: save_batch_def rbind_def Let_def\<close>)
qed

lemma save_sim:
  assumes sim: "store_sim j view s m" and ok: "call_ok (CallSave st data) m"
    and save: "raft_save j r st data s = (s', res)"
  shows "case res of Inl err \<Rightarrow> env_failure err \<and> store_sim j view s' m
    | Inr _ \<Rightarrow> store_sim j view s' (projr (mem_save st data m))"
proof (cases "meta_cf r (rs_engine s)")
  case (Inl err)
  then show ?thesis using save sim meta_cf_error [OF Inl] by (auto simp: raft_save_def split: sum.splits)
next
  case meta: (Inr u)
  obtain s1 p where p: "current_hard_v2 j r s = (s1, p)" by (cases "current_hard_v2 j r s")
  note hard = current_hard_sim [OF sim p]
  show ?thesis
  proof (cases p)
    case (Inl err)
    then show ?thesis using save meta p hard by (auto simp: raft_save_def)
  next
    case p': (Inr prev)
    have prev: "map_option (hard_from_json j) (view (rs_engine s1) CF_META RAFT_HARD_STATE_KEY_V2) = map_option Inr prev"
      using hard(1,3) p' by simp
    show ?thesis
    proof (cases "save_batch j prev st data")
      case (Inl err)
      then show ?thesis
        using save meta p p' hard(2) save_batch_error [OF hard(2) ok prev Inl] by (auto simp: raft_save_def rbind_def)
    next
      case (Inr batch)
      show ?thesis
        using save meta p p' Inr hard(2) engine_write_cases [of batch "rs_engine s1"]
          save_batch_sim [OF hard(2) ok prev Inr]
        by (cases "engine_write r batch (rs_engine s1)") (auto simp: raft_save_def rbind_def split: sum.splits)
    qed
  qed
qed

lemma load_v1_sim:
  assumes "holds_active j (view d CF_META) a" "view d CF_META RAFT_HARD_STATE_KEY_V2 = None"
  shows "case load_v1 j r d of Inl err \<Rightarrow> env_failure err | Inr x \<Rightarrow> x = a"
proof (cases "rk_get r CF_META RAFT_STATE_KEY_V1 d")
  case v1: (Inr x)
  then have x: "x = view d CF_META RAFT_STATE_KEY_V1" by (rule get_view)
  show ?thesis
  proof (cases "rk_get r CF_META RAFT_SNAPSHOT_KEY d")
    case (Inr y)
    then have "y = view d CF_META RAFT_SNAPSHOT_KEY" by (rule get_view)
    then show ?thesis
      using assms v1 x Inr
      by (auto simp: load_v1_def rbind_def holds_active_def holds_v1_def holds_v2_def split: option.splits)
  qed (simp add: load_v1_def v1 rbind_def)
qed (simp add: load_v1_def rbind_def)

lemma load_sim:
  assumes sim: "store_sim j view s m" and load: "raft_load j r s = (s', res)"
  shows "case res of Inl err \<Rightarrow> env_failure err \<and> store_sim j view s' m
    | Inr x \<Rightarrow> store_sim j view s' m \<and> x = ms_active m"
proof -
  have act: "holds_active j (view (rs_engine s) CF_META) (ms_active m)" using sim by (simp add: store_sim_def)
  show ?thesis
  proof (cases "rbind (meta_cf r (rs_engine s)) (\<lambda>_. load_hard_v2 j r (rs_engine s))")
    case (Inl err)
    then have "env_failure err" using load_hard_sim [OF sim] meta_cf_error by (auto simp: rbind_Inl_iff)
    then show ?thesis using Inl sim load by (auto simp: raft_load_def)
  next
    case (Inr h)
    then have hard: "load_hard_v2 j r (rs_engine s) = Inr h" by (auto simp: rbind_Inr_iff)
    note dec = load_hard_cases [OF hard]
    show ?thesis
    proof (cases h)
      case None
      then show ?thesis
        using Inr load sim load_v1_sim [OF act] dec by (auto simp: raft_load_def split: sum.splits)
    next
      case (Some h')
      then obtain st data where st: "ms_active m = Some (st, data)" "h' = hard_from_state st data"
        "holds_v2 j (view (rs_engine s) CF_META) st data"
        using dec hard_decodes [OF act] by (fastforce split: option.splits)
      show ?thesis
        using Inr Some load sim st load_v2_held [OF st(3)] dec
        by (cases "load_v2 r h' (rs_engine s)") (auto simp: raft_load_def store_sim_def cache_ok_def)
    qed
  qed
qed

lemma active_other_key:
  "holds_active j mt a \<Longrightarrow> holds_active j (mt(RAFT_STAGED_SNAPSHOT_KEY := x)) a"
  by (auto simp: holds_active_def holds_v2_def holds_v1_def split: option.splits)

lemma stage_sim:
  assumes sim: "store_sim j view s m" and ok: "call_ok (CallStage g) m" and stage: "raft_stage r g s = (s', res)"
  shows "case res of Inl err \<Rightarrow> env_failure err \<and> store_sim j view s' m
    | Inr _ \<Rightarrow> store_sim j view s' (projr (mem_stage_snapshot g m))"
proof (cases "rbind (meta_cf r (rs_engine s)) (\<lambda>_.
    engine_write r [Put CF_META RAFT_STAGED_SNAPSHOT_KEY (encode_staged_snapshot g)] (rs_engine s))")
  case (Inl err)
  have "env_failure err"
    using Inl meta_cf_error engine_write_cases by (fastforce simp: rbind_Inl_iff split: sum.splits)
  then show ?thesis using Inl sim stage by (auto simp: raft_stage_def)
next
  case (Inr d)
  have v: "view d CF_META = (view (rs_engine s) CF_META)(RAFT_STAGED_SNAPSHOT_KEY \<mapsto> encode_staged_snapshot g)"
    using Inr engine_write_cases [of "[Put CF_META RAFT_STAGED_SNAPSHOT_KEY (encode_staged_snapshot g)]" "rs_engine s"]
    by (auto simp: rbind_Inr_iff)
  show ?thesis
    using Inr sim stage ok active_other_key
    by (auto simp: raft_stage_def store_sim_def v holds_staged_def call_ok_def cache_ok_def mem_stage_snapshot_def
        split: option.splits)
qed

lemma clear_sim:
  assumes sim: "store_sim j view s m" and clear: "raft_clear_staged r s = (s', res)"
  shows "case res of Inl err \<Rightarrow> env_failure err \<and> store_sim j view s' m
    | Inr _ \<Rightarrow> store_sim j view s' (projr (mem_clear_staged_snapshot m))"
proof (cases "rbind (meta_cf r (rs_engine s)) (\<lambda>_.
    engine_write r [Delete CF_META RAFT_STAGED_SNAPSHOT_KEY] (rs_engine s))")
  case (Inl err)
  have "env_failure err"
    using Inl meta_cf_error engine_write_cases by (fastforce simp: rbind_Inl_iff split: sum.splits)
  then show ?thesis using Inl sim clear by (auto simp: raft_clear_staged_def)
next
  case (Inr d)
  have v: "view d CF_META = (view (rs_engine s) CF_META)(RAFT_STAGED_SNAPSHOT_KEY := None)"
    using Inr engine_write_cases [of "[Delete CF_META RAFT_STAGED_SNAPSHOT_KEY]" "rs_engine s"]
    by (auto simp: rbind_Inr_iff)
  show ?thesis
    using Inr sim clear active_other_key
    by (auto simp: raft_clear_staged_def store_sim_def v holds_staged_def cache_ok_def mem_clear_staged_snapshot_def
        split: option.splits)
qed

lemma load_staged_sim:
  assumes "store_sim j view s m"
  shows "case raft_load_staged r s of Inl err \<Rightarrow> env_failure err | Inr g \<Rightarrow> g = ms_staged m"
proof (cases "meta_cf r (rs_engine s)")
  case (Inl err)
  then show ?thesis using meta_cf_error [OF Inl] by (simp add: raft_load_staged_def rbind_def)
next
  case meta: (Inr u)
  have staged: "holds_staged (view (rs_engine s) CF_META) (ms_staged m)" using assms by (simp add: store_sim_def)
  show ?thesis
  proof (cases "rk_get r CF_META RAFT_STAGED_SNAPSHOT_KEY (rs_engine s)")
    case (Inr x)
    then have "x = view (rs_engine s) CF_META RAFT_STAGED_SNAPSHOT_KEY" by (rule get_view)
    then show ?thesis
      using meta Inr staged decode_encode_staged
      by (cases "ms_staged m") (auto simp: raft_load_staged_def rbind_def holds_staged_def)
  qed (simp add: raft_load_staged_def meta rbind_def)
qed

lemma call_sim:
  assumes sim: "store_sim j view s m" and ok: "call_ok c m" and call: "rocks_call j r c s = (s', res)"
  shows "case res of Inl err \<Rightarrow> env_failure err \<and> store_sim j view s' m
    | Inr a \<Rightarrow> mem_call c m = (fst (mem_call c m), a) \<and> store_sim j view s' (fst (mem_call c m))"
proof (cases c)
  case (CallSave st data)
  obtain s1 x where "raft_save j r st data s = (s1, x)" by (cases "raft_save j r st data s")
  with save_sim [OF sim ok [unfolded CallSave] this] call show ?thesis by (cases x) (auto simp: CallSave)
next
  case (CallStage g)
  obtain s1 x where "raft_stage r g s = (s1, x)" by (cases "raft_stage r g s")
  with stage_sim [OF sim ok [unfolded CallStage] this] call show ?thesis by (cases x) (auto simp: CallStage)
next
  case CallLoadStaged
  then show ?thesis
    using load_staged_sim [OF sim] sim call
    by (cases "raft_load_staged r s") (auto simp: mem_load_staged_snapshot_def)
next
  case CallClearStaged
  obtain s1 x where "raft_clear_staged r s = (s1, x)" by (cases "raft_clear_staged r s")
  with clear_sim [OF sim this] call show ?thesis by (cases x) (auto simp: CallClearStaged)
next
  case CallLoad
  obtain s1 x where "raft_load j r s = (s1, x)" by (cases "raft_load j r s")
  with load_sim [OF sim this] call show ?thesis by (cases x) (auto simp: CallLoad mem_load_def)
next
  case Reopen
  then show ?thesis using sim call by (auto simp: raft_store_new_def store_sim_def cache_ok_def)
qed

lemma calls_sim:
  assumes "store_sim j view s m" "calls_ok cs m" "closed_calls j r cs s = Some (s', answers)"
  shows "snd (mem_calls cs m) = answers \<and> store_sim j view s' (fst (mem_calls cs m))"
  using assms
proof (induction cs arbitrary: s m answers)
  case (Cons c cs)
  obtain s1 a rest where call: "rocks_call j r c s = (s1, Inr a)"
    and run: "closed_calls j r cs s1 = Some (s', rest)" and ans: "answers = a # rest"
    using Cons.prems(3) by (auto simp: fail_closed_def split: option.splits prod.splits sum.splits)
  have "mem_call c m = (fst (mem_call c m), a)" "store_sim j view s1 (fst (mem_call c m))"
    using call_sim [OF Cons.prems(1) _ call] Cons.prems(2) by auto
  with Cons.IH [OF _ _ run] Cons.prems(2) ans show ?case
    by (cases "mem_call c m") auto
qed simp

end

lemma store_sim_new: "view d CF_META = Map.empty \<Longrightarrow> store_sim j view (raft_store_new d) mem_new"
  by (simp add: store_sim_def raft_store_new_def mem_new_def holds_active_def holds_staged_def cache_ok_def)

text \<open>Appending to the log, the common save, continues the saved state.\<close>

lemma append_continues:
  assumes "log_ok st"
  shows "continues (st, d) (fst (log_append st t c)) d"
  unfolding continues_def
  by (auto simp: list_all_iff entry_at_append [OF assms] simp del: upt_Suc)

section \<open>An instance\<close>

text \<open>A flat encoding of the hard states without a membership, in the place of \<open>serde_json\<close>.\<close>

definition flat_json :: raft_json where
  "flat_json =
     \<lparr>hard_to_json = (\<lambda>h.
        if hs_membership h = None \<and> list_all (\<lambda>n. n < 2 ^ 64) [hs_current_term h, hs_snapshot_index h,
             hs_snapshot_term h, hs_last_log_index h, hs_last_log_term h, hs_snapshot_bytes_len h]
        then Inr (be_bytes 8 (hs_current_term h) @ be_bytes 8 (hs_snapshot_index h) @
               be_bytes 8 (hs_snapshot_term h) @ be_bytes 8 (hs_last_log_index h) @
               be_bytes 8 (hs_last_log_term h) @ be_bytes 8 (hs_snapshot_bytes_len h) @
               (case hs_voted_for h of None \<Rightarrow> [] | Some n \<Rightarrow> 1 # str_bytes n))
        else Inl ''not a flat hard state''),
      hard_from_json = (\<lambda>bs. Inr
        \<lparr>hs_current_term = be_value (byte_slice 0 8 bs),
         hs_voted_for = (case drop 48 bs of [] \<Rightarrow> None | b # n \<Rightarrow> Some (bytes_str n)),
         hs_snapshot_index = be_value (byte_slice 8 16 bs), hs_snapshot_term = be_value (byte_slice 16 24 bs),
         hs_membership = None, hs_last_log_index = be_value (byte_slice 24 32 bs),
         hs_last_log_term = be_value (byte_slice 32 40 bs), hs_snapshot_bytes_len = be_value (byte_slice 40 48 bs)\<rparr>),
      state_from_json = (\<lambda>bs. Inl ''not a flat state'')\<rparr>"

interpretation mem_stable: stable_store mem_rocks mem_view flat_json
proof (intro stable_store.intro stable_store_axioms.intro)
  show "rocks_store mem_rocks mem_view" by (rule mem_store_laws.rocks_store_axioms)
  show "hard_to_json flat_json h = Inr b \<Longrightarrow> hard_from_json flat_json b = Inr h" for h b
    by (auto simp: flat_json_def byte_slice_def split: if_splits option.splits intro!: hard_state.equality)
qed

text \<open>A database whose writes fail.\<close>

definition full_disk :: "mem_db rocks" where
  "full_disk = mem_rocks\<lparr>rk_write := (\<lambda>ops d. Inl ''no space left'')\<rparr>"

lemma full_disk_stable: "stable_store full_disk mem_view flat_json"
proof (intro stable_store.intro stable_store_axioms.intro rocks_store.intro)
  show "hard_to_json flat_json h = Inr b \<Longrightarrow> hard_from_json flat_json b = Inr h" for h b
    by (rule mem_stable.hard_json)
qed (simp_all add: full_disk_def mem_store_laws.finite_view mem_store_laws.get_view mem_store_laws.put_view
    mem_store_laws.delete_view mem_store_laws.seek_view mem_store_laws.prev_view)

definition sample_state1 :: persistent_state where
  "sample_state1 = (fst (log_append ps_new 1 [7]))\<lparr>current_term := 1, voted_for := Some ''a''\<rparr>"

definition sample_state2 :: persistent_state where
  "sample_state2 = fst (log_append sample_state1 1 [8])"

definition sample_calls :: "store_call list" where
  "sample_calls = [CallSave sample_state1 [], CallSave sample_state2 [], Reopen, CallLoad]"

lemma sample_run:
  "map_option snd (closed_calls flat_json mem_rocks sample_calls (raft_store_new mem_open)) =
   Some [Done, Done, Done, StateIs (Some (sample_state2, []))]"
  by code_simp

lemma sample_run_ok: "calls_ok sample_calls mem_new"
  by code_simp

section \<open>Properties\<close>

text \<open>C29. The RocksDB store answers every sequence of calls, with restarts in between, as the
  in-memory store does: what a node loads is exactly the state and the snapshot bytes it saved last,
  and what it loads as staged is what it staged since. The saves are those of a node whose logs have
  the matching property and whose snapshot bytes are fixed by their boundary and length; each call
  goes through the fail-closed adapter and returned. \<open>store_sim\<close> also covers the state of a legacy
  whole-state record, which the first save replaces.\<close>

theorem raft_store_refines_mem:
  assumes "stable_store r view j" "store_sim j view s m" "calls_ok cs m"
    and "closed_calls j r cs s = Some (s', answers)"
  shows "snd (mem_calls cs m) = answers \<and> store_sim j view s' (fst (mem_calls cs m))"
  using stable_store.calls_sim [OF assms] .

theorem raft_store_refines_mem_witness:
  "map_option snd (closed_calls flat_json mem_rocks sample_calls (raft_store_new mem_open)) =
     Some (snd (mem_calls sample_calls mem_new)) \<and>
   snd (mem_calls sample_calls mem_new) = [Done, Done, Done, StateIs (Some (sample_state2, []))]"
proof -
  obtain s' where run: "closed_calls flat_json mem_rocks sample_calls (raft_store_new mem_open) =
      Some (s', [Done, Done, Done, StateIs (Some (sample_state2, []))])"
    using sample_run by auto
  have "store_sim flat_json mem_view (raft_store_new mem_open) mem_new"
    by (rule store_sim_new) (simp add: mem_view_open)
  then show ?thesis
    using raft_store_refines_mem [OF mem_stable.stable_store_axioms _ sample_run_ok run] run by simp
qed

text \<open>C30. A call to the RocksDB store that fails changes nothing that a later call can see: the
  store still simulates the same in-memory store. The failure comes from RocksDB, from the serializer
  of the hard state or from a command longer than the length field; a node never reads back a record
  that does not decode, a log with a hole or a snapshot of the wrong length.\<close>

theorem raft_store_failure_atomic:
  assumes "stable_store r view j" "store_sim j view s m" "call_ok c m"
    and "rocks_call j r c s = (s', Inl err)"
  shows "env_failure err \<and> store_sim j view s' m"
  using stable_store.call_sim [OF assms] by simp

theorem raft_store_failure_atomic_witness:
  "rocks_call flat_json full_disk (CallSave sample_state1 []) (raft_store_new mem_open) =
     (raft_store_new mem_open, Inl (RocksFailure ''no space left'')) \<and>
   env_failure (RocksFailure ''no space left'') \<and>
   store_sim flat_json mem_view (raft_store_new mem_open) mem_new"
proof -
  have run: "rocks_call flat_json full_disk (CallSave sample_state1 []) (raft_store_new mem_open) =
      (raft_store_new mem_open, Inl (RocksFailure ''no space left''))"
    by code_simp
  have sim: "store_sim flat_json mem_view (raft_store_new mem_open) mem_new"
    by (rule store_sim_new) (simp add: mem_view_open)
  have ok: "call_ok (CallSave sample_state1 []) mem_new" by code_simp
  show ?thesis using run raft_store_failure_atomic [OF full_disk_stable sim ok run] by blast
qed

text \<open>The record of a log entry is exact: \<open>decode_log_entry\<close> accepts the bytes under the key of
  an index just when they are the encoding of the entry it returns, with that index and with numbers
  of 64 bits. A record of another version, of another index, truncated or with trailing bytes is
  refused.\<close>

theorem log_entry_codec_exact:
  "decode_log_entry i bs = Inr e \<longleftrightarrow> encode_log_entry e = Inr bs \<and> u64_entry e \<and> le_index e = i"
  using encode_decode_log_entry decode_encode_log_entry by blast

end
