(* ===== verification/Vectorized.thy ===== *)
theory Vectorized
  imports Wire "HOL-Library.Multiset"
begin

text \<open>
  The columnar data and the operators of \<open>vectorized.rs\<close>: text columns with an offset table, typed
  columns, record batches, and the scan, filter, projection, limit and sort-merge join over them.
  A 32- or 64-bit integer is a word, read signed; an \<open>f64\<close> is its 64 bits, with the comparison of
  IEEE 754. A panic (an index or a slice out of range) is \<open>None\<close>.

  The specification of a batch is the list of its rows (\<open>batch_rows\<close>), a row the list of its named cells.
  The lemmas show that a well-formed batch never panics, that every operator returns a well-formed
  batch of the expected schema, and which rows it returns: the filter those that match, in order;
  the join the pairs of a nested loop.
\<close>

section \<open>Data\<close>

type_synonym i32 = "32 word"
type_synonym i64 = "64 word"
type_synonym f64 = "64 word"

record utf8_column =
  uc_offsets :: "u32 list"
  uc_data :: bytes
  uc_validity :: "bool list"

datatype column_vector =
    Int32 "i32 option list"
  | Int64 "i64 option list"
  | Float64 "f64 option list"
  | Date32 "i32 option list"
  | Utf8 utf8_column

record record_batch =
  rb_columns :: "(string \<times> column_vector) list"
  row_count :: nat

datatype predicate =
    EqI64 string i64
  | GtI64 string i64
  | LtI64 string i64
  | BetweenDate32 string i32 i32
  | BetweenFloat64 string f64 f64
  | EqText string string

datatype comparison_op = OpGt | OpLt | OpEq

datatype exec_error =
    ColumnNotFound string
  | ColumnTypeMismatch string
  | ColumnLengthMismatch
  | BatchOverflow nat
  | SchedulerError string
  | StorageFailure string
  | TableNotFound string

section \<open>Text columns\<close>

definition utf8_push :: "utf8_column \<Rightarrow> string option \<Rightarrow> utf8_column" where
  "utf8_push c v =
     (case v of
        Some text \<Rightarrow>
          let data = uc_data c @ str_bytes text in
          \<lparr>uc_offsets = uc_offsets c @ [of_nat (length data)], uc_data = data,
           uc_validity = uc_validity c @ [True]\<rparr>
      | None \<Rightarrow>
          \<lparr>uc_offsets = uc_offsets c @ [of_nat (length (uc_data c))], uc_data = uc_data c,
           uc_validity = uc_validity c @ [False]\<rparr>)"

definition from_options :: "string option list \<Rightarrow> utf8_column" where
  "from_options values = foldl utf8_push \<lparr>uc_offsets = [0], uc_data = [], uc_validity = []\<rparr> values"

definition utf8_len :: "utf8_column \<Rightarrow> nat" where
  "utf8_len c = length (uc_validity c)"

definition utf8_get :: "utf8_column \<Rightarrow> nat \<Rightarrow> string option option" where
  "utf8_get c index =
     (if index < length (uc_validity c) \<and> uc_validity c ! index then
        if index < length (uc_offsets c) \<and> index + 1 < length (uc_offsets c) then
          let start = unat (uc_offsets c ! index); end' = unat (uc_offsets c ! (index + 1)) in
          if start \<le> end' \<and> end' \<le> length (uc_data c)
          then Some (string_from_utf8 (take (end' - start) (drop start (uc_data c))))
          else None
        else Some None
      else Some None)"

section \<open>Columns and batches\<close>

fun col_len :: "column_vector \<Rightarrow> nat" where
  "col_len (Int32 v) = length v"
| "col_len (Int64 v) = length v"
| "col_len (Float64 v) = length v"
| "col_len (Date32 v) = length v"
| "col_len (Utf8 c) = utf8_len c"

definition index_all :: "'a list \<Rightarrow> nat list \<Rightarrow> 'a list option" where
  "index_all v indices = those (map (\<lambda>i. if i < length v then Some (v ! i) else None) indices)"

fun col_take :: "column_vector \<Rightarrow> nat list \<Rightarrow> column_vector option" where
  "col_take (Int32 v) indices = map_option Int32 (index_all v indices)"
| "col_take (Int64 v) indices = map_option Int64 (index_all v indices)"
| "col_take (Float64 v) indices = map_option Float64 (index_all v indices)"
| "col_take (Date32 v) indices = map_option Date32 (index_all v indices)"
| "col_take (Utf8 c) indices = map_option (\<lambda>vs. Utf8 (from_options vs)) (those (map (utf8_get c) indices))"

definition batch_new :: "(string \<times> column_vector) list \<Rightarrow> exec_error + record_batch" where
  "batch_new columns =
     (let n = (case columns of [] \<Rightarrow> 0 | (_, col) # _ \<Rightarrow> col_len col) in
      if list_all (\<lambda>(_, col). col_len col = n) columns
      then Inr \<lparr>rb_columns = columns, row_count = n\<rparr> else Inl ColumnLengthMismatch)"

definition batch_empty :: record_batch where
  "batch_empty = \<lparr>rb_columns = [], row_count = 0\<rparr>"

definition ascii_lower :: "char \<Rightarrow> char" where
  "ascii_lower c = (let n = of_char c :: nat in if 65 \<le> n \<and> n \<le> 90 then char_of (n + 32) else c)"

definition eq_ignore_ascii_case :: "string \<Rightarrow> string \<Rightarrow> bool" where
  "eq_ignore_ascii_case a b \<longleftrightarrow> map ascii_lower a = map ascii_lower b"

definition batch_column :: "record_batch \<Rightarrow> string \<Rightarrow> column_vector option" where
  "batch_column b name =
     map_option snd (find (\<lambda>(col_name, _). eq_ignore_ascii_case col_name name) (rb_columns b))"

fun select_list :: "record_batch \<Rightarrow> string list \<Rightarrow> exec_error + (string \<times> column_vector) list" where
  "select_list b [] = Inr []"
| "select_list b (target # rest) =
     (case batch_column b target of
        None \<Rightarrow> Inl (ColumnNotFound target)
      | Some col \<Rightarrow> rbind (select_list b rest) (\<lambda>cols. Inr ((target, col) # cols)))"

definition select_columns :: "record_batch \<Rightarrow> string list \<Rightarrow> exec_error + record_batch" where
  "select_columns b projection = rbind (select_list b projection) batch_new"

definition take_columns :: "(string \<times> column_vector) list \<Rightarrow> nat list \<Rightarrow> (string \<times> column_vector) list option" where
  "take_columns cols indices = those (map (\<lambda>(name, col). map_option (Pair name) (col_take col indices)) cols)"

definition with_limit :: "record_batch \<Rightarrow> nat \<Rightarrow> (exec_error + record_batch) option" where
  "with_limit b limit =
     (if row_count b \<le> limit then Some (Inr b)
      else map_option batch_new (take_columns (rb_columns b) [0..<limit]))"

section \<open>The filter and the scan\<close>

definition f64_nan :: "f64 \<Rightarrow> bool" where
  "f64_nan x \<longleftrightarrow> unat x mod 2 ^ 63 > 0x7FF0000000000000"

definition f64_rank :: "f64 \<Rightarrow> int" where
  "f64_rank x = (if unat x < 2 ^ 63 then int (unat x) else - int (unat x mod 2 ^ 63))"

definition f64_le :: "f64 \<Rightarrow> f64 \<Rightarrow> bool" where
  "f64_le x y \<longleftrightarrow> \<not> f64_nan x \<and> \<not> f64_nan y \<and> f64_rank x \<le> f64_rank y"

definition i64_gt :: "i64 \<Rightarrow> i64 \<Rightarrow> bool" where "i64_gt v c \<longleftrightarrow> sint c < sint v"
definition i64_lt :: "i64 \<Rightarrow> i64 \<Rightarrow> bool" where "i64_lt v c \<longleftrightarrow> sint v < sint c"
definition i64_eq :: "i64 \<Rightarrow> i64 \<Rightarrow> bool" where "i64_eq v c \<longleftrightarrow> v = c"

definition i64_mask_scalar :: "i64 option list \<Rightarrow> i64 \<Rightarrow> comparison_op \<Rightarrow> bool list" where
  "i64_mask_scalar values criterion op =
     map (\<lambda>v. case v of None \<Rightarrow> False
       | Some x \<Rightarrow> (case op of OpGt \<Rightarrow> i64_gt x criterion | OpLt \<Rightarrow> i64_lt x criterion | OpEq \<Rightarrow> x = criterion)) values"

definition filter_i64 ::
  "record_batch \<Rightarrow> string \<Rightarrow> i64 \<Rightarrow> (i64 \<Rightarrow> i64 \<Rightarrow> bool) \<Rightarrow> exec_error + bool list" where
  "filter_i64 b column criterion cmp =
     (let op = (if cmp 2 1 then OpGt else if cmp 1 2 then OpLt else OpEq) in
      case batch_column b column of
        Some (Int64 values) \<Rightarrow> Inr (i64_mask_scalar values criterion op)
      | Some (Int32 values) \<Rightarrow>
          Inr (map (\<lambda>v. case v of None \<Rightarrow> False | Some x \<Rightarrow> cmp (scast x) criterion) values)
      | _ \<Rightarrow> Inl (ColumnTypeMismatch column))"

definition date_between :: "i32 \<Rightarrow> i32 \<Rightarrow> i32 option \<Rightarrow> bool" where
  "date_between start end' v = (case v of None \<Rightarrow> False | Some x \<Rightarrow> sint start \<le> sint x \<and> sint x < sint end')"

definition float_between :: "f64 \<Rightarrow> f64 \<Rightarrow> f64 option \<Rightarrow> bool" where
  "float_between low high v = (case v of None \<Rightarrow> False | Some x \<Rightarrow> f64_le low x \<and> f64_le x high)"

fun filter_mask :: "record_batch \<Rightarrow> predicate \<Rightarrow> (exec_error + bool list) option" where
  "filter_mask b (EqI64 column value) = Some (filter_i64 b column value i64_eq)"
| "filter_mask b (GtI64 column value) = Some (filter_i64 b column value i64_gt)"
| "filter_mask b (LtI64 column value) = Some (filter_i64 b column value i64_lt)"
| "filter_mask b (BetweenDate32 column start end') =
     Some (case batch_column b column of
        Some (Date32 values) \<Rightarrow> Inr (map (date_between start end') values)
      | _ \<Rightarrow> Inl (ColumnTypeMismatch column))"
| "filter_mask b (BetweenFloat64 column low high) =
     Some (case batch_column b column of
        Some (Float64 values) \<Rightarrow> Inr (map (float_between low high) values)
      | _ \<Rightarrow> Inl (ColumnTypeMismatch column))"
| "filter_mask b (EqText column value) =
     (case batch_column b column of
        Some (Utf8 col) \<Rightarrow>
          map_option Inr (those (map (\<lambda>i. map_option (\<lambda>v. v = Some value) (utf8_get col i)) [0..<row_count b]))
      | _ \<Rightarrow> Some (Inl (ColumnTypeMismatch column)))"

definition mask_indices :: "bool list \<Rightarrow> nat list" where
  "mask_indices kept = List.filter (\<lambda>i. kept ! i) [0..<length kept]"

definition batch_filter :: "record_batch \<Rightarrow> predicate \<Rightarrow> (exec_error + record_batch) option" where
  "batch_filter b p =
     (if row_count b > 10000000 then Some (Inl (BatchOverflow (row_count b)))
      else case filter_mask b p of
        None \<Rightarrow> None
      | Some (Inl e) \<Rightarrow> Some (Inl e)
      | Some (Inr kept) \<Rightarrow> map_option batch_new (take_columns (rb_columns b) (mask_indices kept)))"

definition table_scan ::
  "record_batch \<Rightarrow> predicate option \<Rightarrow> string list option \<Rightarrow> nat option \<Rightarrow> (exec_error + record_batch) option" where
  "table_scan input predicate projection limit =
     (case (case predicate of None \<Rightarrow> Some (Inr input) | Some p \<Rightarrow> batch_filter input p) of
        None \<Rightarrow> None
      | Some (Inl e) \<Rightarrow> Some (Inl e)
      | Some (Inr filtered) \<Rightarrow>
          (case (case projection of
                   None \<Rightarrow> Inr filtered
                 | Some cols \<Rightarrow> if cols = [] then Inr filtered else select_columns filtered cols) of
             Inl e \<Rightarrow> Some (Inl e)
           | Inr projected \<Rightarrow>
               (case limit of None \<Rightarrow> Some (Inr projected) | Some n \<Rightarrow> with_limit projected n)))"

section \<open>The sort-merge join\<close>

definition keyed_rows :: "i64 option list \<Rightarrow> (i64 \<times> nat) list" where
  "keyed_rows ids = concat (map (\<lambda>(idx, key). case key of None \<Rightarrow> [] | Some k \<Rightarrow> [(k, idx)]) (enumerate 0 ids))"

definition sort_rows :: "(i64 \<times> nat) list \<Rightarrow> (i64 \<times> nat) list" where
  "sort_rows = sort_key (\<lambda>(key, _). sint key)"

text \<open>The loop over the two pointers, on the rows from each pointer on.\<close>

function merge_loop :: "(i64 \<times> nat) list \<Rightarrow> (i64 \<times> nat) list \<Rightarrow> (nat \<times> nat) list" where
  "merge_loop [] rs = []"
| "merge_loop (l # ls) [] = []"
| "merge_loop (l # ls) (r # rs) =
     (if sint (fst l) < sint (fst r) then merge_loop ls (r # rs)
      else if sint (fst r) < sint (fst l) then merge_loop (l # ls) rs
      else
        concat (map (\<lambda>(_, l_idx). map (\<lambda>(_, r_idx). (l_idx, r_idx)) (takeWhile (\<lambda>x. fst x = fst r) (r # rs)))
          (takeWhile (\<lambda>x. fst x = fst l) (l # ls))) @
        merge_loop (dropWhile (\<lambda>x. fst x = fst l) (l # ls)) (dropWhile (\<lambda>x. fst x = fst r) (r # rs)))"
  by pat_completeness auto
termination
proof (relation "measure (\<lambda>(ls, rs). length ls + length rs)", goal_cases)
  case (4 l ls r rs)
  have "length (dropWhile (\<lambda>x. fst x = fst l) ls) \<le> length ls"
    "length (dropWhile (\<lambda>x. fst x = fst r) rs) \<le> length rs" by (rule length_dropWhile_le)+
  then show ?case by simp
qed simp_all

definition sort_merge_join ::
  "record_batch \<Rightarrow> record_batch \<Rightarrow> string \<Rightarrow> string \<Rightarrow> (exec_error + record_batch) option" where
  "sort_merge_join left right left_key right_key =
     (case batch_column left left_key of
        Some (Int64 left_ids) \<Rightarrow>
          (case batch_column right right_key of
             Some (Int64 right_ids) \<Rightarrow>
               (let matches = merge_loop (sort_rows (keyed_rows left_ids)) (sort_rows (keyed_rows right_ids)) in
                case (take_columns (rb_columns left) (map fst matches),
                      take_columns (rb_columns right) (map snd matches)) of
                  (Some lcols, Some rcols) \<Rightarrow>
                    Some (batch_new (map (\<lambda>(name, col). (''left.'' @ name, col)) lcols @
                                     map (\<lambda>(name, col). (''right.'' @ name, col)) rcols))
                | _ \<Rightarrow> None)
           | _ \<Rightarrow> Some (Inl (ColumnTypeMismatch right_key)))
      | _ \<Rightarrow> Some (Inl (ColumnTypeMismatch left_key)))"

section \<open>The rows of a batch\<close>

datatype cell = CI32 i32 | CI64 i64 | CF64 f64 | CD32 i32 | CText string

definition utf8_values :: "utf8_column \<Rightarrow> string option list" where
  "utf8_values c = map (\<lambda>i. case utf8_get c i of None \<Rightarrow> None | Some v \<Rightarrow> v) [0..<utf8_len c]"

fun cells :: "column_vector \<Rightarrow> cell option list" where
  "cells (Int32 v) = map (map_option CI32) v"
| "cells (Int64 v) = map (map_option CI64) v"
| "cells (Float64 v) = map (map_option CF64) v"
| "cells (Date32 v) = map (map_option CD32) v"
| "cells (Utf8 c) = map (map_option CText) (utf8_values c)"

definition text_bytes :: "string option list \<Rightarrow> nat" where
  "text_bytes vs = sum_list (map (\<lambda>v. case v of None \<Rightarrow> 0 | Some s \<Rightarrow> length s) vs)"

definition texts_ok :: "string option list \<Rightarrow> bool" where
  "texts_ok vs \<longleftrightarrow> list_all (\<lambda>v. case v of None \<Rightarrow> True | Some s \<Rightarrow> rust_string s) vs \<and> text_bytes vs < 2 ^ 32"

text \<open>A text column whose valid slots all hold text, of less than 4 GiB, as \<open>from_options\<close> builds it.\<close>

definition utf8_ok :: "utf8_column \<Rightarrow> bool" where
  "utf8_ok c \<longleftrightarrow> list_all (\<lambda>i. utf8_get c i \<noteq> None \<and> (uc_validity c ! i \<longrightarrow> utf8_get c i \<noteq> Some None)) [0..<utf8_len c] \<and>
     text_bytes (utf8_values c) < 2 ^ 32"

fun column_ok :: "column_vector \<Rightarrow> bool" where
  "column_ok (Utf8 c) = utf8_ok c"
| "column_ok _ = True"

definition batch_ok :: "record_batch \<Rightarrow> bool" where
  "batch_ok b \<longleftrightarrow> list_all (\<lambda>(_, col). column_ok col \<and> col_len col = row_count b) (rb_columns b) \<and>
     (rb_columns b = [] \<longrightarrow> row_count b = 0)"

datatype column_type = TInt32 | TInt64 | TFloat64 | TDate32 | TUtf8

fun col_type :: "column_vector \<Rightarrow> column_type" where
  "col_type (Int32 _) = TInt32"
| "col_type (Int64 _) = TInt64"
| "col_type (Float64 _) = TFloat64"
| "col_type (Date32 _) = TDate32"
| "col_type (Utf8 _) = TUtf8"

definition batch_schema :: "record_batch \<Rightarrow> (string \<times> column_type) list" where
  "batch_schema b = map (apsnd col_type) (rb_columns b)"

type_synonym row = "(string \<times> cell option) list"

definition row_at :: "(string \<times> column_vector) list \<Rightarrow> nat \<Rightarrow> row" where
  "row_at cols i = map (\<lambda>(name, col). (name, cells col ! i)) cols"

definition row_cell :: "row \<Rightarrow> string \<Rightarrow> cell option option" where
  "row_cell row name = map_option snd (find (\<lambda>(col_name, _). eq_ignore_ascii_case col_name name) row)"

definition batch_rows :: "record_batch \<Rightarrow> row list" where
  "batch_rows b = map (row_at (rb_columns b)) [0..<row_count b]"

text \<open>What a predicate says of a cell, and the column types it accepts.\<close>

fun pred_column :: "predicate \<Rightarrow> string" where
  "pred_column (EqI64 c _) = c"
| "pred_column (GtI64 c _) = c"
| "pred_column (LtI64 c _) = c"
| "pred_column (BetweenDate32 c _ _) = c"
| "pred_column (BetweenFloat64 c _ _) = c"
| "pred_column (EqText c _) = c"

fun accepts :: "predicate \<Rightarrow> column_type \<Rightarrow> bool" where
  "accepts (BetweenDate32 _ _ _) t \<longleftrightarrow> t = TDate32"
| "accepts (BetweenFloat64 _ _ _) t \<longleftrightarrow> t = TFloat64"
| "accepts (EqText _ _) t \<longleftrightarrow> t = TUtf8"
| "accepts _ t \<longleftrightarrow> t = TInt64 \<or> t = TInt32"

definition int_cell :: "cell \<Rightarrow> int" where
  "int_cell c = (case c of CI32 x \<Rightarrow> sint x | CI64 x \<Rightarrow> sint x | _ \<Rightarrow> 0)"

fun cell_matches :: "predicate \<Rightarrow> cell option \<Rightarrow> bool" where
  "cell_matches p None = False"
| "cell_matches (EqI64 _ v) (Some c) \<longleftrightarrow> int_cell c = sint v"
| "cell_matches (GtI64 _ v) (Some c) \<longleftrightarrow> sint v < int_cell c"
| "cell_matches (LtI64 _ v) (Some c) \<longleftrightarrow> int_cell c < sint v"
| "cell_matches (BetweenDate32 _ lo hi) (Some c) \<longleftrightarrow>
     (case c of CD32 x \<Rightarrow> sint lo \<le> sint x \<and> sint x < sint hi | _ \<Rightarrow> False)"
| "cell_matches (BetweenFloat64 _ lo hi) (Some c) \<longleftrightarrow>
     (case c of CF64 x \<Rightarrow> f64_le lo x \<and> f64_le x hi | _ \<Rightarrow> False)"
| "cell_matches (EqText _ v) (Some c) \<longleftrightarrow> c = CText v"

definition row_matches :: "predicate \<Rightarrow> row \<Rightarrow> bool" where
  "row_matches p row = (case row_cell row (pred_column p) of None \<Rightarrow> False | Some c \<Rightarrow> cell_matches p c)"

section \<open>Text columns hold what they were built from\<close>

definition opt_bytes :: "string option \<Rightarrow> bytes" where
  "opt_bytes v = (case v of None \<Rightarrow> [] | Some s \<Rightarrow> str_bytes s)"

lemma opt_bytes_simps [simp]: "opt_bytes None = []" "opt_bytes (Some s) = str_bytes s"
  by (simp_all add: opt_bytes_def)

lemma length_opt_bytes: "length (concat (map opt_bytes vs)) = text_bytes vs"
  by (induction vs) (auto simp: text_bytes_def opt_bytes_def split: option.splits)

lemma from_options_snoc: "from_options (vs @ [v]) = utf8_push (from_options vs) v"
  by (simp add: from_options_def)

lemma from_options_fields:
  "uc_data (from_options vs) = concat (map opt_bytes vs)"
  "uc_validity (from_options vs) = map (\<lambda>v. v \<noteq> None) vs"
  "uc_offsets (from_options vs) = map (\<lambda>k. of_nat (text_bytes (take k vs))) [0..<Suc (length vs)]"
proof (induction vs rule: rev_induct)
  case (snoc v vs)
  { case 1 show ?case by (cases v) (simp_all add: from_options_snoc utf8_push_def snoc Let_def) }
  { case 2 show ?case by (cases v) (simp_all add: from_options_snoc utf8_push_def snoc Let_def) }
  { case 3
    have len: "length (concat (map opt_bytes (vs @ [v]))) = text_bytes (vs @ [v])" by (rule length_opt_bytes)
    have "uc_offsets (from_options (vs @ [v])) = uc_offsets (from_options vs) @ [of_nat (text_bytes (vs @ [v]))]"
      using len [symmetric]
      by (cases v) (simp_all add: from_options_snoc utf8_push_def snoc(1) Let_def)
    then show ?case by (simp add: snoc(3) del: upt_Suc) (simp add: upt_Suc_append) }
qed (simp_all add: from_options_def text_bytes_def)

lemma text_bytes_append [simp]: "text_bytes (xs @ ys) = text_bytes xs + text_bytes ys"
  by (simp add: text_bytes_def)

lemma utf8_len_from_options [simp]: "utf8_len (from_options vs) = length vs"
  by (simp add: utf8_len_def from_options_fields)

lemma utf8_get_from_options:
  assumes "texts_ok vs" "i < length vs"
  shows "utf8_get (from_options vs) i = Some (vs ! i)"
proof (cases "vs ! i")
  case None
  then show ?thesis using assms(2) by (simp add: utf8_get_def from_options_fields)
next
  case (Some s)
  have split: "vs = take i vs @ Some s # drop (Suc i) vs" using id_take_nth_drop [OF assms(2)] Some by simp
  have step: "text_bytes (take (Suc i) vs) = text_bytes (take i vs) + length s"
    using assms(2) Some by (simp add: take_Suc_conv_app_nth) (simp add: text_bytes_def)
  have total: "text_bytes vs = text_bytes (take (Suc i) vs) + text_bytes (drop (Suc i) vs)"
    using text_bytes_append [of "take (Suc i) vs" "drop (Suc i) vs"] by simp
  then have small: "text_bytes (take (Suc i) vs) < 2 ^ 32" "text_bytes (take i vs) < 2 ^ 32"
    using assms(1) step by (simp_all add: texts_ok_def)
  have off: "unat (uc_offsets (from_options vs) ! i) = text_bytes (take i vs)"
    "unat (uc_offsets (from_options vs) ! Suc i) = text_bytes (take (Suc i) vs)"
    using assms(2) small
    by (simp_all add: from_options_fields unat_of_nat_eq del: upt_Suc)
  have data: "uc_data (from_options vs) =
      concat (map opt_bytes (take i vs)) @ str_bytes s @ concat (map opt_bytes (drop (Suc i) vs))"
    unfolding from_options_fields by (subst split) (simp add: opt_bytes_def)
  have "rust_string s" using assms Some by (force simp: texts_ok_def list_all_length split: option.splits)
  moreover have "text_bytes (take i vs) + length s \<le> length (uc_data (from_options vs))"
    by (simp add: data length_opt_bytes)
  moreover have "take (length s) (drop (text_bytes (take i vs)) (uc_data (from_options vs))) = str_bytes s"
    by (simp add: data length_opt_bytes)
  moreover have "i < length (uc_validity (from_options vs))" "uc_validity (from_options vs) ! i"
    "i < length (uc_offsets (from_options vs))" "Suc i < length (uc_offsets (from_options vs))"
    using assms(2) Some by (simp_all add: from_options_fields del: upt_Suc)
  ultimately show ?thesis using Some by (simp add: utf8_get_def off step Let_def)
qed

lemma from_options_ok:
  assumes "texts_ok vs"
  shows "utf8_values (from_options vs) = vs" "utf8_ok (from_options vs)"
proof -
  show "utf8_values (from_options vs) = vs"
    using assms by (auto simp: utf8_values_def utf8_get_from_options intro: nth_equalityI)
  then show "utf8_ok (from_options vs)"
    using assms
    by (auto simp: utf8_ok_def utf8_get_from_options list_all_iff from_options_fields texts_ok_def)
qed

lemma utf8_ok_get:
  assumes "utf8_ok c"
  shows "utf8_get c i = Some (if i < utf8_len c then utf8_values c ! i else None)"
  using assms by (auto simp: utf8_ok_def list_all_iff utf8_values_def utf8_get_def utf8_len_def)

lemma utf8_get_text: "utf8_get c i = Some (Some s) \<Longrightarrow> rust_string s"
  by (auto simp: utf8_get_def Let_def result_simps split: if_splits)

lemma utf8_ok_texts: "utf8_ok c \<Longrightarrow> texts_ok (utf8_values c)"
  by (auto simp: utf8_ok_def texts_ok_def utf8_values_def list_all_iff utf8_get_text split: option.splits)

lemma length_utf8_values [simp]: "length (utf8_values c) = utf8_len c"
  by (simp add: utf8_values_def)

lemma length_cells [simp]: "length (cells c) = col_len c"
  by (cases c) simp_all

section \<open>Taking rows\<close>

lemma those_map: "(\<And>x. x \<in> set xs \<Longrightarrow> f x = Some (g x)) \<Longrightarrow> those (map f xs) = Some (map g xs)"
  by (induction xs) auto

lemma index_all_ok: "\<forall>i \<in> set indices. i < length v \<Longrightarrow> index_all v indices = Some (map ((!) v) indices)"
  unfolding index_all_def by (rule those_map) auto

definition taken_fits :: "column_vector \<Rightarrow> nat list \<Rightarrow> bool" where
  "taken_fits col indices = (case col of
      Utf8 c \<Rightarrow> text_bytes (map ((!) (utf8_values c)) indices) < 2 ^ 32 | _ \<Rightarrow> True)"

lemma col_take_ok:
  assumes "column_ok col" "\<forall>i \<in> set indices. i < col_len col" "taken_fits col indices"
  shows "\<exists>col'. col_take col indices = Some col' \<and> column_ok col' \<and> col_type col' = col_type col \<and>
    cells col' = map ((!) (cells col)) indices"
proof (cases col)
  case (Utf8 c)
  have ok: "utf8_ok c" using assms(1) Utf8 by simp
  let ?vs = "map ((!) (utf8_values c)) indices"
  have "those (map (utf8_get c) indices) = Some ?vs"
    using assms(2) Utf8 by (intro those_map) (simp add: utf8_ok_get [OF ok])
  moreover have "texts_ok ?vs"
    using utf8_ok_texts [OF ok] assms(2,3) Utf8
    by (auto simp: texts_ok_def list_all_length taken_fits_def)
  ultimately show ?thesis
    using assms(2) Utf8 by (auto simp: from_options_ok)
qed (use assms(2) in \<open>auto simp: index_all_ok\<close>)

lemma take_columns_Cons:
  "take_columns ((name, col) # cols) indices =
     (case col_take col indices of None \<Rightarrow> None
      | Some col' \<Rightarrow> map_option (Cons (name, col')) (take_columns cols indices))"
  by (auto simp: take_columns_def split: option.splits)

lemma take_columns_ok:
  assumes "list_all (\<lambda>(_, col). column_ok col \<and> col_len col = n \<and> taken_fits col indices) cols"
    and "\<forall>i \<in> set indices. i < n"
  shows "\<exists>cols'. take_columns cols indices = Some cols' \<and> map (apsnd col_type) cols' = map (apsnd col_type) cols \<and>
    list_all (\<lambda>(_, col). column_ok col \<and> col_len col = length indices) cols' \<and>
    (\<forall>k < length indices. row_at cols' k = row_at cols (indices ! k))"
  using assms(1)
proof (induction cols)
  case Nil
  then show ?case by (simp add: take_columns_def row_at_def)
next
  case (Cons c cols)
  obtain name col where c: "c = (name, col)" by (cases c)
  obtain cols' where IH: "take_columns cols indices = Some cols'"
    "map (apsnd col_type) cols' = map (apsnd col_type) cols"
    "list_all (\<lambda>(_, col). column_ok col \<and> col_len col = length indices) cols'"
    "\<forall>k < length indices. row_at cols' k = row_at cols (indices ! k)"
    using Cons by auto
  obtain col' where col': "col_take col indices = Some col'" "column_ok col'" "col_type col' = col_type col"
    "cells col' = map ((!) (cells col)) indices"
    using col_take_ok [of col indices] Cons.prems c assms(2) by auto
  have "col_len col' = length indices" using arg_cong [OF col'(4), of length] by simp
  with IH col' show ?case by (auto simp: take_columns_Cons c row_at_def)
qed

lemma batch_new_ok:
  assumes "list_all (\<lambda>(_, col). column_ok col \<and> col_len col = n) cols" "cols = [] \<longrightarrow> n = 0"
  shows "batch_new cols = Inr \<lparr>rb_columns = cols, row_count = n\<rparr>"
    "batch_ok \<lparr>rb_columns = cols, row_count = n\<rparr>"
  using assms by (cases cols; auto simp: batch_new_def batch_ok_def list_all_iff split: prod.splits)+

lemma length_batch_rows [simp]: "length (batch_rows b) = row_count b"
  by (simp add: batch_rows_def)

lemma take_batch_ok:
  assumes "batch_ok b" "\<forall>i \<in> set indices. i < row_count b"
    and "list_all (\<lambda>(_, col). taken_fits col indices) (rb_columns b)"
  shows "\<exists>b'. map_option batch_new (take_columns (rb_columns b) indices) = Some (Inr b') \<and> batch_ok b' \<and>
    batch_schema b' = batch_schema b \<and> batch_rows b' = map ((!) (batch_rows b)) indices"
proof -
  have all: "list_all (\<lambda>(_, col). column_ok col \<and> col_len col = row_count b \<and> taken_fits col indices) (rb_columns b)"
    using assms(1,3) by (auto simp: batch_ok_def list_all_iff)
  obtain cols' where c: "take_columns (rb_columns b) indices = Some cols'"
    "map (apsnd col_type) cols' = map (apsnd col_type) (rb_columns b)"
    "list_all (\<lambda>(_, col). column_ok col \<and> col_len col = length indices) cols'"
    "\<forall>k < length indices. row_at cols' k = row_at (rb_columns b) (indices ! k)"
    using take_columns_ok [OF all assms(2)] by blast
  have "cols' = [] \<longrightarrow> length indices = 0"
    using c(2) assms(1,2) by (cases indices) (auto simp: batch_ok_def)
  note new = batch_new_ok [OF c(3) this]
  have "map (row_at cols') [0..<length indices] = map ((!) (batch_rows b)) indices"
    using c(4) assms(2) by (intro nth_equalityI) (auto simp: batch_rows_def)
  then show ?thesis using c(1,2) new by (simp add: batch_schema_def batch_rows_def)
qed

lemma text_bytes_distinct:
  assumes "distinct indices" "\<forall>i \<in> set indices. i < length vs"
  shows "text_bytes (map ((!) vs) indices) \<le> text_bytes vs"
proof -
  let ?len = "\<lambda>v. case v of None \<Rightarrow> 0 | Some s \<Rightarrow> length s"
  have "text_bytes (map ((!) vs) indices) = (\<Sum>i \<leftarrow> indices. ?len (vs ! i))"
    by (simp add: text_bytes_def comp_def)
  also have "\<dots> = (\<Sum>i \<in> set indices. ?len (vs ! i))" using assms(1) by (rule sum_list_distinct_conv_sum_set)
  also have "\<dots> \<le> (\<Sum>i \<in> {0..<length vs}. ?len (vs ! i))" using assms(2) by (intro sum_mono2) auto
  also have "\<dots> = text_bytes vs" by (simp add: text_bytes_def sum_list_sum_nth)
  finally show ?thesis .
qed

lemma distinct_fits:
  assumes "batch_ok b" "distinct indices" "\<forall>i \<in> set indices. i < row_count b"
  shows "list_all (\<lambda>(_, col). taken_fits col indices) (rb_columns b)"
proof -
  have "taken_fits col indices" if "(name, col) \<in> set (rb_columns b)" for name col
  proof (cases col)
    case (Utf8 c)
    then have "utf8_ok c" "utf8_len c = row_count b" using that assms(1) by (auto simp: batch_ok_def list_all_iff)
    then show ?thesis
      using text_bytes_distinct [OF assms(2), of "utf8_values c"] assms(3) Utf8
      by (auto simp: taken_fits_def utf8_ok_def)
  qed (simp_all add: taken_fits_def)
  then show ?thesis by (auto simp: list_all_iff)
qed

lemma map_nth_filter: "map ((!) xs) (List.filter (\<lambda>i. P (xs ! i)) [0..<length xs]) = List.filter P xs"
  using filter_map [of P "(!) xs" "[0..<length xs]"] by (simp add: map_nth comp_def)

section \<open>The filter keeps the rows that match\<close>

lemma find_map_snd:
  "find (\<lambda>(n, _). P n) (map (\<lambda>(n, x). (n, f x)) xs) = map_option (apsnd f) (find (\<lambda>(n, _). P n) xs)"
  by (induction xs) auto

lemma row_cell_row_at: "row_cell (row_at (rb_columns b) i) name = map_option (\<lambda>col. cells col ! i) (batch_column b name)"
  unfolding row_cell_def row_at_def batch_column_def
  by (simp add: find_map_snd option.map_comp comp_def)

lemma batch_column_ok:
  assumes "batch_ok b" "batch_column b name = Some col"
  shows "column_ok col" "col_len col = row_count b"
proof -
  obtain n where "find (\<lambda>(col_name, _). eq_ignore_ascii_case col_name name) (rb_columns b) = Some (n, col)"
    using assms(2) by (auto simp: batch_column_def)
  then have "(n, col) \<in> set (rb_columns b)" by (auto simp: find_Some_iff in_set_conv_nth)
  then show "column_ok col" "col_len col = row_count b" using assms(1) by (auto simp: batch_ok_def list_all_iff)
qed

lemma sint_scast32: "sint (scast (x :: i32) :: i64) = sint x"
proof -
  have "- (2 ^ 31) \<le> sint x" "sint x < 2 ^ 31" using sint_greater_eq [of x] sint_less [of x] by simp_all
  then show ?thesis by (simp add: signed_scast_eq signed_take_bit_int_eq_self)
qed

lemma i64_cmp_simps [simp]:
  "i64_gt 2 1" "\<not> i64_gt 1 2" "\<not> i64_lt 2 1" "i64_lt 1 2" "\<not> i64_eq 2 1" "\<not> i64_eq 1 2"
  by (simp_all add: i64_gt_def i64_lt_def i64_eq_def)

lemma i64_eq_sint: "x = (y :: i64) \<longleftrightarrow> sint x = sint y"
  by (rule word_eq_iff_signed)

lemma map_as_nth: "map f xs = map (\<lambda>i. f (xs ! i)) [0..<length xs]"
  by (intro nth_equalityI) auto

lemma filter_mask_ok:
  assumes "batch_ok b" "batch_column b (pred_column p) = Some col" "accepts p (col_type col)"
  shows "filter_mask b p = Some (Inr (map (cell_matches p) (cells col)))"
proof (cases p)
  case (EqText c v)
  then obtain u where col: "col = Utf8 u" using assms(3) by (cases col) auto
  have ok: "utf8_ok u" "utf8_len u = row_count b" using batch_column_ok [OF assms(1,2)] col by auto
  have "those (map (\<lambda>i. map_option (\<lambda>x. x = Some v) (utf8_get u i)) [0..<row_count b]) =
      Some (map (\<lambda>i. utf8_values u ! i = Some v) [0..<row_count b])"
    using ok by (intro those_map) (simp add: utf8_ok_get)
  moreover have "map (\<lambda>i. utf8_values u ! i = Some v) [0..<row_count b] = map (cell_matches p) (cells col)"
  proof (rule nth_equalityI)
    fix k assume "k < length (map (\<lambda>i. utf8_values u ! i = Some v) [0..<row_count b])"
    then show "map (\<lambda>i. utf8_values u ! i = Some v) [0..<row_count b] ! k = map (cell_matches p) (cells col) ! k"
      using ok EqText col by (cases "utf8_values u ! k") simp_all
  qed (use ok col in simp)
  ultimately show ?thesis using EqText assms(2) col by simp
qed (use assms in \<open>cases col; auto simp: filter_i64_def i64_mask_scalar_def Let_def int_cell_def date_between_def
      float_between_def i64_gt_def i64_lt_def i64_eq_def i64_eq_sint sint_scast32 split: option.splits\<close>)+

lemma filter_mask_mismatch:
  assumes "case batch_column b (pred_column p) of None \<Rightarrow> True | Some col \<Rightarrow> \<not> accepts p (col_type col)"
  shows "filter_mask b p = Some (Inl (ColumnTypeMismatch (pred_column p)))"
  using assms
  by (cases p; auto simp: filter_i64_def Let_def split: option.splits column_vector.splits)

lemma mask_indices_ok: "distinct (mask_indices m)" "\<forall>i \<in> set (mask_indices m). i < length m"
  by (auto simp: mask_indices_def)

lemma batch_filter_ok:
  assumes ok: "batch_ok b" and n: "row_count b \<le> 10000000"
    and col: "batch_column b (pred_column p) = Some col" "accepts p (col_type col)"
  shows "\<exists>b'. batch_filter b p = Some (Inr b') \<and> batch_ok b' \<and> batch_schema b' = batch_schema b \<and>
    batch_rows b' = List.filter (row_matches p) (batch_rows b)"
proof -
  let ?m = "map (cell_matches p) (cells col)"
  have len: "length ?m = row_count b" using batch_column_ok [OF ok col(1)] by simp
  have match: "?m ! i = row_matches p (batch_rows b ! i)" if "i < row_count b" for i
    using that len col(1) by (simp add: batch_rows_def row_matches_def row_cell_row_at)
  have ind: "mask_indices ?m = List.filter (\<lambda>i. row_matches p (batch_rows b ! i)) [0..<length (batch_rows b)]"
    unfolding mask_indices_def len using match by (auto intro!: filter_cong)
  have lt: "\<forall>i \<in> set (mask_indices ?m). i < row_count b" using mask_indices_ok(2) len by metis
  from take_batch_ok [OF ok lt distinct_fits [OF ok mask_indices_ok(1) lt]]
  obtain b' where "map_option batch_new (take_columns (rb_columns b) (mask_indices ?m)) = Some (Inr b')"
    "batch_ok b'" "batch_schema b' = batch_schema b"
    "batch_rows b' = map ((!) (batch_rows b)) (mask_indices ?m)" by auto
  moreover have "batch_filter b p = map_option batch_new (take_columns (rb_columns b) (mask_indices ?m))"
    using n filter_mask_ok [OF ok col] by (simp add: batch_filter_def)
  ultimately show ?thesis unfolding ind map_nth_filter by metis
qed

section \<open>Projection, limit and scan\<close>

lemma with_limit_ok:
  assumes "batch_ok b"
  shows "\<exists>b'. with_limit b n = Some (Inr b') \<and> batch_ok b' \<and> batch_schema b' = batch_schema b \<and>
    batch_rows b' = take n (batch_rows b)"
proof (cases "row_count b \<le> n")
  case False
  then have lt: "\<forall>i \<in> set [0..<n]. i < row_count b" by simp
  have "map ((!) (batch_rows b)) [0..<n] = take n (batch_rows b)"
    using False by (intro nth_equalityI) auto
  then show ?thesis
    using take_batch_ok [OF assms lt distinct_fits [OF assms _ lt]] False by (auto simp: with_limit_def)
qed (use assms in \<open>simp add: with_limit_def\<close>)

lemma select_list_ok:
  assumes "batch_ok b" "select_list b projection = Inr cols"
  shows "map fst cols = projection \<and> list_all (\<lambda>(_, col). column_ok col \<and> col_len col = row_count b) cols \<and>
    row_at cols i = map (\<lambda>t. (t, the (row_cell (row_at (rb_columns b) i) t))) projection"
  using assms(2)
proof (induction projection arbitrary: cols)
  case (Cons t ts)
  from Cons.prems obtain col rest where col: "batch_column b t = Some col" and rest: "select_list b ts = Inr rest"
    and cols: "cols = (t, col) # rest" by (auto simp: result_simps split: option.splits)
  show ?case
    using Cons.IH [OF rest] cols col batch_column_ok [OF assms(1) col]
    by (simp add: row_at_def row_cell_row_at [unfolded row_at_def])
qed (simp add: row_at_def)

lemma select_columns_ok:
  assumes "batch_ok b" "projection \<noteq> []"
  shows "case select_columns b projection of
      Inl e \<Rightarrow> \<exists>t \<in> set projection. e = ColumnNotFound t \<and> batch_column b t = None
    | Inr b' \<Rightarrow> batch_ok b' \<and> map fst (rb_columns b') = projection \<and>
        batch_rows b' = map (\<lambda>row. map (\<lambda>t. (t, the (row_cell row t))) projection) (batch_rows b)"
proof (cases "select_list b projection")
  case (Inl e)
  then have "\<exists>t \<in> set projection. e = ColumnNotFound t \<and> batch_column b t = None"
    by (induction projection) (auto simp: rbind_Inl_iff split: option.splits)
  then show ?thesis using Inl by (simp add: select_columns_def rbind_def)
next
  case (Inr cols)
  have sel: "map fst cols = projection" "list_all (\<lambda>(_, col). column_ok col \<and> col_len col = row_count b) cols"
    "row_at cols i = map (\<lambda>t. (t, the (row_cell (row_at (rb_columns b) i) t))) projection" for i
    using select_list_ok [OF assms(1) Inr] by blast+
  have "cols \<noteq> []" using sel(1) assms(2) by auto
  then have "batch_new cols = Inr \<lparr>rb_columns = cols, row_count = row_count b\<rparr>"
    "batch_ok \<lparr>rb_columns = cols, row_count = row_count b\<rparr>"
    using batch_new_ok [OF sel(2)] by auto
  then show ?thesis using Inr sel by (simp add: select_columns_def rbind_def batch_rows_def)
qed

section \<open>The merge join is the nested loop\<close>

definition nested_loop :: "(i64 \<times> nat) list \<Rightarrow> (i64 \<times> nat) list \<Rightarrow> (nat \<times> nat) list" where
  "nested_loop ls rs = concat (map (\<lambda>l. map (\<lambda>r. (snd l, snd r)) (List.filter (\<lambda>r. fst r = fst l) rs)) ls)"

abbreviation sorted_rows :: "(i64 \<times> nat) list \<Rightarrow> bool" where
  "sorted_rows xs \<equiv> sorted (map (\<lambda>x. sint (fst x)) xs)"

lemma filter_takeWhile:
  assumes "sorted_rows rs" "\<forall>r \<in> set rs. sint k \<le> sint (fst r)"
  shows "List.filter (\<lambda>r. fst r = k) rs = takeWhile (\<lambda>r. fst r = k) rs"
  using assms
proof (induction rs)
  case (Cons r rs)
  show ?case
  proof (cases "fst r = k")
    case False
    then have "sint k < sint (fst r)" using Cons.prems(2) i64_eq_sint [of k "fst r"] by force
    then have "\<forall>x \<in> set (r # rs). fst x \<noteq> k" using Cons.prems(1) by fastforce
    then show ?thesis using False by (simp add: filter_empty_conv)
  qed (use Cons in auto)
qed simp

lemma dropWhile_larger:
  assumes "sorted_rows xs" "\<forall>x \<in> set xs. sint k \<le> sint (fst x)"
  shows "\<forall>x \<in> set (dropWhile (\<lambda>x. fst x = k) xs). sint k < sint (fst x)"
  using assms
proof (induction xs)
  case (Cons x xs)
  show ?case
  proof (cases "fst x = k")
    case False
    then have "sint k < sint (fst x)" using Cons.prems(2) i64_eq_sint [of k "fst x"] by force
    then show ?thesis using Cons.prems(1) False by fastforce
  qed (use Cons in auto)
qed simp

lemma sorted_dropWhile_rows: "sorted_rows xs \<Longrightarrow> sorted_rows (dropWhile P xs)"
  by (metis dropWhile_eq_drop drop_map sorted_wrt_drop)

lemma nested_split:
  assumes "\<And>y. y \<in> set lt \<Longrightarrow> List.filter (\<lambda>x. fst x = fst y) rs = rt"
    and "\<And>y. y \<in> set ld \<Longrightarrow> List.filter (\<lambda>x. fst x = fst y) rs = List.filter (\<lambda>x. fst x = fst y) rd"
  shows "nested_loop (lt @ ld) rs = concat (map (\<lambda>y. map (\<lambda>x. (snd y, snd x)) rt) lt) @ nested_loop ld rd"
  using assms by (simp add: nested_loop_def cong: map_cong)

lemma merge_loop_nested: "sorted_rows ls \<Longrightarrow> sorted_rows rs \<Longrightarrow> merge_loop ls rs = nested_loop ls rs"
proof (induction ls rs rule: merge_loop.induct)
  case (3 l ls r rs)
  have ls: "\<forall>x \<in> set (l # ls). sint (fst l) \<le> sint (fst x)" and rs: "\<forall>x \<in> set (r # rs). sint (fst r) \<le> sint (fst x)"
    using "3.prems" by auto
  consider "sint (fst l) < sint (fst r)" | "sint (fst r) < sint (fst l)" | "sint (fst l) = sint (fst r)" by linarith
  then show ?case
  proof cases
    case 1
    then have "List.filter (\<lambda>x. fst x = fst l) (r # rs) = []" using rs by (force simp: filter_empty_conv)
    then show ?thesis using 1 "3.IH"(1) "3.prems" by (simp add: nested_loop_def)
  next
    case 2
    then have "\<forall>x \<in> set (l # ls). fst r \<noteq> fst x" using ls by force
    then have "nested_loop (l # ls) (r # rs) = nested_loop (l # ls) rs"
      by (simp add: nested_loop_def cong: map_cong)
    then show ?thesis using 2 "3.IH"(2) "3.prems" by simp
  next
    case 3
    then have k: "fst l = fst r" using i64_eq_sint by metis
    let ?P = "\<lambda>x :: i64 \<times> nat. fst x = fst r"
    let ?lt = "takeWhile ?P (l # ls)" and ?ld = "dropWhile ?P (l # ls)"
    let ?rt = "takeWhile ?P (r # rs)" and ?rd = "dropWhile ?P (r # rs)"
    have IH: "merge_loop ?ld ?rd = nested_loop ?ld ?rd"
      using "3.IH"(3) 3 k sorted_dropWhile_rows "3.prems" by simp
    have run: "List.filter (\<lambda>x. fst x = fst y) (r # rs) = ?rt" if "y \<in> set ?lt" for y
      using filter_takeWhile [OF "3.prems"(2) rs] set_takeWhileD [OF that] by simp
    have rest: "List.filter (\<lambda>x. fst x = fst y) (r # rs) = List.filter (\<lambda>x. fst x = fst y) ?rd"
      if "y \<in> set ?ld" for y
    proof -
      have "sint (fst r) < sint (fst y)"
        using dropWhile_larger [OF "3.prems"(1)] ls k that by auto
      then have "\<forall>x \<in> set ?rt. fst x \<noteq> fst y" by (auto dest: set_takeWhileD)
      then have "List.filter (\<lambda>x. fst x = fst y) ?rt = []" by (simp add: filter_empty_conv)
      then show ?thesis using filter_append [of "\<lambda>x. fst x = fst y" ?rt ?rd] takeWhile_dropWhile_id [of ?P "r # rs"] by simp
    qed
    have "nested_loop (l # ls) (r # rs) = nested_loop (?lt @ ?ld) (r # rs)" by (simp only: takeWhile_dropWhile_id)
    also have "\<dots> = concat (map (\<lambda>y. map (\<lambda>x. (snd y, snd x)) ?rt) ?lt) @ nested_loop ?ld ?rd"
      by (rule nested_split [OF run rest])
    also have "\<dots> = merge_loop (l # ls) (r # rs)"
      unfolding IH [symmetric] using 3 k by (simp add: case_prod_beta')
    finally show ?thesis by (rule sym)
  qed
qed (simp_all add: nested_loop_def)

text \<open>Up to their order, the matches of the join are the pairs of rows with equal keys.\<close>

definition join_pairs :: "i64 option list \<Rightarrow> i64 option list \<Rightarrow> (nat \<times> nat) list" where
  "join_pairs left_ids right_ids =
     concat (map (\<lambda>i. map (Pair i) (List.filter (\<lambda>j. left_ids ! i \<noteq> None \<and> left_ids ! i = right_ids ! j)
       [0..<length right_ids])) [0..<length left_ids])"

lemma mset_concat_map: "mset (concat (map f xs)) = (\<Sum>x \<in># mset xs. mset (f x))"
  by (induction xs) simp_all

lemma nested_loop_mset:
  assumes "mset ls = mset ls'" "mset rs = mset rs'"
  shows "mset (nested_loop ls rs) = mset (nested_loop ls' rs')"
  using assms by (simp add: nested_loop_def mset_concat_map)

lemma keyed_rows_eq:
  "keyed_rows ids = map (\<lambda>i. (the (ids ! i), i)) (List.filter (\<lambda>i. ids ! i \<noteq> None) [0..<length ids])"
proof (induction ids rule: rev_induct)
  case (snoc k ids)
  have "keyed_rows (ids @ [k]) = keyed_rows ids @ (case k of None \<Rightarrow> [] | Some v \<Rightarrow> [(v, length ids)])"
    by (simp add: keyed_rows_def enumerate_append_eq)
  moreover have "List.filter (\<lambda>i. (ids @ [k]) ! i \<noteq> None) [0..<length ids] = List.filter (\<lambda>i. ids ! i \<noteq> None) [0..<length ids]"
    by (rule filter_cong) (auto simp: nth_append)
  ultimately show ?case using snoc by (auto simp: nth_append split: option.splits)
qed (simp add: keyed_rows_def)

lemma nested_keyed: "nested_loop (keyed_rows a) (keyed_rows b) = join_pairs a b"
proof -
  have row: "map (\<lambda>r. (i, snd r)) (List.filter (\<lambda>r. fst r = the (a ! i)) (keyed_rows b)) =
      map (Pair i) (List.filter (\<lambda>j. a ! i \<noteq> None \<and> a ! i = b ! j) [0..<length b])" if "a ! i \<noteq> None" for i
  proof -
    have "b ! j \<noteq> None \<and> the (b ! j) = the (a ! i) \<longleftrightarrow> a ! i = b ! j" for j using that by (cases "b ! j") auto
    then show ?thesis using that by (simp add: keyed_rows_eq filter_map comp_def conj_commute)
  qed
  have "concat (map (\<lambda>i. map (\<lambda>r. (i, snd r)) (List.filter (\<lambda>r. fst r = the (a ! i)) (keyed_rows b)))
      (List.filter (\<lambda>i. a ! i \<noteq> None) xs)) =
    concat (map (\<lambda>i. map (Pair i) (List.filter (\<lambda>j. a ! i \<noteq> None \<and> a ! i = b ! j) [0..<length b])) xs)" for xs
    by (induction xs) (auto simp: row)
  then show ?thesis
    unfolding nested_loop_def join_pairs_def by (simp add: keyed_rows_eq [of a] comp_def)
qed

lemma sort_rows_ok: "sorted_rows (sort_rows xs)" "mset (sort_rows xs) = mset xs"
proof -
  show "sorted_rows (sort_rows xs)"
    using sorted_sort_key [of "\<lambda>x. sint (fst x)" xs] by (simp add: sort_rows_def case_prod_beta')
qed (simp add: sort_rows_def)

lemma merge_matches:
  "mset (merge_loop (sort_rows (keyed_rows a)) (sort_rows (keyed_rows b))) = mset (join_pairs a b)"
  unfolding merge_loop_nested [OF sort_rows_ok(1) sort_rows_ok(1)] nested_keyed [symmetric]
  by (rule nested_loop_mset) (rule sort_rows_ok(2))+

lemma text_bytes_mset: "mset xs = mset ys \<Longrightarrow> text_bytes xs = text_bytes ys"
proof -
  assume eq: "mset xs = mset ys"
  have "text_bytes zs = (\<Sum>v \<in># mset zs. case v of None \<Rightarrow> 0 | Some s \<Rightarrow> length s)" for zs
    by (induction zs) (simp_all add: text_bytes_def)
  with eq show ?thesis by simp
qed

lemma taken_fits_mset: "mset xs = mset ys \<Longrightarrow> taken_fits col xs = taken_fits col ys"
proof -
  assume eq: "mset xs = mset ys"
  have "text_bytes (map f xs) = text_bytes (map f ys)" for f using eq by (intro text_bytes_mset) simp
  then show ?thesis by (cases col) (simp_all add: taken_fits_def)
qed

definition prefix_row :: "string \<Rightarrow> row \<Rightarrow> row" where
  "prefix_row s row = map (\<lambda>(name, c). (s @ name, c)) row"

definition same_key :: "string \<Rightarrow> string \<Rightarrow> row \<Rightarrow> row \<Rightarrow> bool" where
  "same_key left_key right_key l r =
     (case (row_cell l left_key, row_cell r right_key) of
        (Some (Some a), Some (Some b)) \<Rightarrow> a = b | _ \<Rightarrow> False)"

definition join_rows :: "string \<Rightarrow> string \<Rightarrow> row list \<Rightarrow> row list \<Rightarrow> row list" where
  "join_rows left_key right_key ls rs =
     concat (map (\<lambda>l. map (\<lambda>r. prefix_row ''left.'' l @ prefix_row ''right.'' r)
       (List.filter (same_key left_key right_key l) rs)) ls)"

definition join_fits :: "record_batch \<Rightarrow> record_batch \<Rightarrow> i64 option list \<Rightarrow> i64 option list \<Rightarrow> bool" where
  "join_fits left right left_ids right_ids \<longleftrightarrow>
     list_all (\<lambda>(_, col). taken_fits col (map fst (join_pairs left_ids right_ids))) (rb_columns left) \<and>
     list_all (\<lambda>(_, col). taken_fits col (map snd (join_pairs left_ids right_ids))) (rb_columns right)"

lemma join_rows_pairs:
  assumes "batch_column left lk = Some (Int64 a)" "batch_column right rk = Some (Int64 b)"
    and "length a = row_count left" "length b = row_count right"
  shows "join_rows lk rk (batch_rows left) (batch_rows right) =
    map (\<lambda>(i, j). prefix_row ''left.'' (batch_rows left ! i) @ prefix_row ''right.'' (batch_rows right ! j)) (join_pairs a b)"
proof -
  have key: "same_key lk rk (row_at (rb_columns left) i) (row_at (rb_columns right) j) \<longleftrightarrow> a ! i \<noteq> None \<and> a ! i = b ! j"
    if "i < row_count left" "j < row_count right" for i j
    using that assms by (auto simp: same_key_def row_cell_row_at split: option.splits)
  have "map (\<lambda>r. prefix_row ''left.'' (row_at (rb_columns left) i) @ prefix_row ''right.'' r)
      (List.filter (same_key lk rk (row_at (rb_columns left) i)) (batch_rows right)) =
    map (\<lambda>(i, j). prefix_row ''left.'' (batch_rows left ! i) @ prefix_row ''right.'' (batch_rows right ! j))
      (map (Pair i) (List.filter (\<lambda>j. a ! i \<noteq> None \<and> a ! i = b ! j) [0..<length b]))"
    if i: "i < row_count left" for i
  proof -
    have "List.filter (same_key lk rk (row_at (rb_columns left) i)) (batch_rows right) =
        map (row_at (rb_columns right)) (List.filter (\<lambda>j. a ! i \<noteq> None \<and> a ! i = b ! j) [0..<length b])"
      unfolding batch_rows_def filter_map comp_def assms(4)
      by (rule arg_cong [of _ _ "map _"], rule filter_cong) (simp_all add: key [OF i])
    then show ?thesis using i assms(4) by (auto simp: batch_rows_def)
  qed
  then have "map (\<lambda>i. map (\<lambda>r. prefix_row ''left.'' (row_at (rb_columns left) i) @ prefix_row ''right.'' r)
      (List.filter (same_key lk rk (row_at (rb_columns left) i)) (batch_rows right))) [0..<row_count left] =
    map (\<lambda>i. map (\<lambda>(i, j). prefix_row ''left.'' (batch_rows left ! i) @ prefix_row ''right.'' (batch_rows right ! j))
      (map (Pair i) (List.filter (\<lambda>j. a ! i \<noteq> None \<and> a ! i = b ! j) [0..<length b]))) [0..<row_count left]"
    by (intro map_cong) auto
  note rows = this
  have "join_rows lk rk (batch_rows left) (batch_rows right) =
      concat (map (\<lambda>i. map (\<lambda>r. prefix_row ''left.'' (row_at (rb_columns left) i) @ prefix_row ''right.'' r)
        (List.filter (same_key lk rk (row_at (rb_columns left) i)) (batch_rows right))) [0..<row_count left])"
    unfolding join_rows_def batch_rows_def [of left] map_map comp_def ..
  then show ?thesis unfolding rows join_pairs_def assms(3) map_concat map_map comp_def .
qed

lemma join_pairs_bound: "(i, j) \<in> set (join_pairs a b) \<Longrightarrow> i < length a \<and> j < length b"
  by (auto simp: join_pairs_def)

lemma row_at_prefix: "row_at (map (\<lambda>(name, col). (s @ name, col)) cols) k = prefix_row s (row_at cols k)"
  by (simp add: row_at_def prefix_row_def case_prod_beta comp_def)

lemma row_at_append: "row_at (xs @ ys) k = row_at xs k @ row_at ys k"
  by (simp add: row_at_def)

lemma sort_merge_join_ok:
  assumes ok: "batch_ok left" "batch_ok right"
    and keys: "batch_column left lk = Some (Int64 a)" "batch_column right rk = Some (Int64 b)"
    and fits: "join_fits left right a b"
  shows "\<exists>j. sort_merge_join left right lk rk = Some (Inr j) \<and> batch_ok j \<and>
    batch_schema j = map (apfst ((@) ''left.'')) (batch_schema left) @ map (apfst ((@) ''right.'')) (batch_schema right) \<and>
    mset (batch_rows j) = mset (join_rows lk rk (batch_rows left) (batch_rows right))"
proof -
  let ?m = "merge_loop (sort_rows (keyed_rows a)) (sort_rows (keyed_rows b))"
  have len: "length a = row_count left" "length b = row_count right"
    using batch_column_ok(2) [OF ok(1) keys(1)] batch_column_ok(2) [OF ok(2) keys(2)] by simp_all
  have m: "mset ?m = mset (join_pairs a b)" by (rule merge_matches)
  have bound: "\<forall>i \<in> set (map fst ?m). i < row_count left" "\<forall>i \<in> set (map snd ?m). i < row_count right"
    unfolding set_map mset_eq_setD [OF m] len [symmetric] by (auto dest!: join_pairs_bound)
  have fit: "taken_fits col (map fst ?m) = taken_fits col (map fst (join_pairs a b))"
    "taken_fits col (map snd ?m) = taken_fits col (map snd (join_pairs a b))" for col
    by (rule taken_fits_mset, simp only: mset_map m)+
  have "list_all (\<lambda>(_, col). column_ok col \<and> col_len col = row_count left \<and> taken_fits col (map fst ?m)) (rb_columns left)"
    "list_all (\<lambda>(_, col). column_ok col \<and> col_len col = row_count right \<and> taken_fits col (map snd ?m)) (rb_columns right)"
    using ok fits unfolding fit batch_ok_def join_fits_def list_all_iff by auto
  from take_columns_ok [OF this(1) bound(1)] take_columns_ok [OF this(2) bound(2)]
  obtain lc rc where l: "take_columns (rb_columns left) (map fst ?m) = Some lc"
      "map (apsnd col_type) lc = map (apsnd col_type) (rb_columns left)"
      "list_all (\<lambda>(_, col). column_ok col \<and> col_len col = length ?m) lc"
      "\<forall>k < length ?m. row_at lc k = row_at (rb_columns left) (map fst ?m ! k)"
    and r: "take_columns (rb_columns right) (map snd ?m) = Some rc"
      "map (apsnd col_type) rc = map (apsnd col_type) (rb_columns right)"
      "list_all (\<lambda>(_, col). column_ok col \<and> col_len col = length ?m) rc"
      "\<forall>k < length ?m. row_at rc k = row_at (rb_columns right) (map snd ?m ! k)"
    by auto
  let ?cols = "map (\<lambda>(name, col). (''left.'' @ name, col)) lc @ map (\<lambda>(name, col). (''right.'' @ name, col)) rc"
  have "lc \<noteq> []" using l(2) keys(1) by (auto simp: batch_column_def)
  moreover have "list_all (\<lambda>(_, col). column_ok col \<and> col_len col = length ?m) ?cols"
    using l(3) r(3) by (auto simp: list_all_iff)
  ultimately have new: "batch_new ?cols = Inr \<lparr>rb_columns = ?cols, row_count = length ?m\<rparr>"
    "batch_ok \<lparr>rb_columns = ?cols, row_count = length ?m\<rparr>"
    using batch_new_ok [of "length ?m" ?cols] by auto
  have rows: "batch_rows \<lparr>rb_columns = ?cols, row_count = length ?m\<rparr> =
      map (\<lambda>(i, j). prefix_row ''left.'' (batch_rows left ! i) @ prefix_row ''right.'' (batch_rows right ! j)) ?m"
  proof (rule nth_equalityI)
    fix k assume "k < length (batch_rows \<lparr>rb_columns = ?cols, row_count = length ?m\<rparr>)"
    then have k: "k < length ?m" by simp
    obtain i j where ij: "?m ! k = (i, j)" by (cases "?m ! k")
    then have lt: "i < row_count left" "j < row_count right" using bound nth_mem [OF k] by auto
    have "row_at ?cols k = prefix_row ''left.'' (row_at (rb_columns left) i) @ prefix_row ''right.'' (row_at (rb_columns right) j)"
      unfolding row_at_append row_at_prefix using l(4) r(4) k ij by simp
    then show "batch_rows \<lparr>rb_columns = ?cols, row_count = length ?m\<rparr> ! k = map (\<lambda>(i, j).
        prefix_row ''left.'' (batch_rows left ! i) @ prefix_row ''right.'' (batch_rows right ! j)) ?m ! k"
      using k ij lt by (simp add: batch_rows_def)
  qed simp
  have schema: "map (apsnd col_type) (map (\<lambda>(name, col). (s @ name, col)) cs) = map (apfst ((@) s)) (map (apsnd col_type) cs)"
    for s cs by (simp add: case_prod_beta comp_def)
  have "batch_schema \<lparr>rb_columns = ?cols, row_count = length ?m\<rparr> =
      map (apfst ((@) ''left.'')) (batch_schema left) @ map (apfst ((@) ''right.'')) (batch_schema right)"
    unfolding batch_schema_def by (simp only: record_batch.simps map_append schema l(2) r(2))
  moreover have "sort_merge_join left right lk rk = Some (Inr \<lparr>rb_columns = ?cols, row_count = length ?m\<rparr>)"
    unfolding sort_merge_join_def using keys l(1) r(1) new(1) by (simp add: Let_def)
  moreover have "mset (batch_rows \<lparr>rb_columns = ?cols, row_count = length ?m\<rparr>) =
      mset (join_rows lk rk (batch_rows left) (batch_rows right))"
    unfolding rows join_rows_pairs [OF keys len] mset_map m ..
  ultimately show ?thesis using new(2) by blast
qed

section \<open>The scan\<close>

definition scan_rows ::
  "predicate option \<Rightarrow> string list option \<Rightarrow> nat option \<Rightarrow> row list \<Rightarrow> row list" where
  "scan_rows predicate projection limit rows =
     (let filtered = (case predicate of None \<Rightarrow> rows | Some p \<Rightarrow> List.filter (row_matches p) rows);
          projected = (case projection of
             None \<Rightarrow> filtered
           | Some cols \<Rightarrow> if cols = [] then filtered
               else map (\<lambda>row. map (\<lambda>t. (t, the (row_cell row t))) cols) filtered)
      in case limit of None \<Rightarrow> projected | Some n \<Rightarrow> take n projected)"

definition scan_refused ::
  "record_batch \<Rightarrow> predicate option \<Rightarrow> string list option \<Rightarrow> exec_error \<Rightarrow> bool" where
  "scan_refused b predicate projection e =
     (case e of
        BatchOverflow n \<Rightarrow> predicate \<noteq> None \<and> n = row_count b \<and> 10000000 < n
      | ColumnTypeMismatch c \<Rightarrow>
          (case predicate of None \<Rightarrow> False
           | Some p \<Rightarrow> c = pred_column p \<and>
               (case batch_column b c of None \<Rightarrow> True | Some col \<Rightarrow> \<not> accepts p (col_type col)))
      | ColumnNotFound t \<Rightarrow>
          (case projection of None \<Rightarrow> False | Some cols \<Rightarrow> t \<in> set cols \<and> batch_column b t = None)
      | _ \<Rightarrow> False)"

lemma batch_column_schema:
  assumes "batch_schema a = batch_schema b"
  shows "batch_column a t = None \<longleftrightarrow> batch_column b t = None"
proof -
  have "batch_column c t = None \<longleftrightarrow> (\<forall>n \<in> fst ` set (batch_schema c). \<not> eq_ignore_ascii_case n t)" for c
    by (auto simp: batch_column_def find_None_iff batch_schema_def image_image)
  with assms show ?thesis by simp
qed

lemma batch_filter_total:
  assumes "batch_ok b"
  shows "case batch_filter b p of None \<Rightarrow> False
    | Some (Inl e) \<Rightarrow> scan_refused b (Some p) projection e
    | Some (Inr b') \<Rightarrow> batch_ok b' \<and> batch_schema b' = batch_schema b \<and>
        batch_rows b' = List.filter (row_matches p) (batch_rows b)"
proof (cases "row_count b \<le> 10000000")
  case small: True
  show ?thesis
  proof (cases "case batch_column b (pred_column p) of None \<Rightarrow> True | Some col \<Rightarrow> \<not> accepts p (col_type col)")
    case True
    then show ?thesis
      using small filter_mask_mismatch [OF True] by (simp add: batch_filter_def scan_refused_def)
  next
    case False
    then obtain col where "batch_column b (pred_column p) = Some col" "accepts p (col_type col)"
      by (auto split: option.splits)
    from batch_filter_ok [OF assms small this]
    obtain b' where "batch_filter b p = Some (Inr b')" "batch_ok b'" "batch_schema b' = batch_schema b"
      "batch_rows b' = List.filter (row_matches p) (batch_rows b)" by blast
    then show ?thesis by simp
  qed
qed (simp add: batch_filter_def scan_refused_def)

lemma table_scan_total:
  assumes ok: "batch_ok b"
  shows "case table_scan b predicate projection limit of None \<Rightarrow> False
    | Some (Inl e) \<Rightarrow> scan_refused b predicate projection e
    | Some (Inr b') \<Rightarrow> batch_ok b' \<and>
        batch_rows b' = scan_rows predicate projection limit (batch_rows b)"
proof -
  let ?f = "case predicate of None \<Rightarrow> Some (Inr b) | Some p \<Rightarrow> batch_filter b p"
  have f: "case ?f of None \<Rightarrow> False | Some (Inl e) \<Rightarrow> scan_refused b predicate projection e
    | Some (Inr b1) \<Rightarrow> batch_ok b1 \<and> batch_schema b1 = batch_schema b \<and>
        batch_rows b1 = (case predicate of None \<Rightarrow> batch_rows b | Some p \<Rightarrow> List.filter (row_matches p) (batch_rows b))"
  proof (cases predicate)
    case (Some p)
    then show ?thesis using batch_filter_total [OF ok, of p projection] by (simp only: option.case)
  qed (simp add: ok)
  then consider e where "?f = Some (Inl e)" "scan_refused b predicate projection e"
    | b1 where "?f = Some (Inr b1)" "batch_ok b1" "batch_schema b1 = batch_schema b"
      "batch_rows b1 = (case predicate of None \<Rightarrow> batch_rows b | Some p \<Rightarrow> List.filter (row_matches p) (batch_rows b))"
    by (cases ?f) (auto split: sum.splits)
  then show ?thesis
  proof cases
    case 1
    then show ?thesis by (simp add: table_scan_def)
  next
    case 2
    let ?p = "case projection of None \<Rightarrow> Inr b1 | Some cols \<Rightarrow> if cols = [] then Inr b1 else select_columns b1 cols"
    have p: "case ?p of Inl e \<Rightarrow> scan_refused b predicate projection e
      | Inr b2 \<Rightarrow> batch_ok b2 \<and> batch_rows b2 = scan_rows predicate projection None (batch_rows b)"
    proof (cases "projection = None \<or> projection = Some []")
      case True
      then show ?thesis using 2 by (auto simp: scan_rows_def)
    next
      case False
      then obtain cols where cols: "projection = Some cols" "cols \<noteq> []" by auto
      show ?thesis
        using select_columns_ok [OF 2(2) cols(2)] cols 2(4) batch_column_schema [OF 2(3)]
        by (auto simp: scan_rows_def scan_refused_def split: sum.splits)
    qed
    show ?thesis
    proof (cases ?p)
      case (Inl e)
      then show ?thesis using p 2(1) by (simp add: table_scan_def)
    next
      case (Inr b2)
      then have b2: "batch_ok b2" "batch_rows b2 = scan_rows predicate projection None (batch_rows b)" using p by simp_all
      show ?thesis
      proof (cases limit)
        case None
        then show ?thesis using 2(1) Inr b2 by (simp add: table_scan_def)
      next
        case (Some n)
        obtain b3 where "with_limit b2 n = Some (Inr b3)" "batch_ok b3" "batch_rows b3 = take n (batch_rows b2)"
          using with_limit_ok [OF b2(1)] by metis
        then show ?thesis using Some 2(1) Inr b2(2) by (simp add: table_scan_def scan_rows_def Let_def)
      qed
    qed
  qed
qed

section \<open>Properties\<close>

definition sample_batch :: record_batch where
  "sample_batch = \<lparr>rb_columns = [(''id'', Int64 [Some 1, None, Some 3]),
     (''name'', Utf8 (from_options [Some ''a'', Some ''b'', None]))], row_count = 3\<rparr>"

lemma sample_batch_ok: "batch_ok sample_batch"
  by code_simp

text \<open>C22. A scan of a well-formed batch never panics. It is refused only for a batch of more than ten
  million rows under a predicate, for a predicate column that is missing or of another type, or for a
  projection column that is missing; otherwise its rows are those that match the predicate, in their
  order, cut down to the projection and to the limit, in a well-formed batch again. A null cell never
  matches.\<close>

theorem table_scan_correct:
  assumes "batch_ok b"
  shows "case table_scan b predicate projection limit of None \<Rightarrow> False
    | Some (Inl e) \<Rightarrow> scan_refused b predicate projection e
    | Some (Inr b') \<Rightarrow> batch_ok b' \<and>
        batch_rows b' = scan_rows predicate projection limit (batch_rows b)"
  by (rule table_scan_total [OF assms])

theorem table_scan_correct_witness:
  "map_option (map_sum id batch_rows) (table_scan sample_batch (Some (GtI64 ''ID'' 1)) (Some [''name'', ''id'']) (Some 5)) =
   Some (Inr [[(''name'', None), (''id'', Some (CI64 3))]])"
proof -
  have "map_option is_ok (table_scan sample_batch (Some (GtI64 ''ID'' 1)) (Some [''name'', ''id'']) (Some 5)) = Some True"
    by code_simp
  moreover have "scan_rows (Some (GtI64 ''ID'' 1)) (Some [''name'', ''id'']) (Some 5) (batch_rows sample_batch) =
      [[(''name'', None), (''id'', Some (CI64 3))]]"
    by code_simp
  ultimately show ?thesis
    using table_scan_correct [OF sample_batch_ok, of "Some (GtI64 ''ID'' 1)" "Some [''name'', ''id'']" "Some 5"]
    by (auto simp: is_ok_def split: option.splits sum.splits)
qed

text \<open>C23. The sort-merge join is the nested-loop join: up to their order its rows are the pairs of a
  left and a right row whose keys are equal and not null, each pair once, with the columns prefixed
  by \<open>left.\<close> and \<open>right.\<close>, and it neither panics nor fails while each joined text column stays below
  4 GiB.\<close>

theorem join_is_nested_loop:
  assumes "batch_ok left" "batch_ok right"
    and "batch_column left lk = Some (Int64 a)" "batch_column right rk = Some (Int64 b)"
    and "join_fits left right a b"
  shows "\<exists>j. sort_merge_join left right lk rk = Some (Inr j) \<and> batch_ok j \<and>
    batch_schema j = map (apfst ((@) ''left.'')) (batch_schema left) @ map (apfst ((@) ''right.'')) (batch_schema right) \<and>
    mset (batch_rows j) = mset (join_rows lk rk (batch_rows left) (batch_rows right))"
  by (rule sort_merge_join_ok [OF assms])

theorem join_is_nested_loop_witness:
  "\<exists>j. sort_merge_join sample_batch sample_batch ''id'' ''id'' = Some (Inr j) \<and>
    mset (batch_rows j) = mset (join_rows ''id'' ''id'' (batch_rows sample_batch) (batch_rows sample_batch)) \<and>
    length (join_rows ''id'' ''id'' (batch_rows sample_batch) (batch_rows sample_batch)) = 2"
proof -
  have "batch_column sample_batch ''id'' = Some (Int64 [Some 1, None, Some 3])" by code_simp
  moreover have "join_fits sample_batch sample_batch [Some 1, None, Some 3] [Some 1, None, Some 3]" by code_simp
  moreover have "length (join_rows ''id'' ''id'' (batch_rows sample_batch) (batch_rows sample_batch)) = 2" by code_simp
  ultimately show ?thesis
    using join_is_nested_loop [OF sample_batch_ok sample_batch_ok, of "''id''" _ "''id''"] by blast
qed

end
