(* ===== verification/Scheduler.thy ===== *)
theory Scheduler
  imports Nb_Prelude "HOL-Library.Multiset"
begin

text \<open>
  The morsel scheduler of \<open>scheduler.rs\<close>: a range of rows is cut into morsels, worker threads take
  them from a shared injector, from their own queue or from one another, and the chunks they produce
  are put back into the order of the rows.

  A worker step is a step of the relation \<open>sched_step\<close>. The queues are those of \<open>crossbeam-deque\<close>,
  with its documented behaviour: a steal from the injector moves a batch of any size to the queue of
  the worker and pops the first one; every range is taken by exactly one worker. A retry of a steal
  is no step. A task that panics leaves \<open>None\<close>, which makes the call panic.

  The lemmas show that no run gets stuck or goes on forever, and that whatever the interleaving the
  result is that of the tasks in row order.
\<close>

section \<open>The model\<close>

record scheduler =
  morsel_size :: nat
  worker_threads :: nat

definition scheduler_with_workers :: "nat \<Rightarrow> nat \<Rightarrow> scheduler" where
  "scheduler_with_workers msize workers = \<lparr>morsel_size = max msize 1, worker_threads = max workers 1\<rparr>"

partial_function (option) morsels :: "nat \<Rightarrow> nat \<Rightarrow> nat \<Rightarrow> (nat \<times> nat) list option" where
  "morsels msize total_len start =
     (if start < total_len
      then let end' = min (start + msize) total_len in Option.bind (morsels msize total_len end') (\<lambda>ms. Some ((start, end') # ms))
      else Some [])"

declare morsels.simps [code]

record 'r sched =
  sc_injector :: "(nat \<times> nat) list"
  sc_queues :: "(nat \<times> nat) list list"
  sc_running :: "(nat \<times> nat) option list"
  sc_exited :: "bool list"
  sc_results :: "(nat \<times> 'r) list"

definition sched_init :: "nat \<Rightarrow> (nat \<times> nat) list \<Rightarrow> 'r sched" where
  "sched_init workers ms =
     \<lparr>sc_injector = ms, sc_queues = replicate workers [], sc_running = replicate workers None,
      sc_exited = replicate workers False, sc_results = []\<rparr>"

definition sched_idle :: "'r sched \<Rightarrow> nat \<Rightarrow> bool" where
  "sched_idle s w \<longleftrightarrow> w < length (sc_exited s) \<and> \<not> sc_exited s ! w \<and> sc_running s ! w = None"

inductive sched_step :: "(nat \<times> nat \<Rightarrow> 'r) \<Rightarrow> 'r sched \<Rightarrow> 'r sched \<Rightarrow> bool" for task where
  pop: "sched_idle s w \<Longrightarrow> sc_queues s ! w = m # q \<Longrightarrow>
    sched_step task s (s\<lparr>sc_queues := (sc_queues s)[w := q], sc_running := (sc_running s)[w := Some m]\<rparr>)"
| steal_batch: "sched_idle s w \<Longrightarrow> sc_queues s ! w = [] \<Longrightarrow> sc_injector s = m # batch @ rest \<Longrightarrow>
    sched_step task s (s\<lparr>sc_injector := rest, sc_queues := (sc_queues s)[w := batch],
      sc_running := (sc_running s)[w := Some m]\<rparr>)"
| steal: "sched_idle s w \<Longrightarrow> sc_queues s ! w = [] \<Longrightarrow> sc_injector s = [] \<Longrightarrow>
    v < length (sc_queues s) \<Longrightarrow> sc_queues s ! v = m # q \<Longrightarrow>
    sched_step task s (s\<lparr>sc_queues := (sc_queues s)[v := q], sc_running := (sc_running s)[w := Some m]\<rparr>)"
| finish: "w < length (sc_running s) \<Longrightarrow> sc_running s ! w = Some m \<Longrightarrow>
    sched_step task s (s\<lparr>sc_running := (sc_running s)[w := None],
      sc_results := sc_results s @ [(fst m, task m)]\<rparr>)"
| leave: "sched_idle s w \<Longrightarrow> sc_queues s ! w = [] \<Longrightarrow> sc_injector s = [] \<Longrightarrow>
    sched_step task s (s\<lparr>sc_exited := (sc_exited s)[w := True]\<rparr>)"

definition all_exited :: "'r sched \<Rightarrow> bool" where
  "all_exited s \<longleftrightarrow> list_all id (sc_exited s)"

definition collect_chunks :: "'r list option sched \<Rightarrow> 'r list option" where
  "collect_chunks s = map_option concat (those (map snd (sort_key fst (sc_results s))))"

text \<open>The results a call can return, \<open>None\<close> for a panic.\<close>

inductive parallel_map_ranges ::
  "scheduler \<Rightarrow> nat \<Rightarrow> (nat \<times> nat \<Rightarrow> 'r list option) \<Rightarrow> 'r list option \<Rightarrow> bool" where
  empty: "parallel_map_ranges sch 0 task (Some [])"
| run: "0 < total_len \<Longrightarrow> morsels (morsel_size sch) total_len 0 = Some ms \<Longrightarrow>
    (sched_step task)\<^sup>*\<^sup>* (sched_init (worker_threads sch) ms) s \<Longrightarrow> all_exited s \<Longrightarrow>
    parallel_map_ranges sch total_len task (collect_chunks s)"

section \<open>Morsels\<close>

lemma morsels_ok:
  assumes "0 < msize"
  shows "\<exists>ms. morsels msize total_len start = Some ms \<and> sorted_wrt (<) (map fst ms) \<and>
    (\<forall>m \<in> set ms. start \<le> fst m \<and> snd m \<le> total_len) \<and> concat (map (\<lambda>(a, b). [a..<b]) ms) = [start..<total_len]"
proof (induction "total_len - start" arbitrary: start rule: less_induct)
  case less
  show ?case
  proof (cases "start < total_len")
    case True
    let ?e = "min (start + msize) total_len"
    have "total_len - ?e < total_len - start" using True assms by linarith
    from less [OF this] obtain ms where ms: "morsels msize total_len ?e = Some ms" "sorted_wrt (<) (map fst ms)"
      "\<forall>m \<in> set ms. ?e \<le> fst m \<and> snd m \<le> total_len" "concat (map (\<lambda>(a, b). [a..<b]) ms) = [?e..<total_len]" by auto
    have "morsels msize total_len start = Some ((start, ?e) # ms)"
      using True ms(1) by (subst morsels.simps) (simp add: Let_def)
    moreover have "[start..<?e] @ [?e..<total_len] = [start..<total_len]"
      using upt_add_eq_append [of start ?e "total_len - ?e"] True by simp
    moreover have "\<forall>m \<in> set ms. start < fst m" using ms(3) True assms by fastforce
    ultimately show ?thesis using ms(2,3,4) by (auto simp: less_imp_le)
  qed (simp add: morsels.simps)
qed

section \<open>Every range is done once\<close>

definition running_ranges :: "'r sched \<Rightarrow> (nat \<times> nat) list" where
  "running_ranges s = concat (map (\<lambda>m. case m of None \<Rightarrow> [] | Some r \<Rightarrow> [r]) (sc_running s))"

definition sched_inv :: "(nat \<times> nat \<Rightarrow> 'r) \<Rightarrow> nat \<Rightarrow> (nat \<times> nat) list \<Rightarrow> 'r sched \<Rightarrow> bool" where
  "sched_inv task workers ms s \<longleftrightarrow>
     length (sc_queues s) = workers \<and> length (sc_running s) = workers \<and> length (sc_exited s) = workers \<and>
     (\<exists>done'. sc_results s = map (\<lambda>m. (fst m, task m)) done' \<and>
       mset ms = mset (sc_injector s) + mset (concat (sc_queues s)) + mset (running_ranges s) + mset done') \<and>
     (\<forall>w < workers. sc_exited s ! w \<longrightarrow> sc_queues s ! w = [] \<and> sc_running s ! w = None \<and> sc_injector s = [])"

lemma mset_concat_update:
  "w < length qs \<Longrightarrow> mset (concat (qs[w := q])) + mset (qs ! w) = mset (concat qs) + mset q"
  by (induction qs arbitrary: w) (auto split: nat.splits simp: add.assoc add.commute)

lemma mset_running_update:
  "w < length rs \<Longrightarrow>
   mset (concat (map f (rs[w := r]))) + mset (f (rs ! w)) = mset (concat (map f rs)) + mset (f r)"
  using mset_concat_update [of w "map f rs" "f r"] by (simp add: map_update)

lemma sched_inv_init: "sched_inv task workers ms (sched_init workers ms)"
  by (simp add: sched_inv_def sched_init_def running_ranges_def)

lemma sched_inv_step:
  assumes "sched_step task s s'" "sched_inv task workers ms s"
  shows "sched_inv task workers ms s'"
  using assms
proof (induction rule: sched_step.induct)
  case (pop s w m q)
  have w: "w < length (sc_queues s)" "w < length (sc_running s)" using pop by (auto simp: sched_idle_def sched_inv_def)
  show ?case
    using pop mset_concat_update [OF w(1), of q] mset_running_update [OF w(2), of "case_option [] (\<lambda>r. [r])" "Some m"]
    by (auto simp: sched_inv_def sched_idle_def running_ranges_def nth_list_update)
next
  case (steal_batch s w m batch rest)
  have w: "w < length (sc_queues s)" "w < length (sc_running s)"
    using steal_batch by (auto simp: sched_idle_def sched_inv_def)
  show ?case
    using steal_batch mset_concat_update [OF w(1), of batch]
      mset_running_update [OF w(2), of "case_option [] (\<lambda>r. [r])" "Some m"]
    by (auto simp: sched_inv_def sched_idle_def running_ranges_def nth_list_update)
next
  case (steal s w v m q)
  have w: "v < length (sc_queues s)" "w < length (sc_running s)"
    using steal by (auto simp: sched_idle_def sched_inv_def)
  show ?case
    using steal mset_concat_update [OF w(1), of q]
      mset_running_update [OF w(2), of "case_option [] (\<lambda>r. [r])" "Some m"]
    by (auto simp: sched_inv_def sched_idle_def running_ranges_def nth_list_update)
next
  case (finish w s m)
  obtain ds where ds: "sc_results s = map (\<lambda>m. (fst m, task m)) ds"
    "mset ms = mset (sc_injector s) + mset (concat (sc_queues s)) + mset (running_ranges s) + mset ds"
    using finish.prems by (auto simp: sched_inv_def)
  have "mset (concat (map (case_option [] (\<lambda>r. [r])) ((sc_running s)[w := None]))) + {#m#} = mset (running_ranges s)"
    using mset_running_update [OF finish(1), of "case_option [] (\<lambda>r. [r])" None] finish(2)
    by (simp add: running_ranges_def)
  with ds finish show ?case
    unfolding sched_inv_def
    by (auto simp: running_ranges_def nth_list_update intro!: exI [of _ "ds @ [m]"])
next
  case (leave s w)
  then show ?case by (auto simp: sched_inv_def sched_idle_def running_ranges_def nth_list_update)
qed

lemma sched_inv_run: "(sched_step task)\<^sup>*\<^sup>* s s' \<Longrightarrow> sched_inv task workers ms s \<Longrightarrow> sched_inv task workers ms s'"
  by (induction rule: rtranclp_induct) (auto intro: sched_inv_step)

lemma exited_done:
  assumes "sched_inv task workers ms s" "all_exited s" "0 < workers"
  shows "mset (sc_results s) = mset (map (\<lambda>m. (fst m, task m)) ms)"
proof -
  have ex: "\<forall>w < workers. sc_exited s ! w" and len: "length (sc_queues s) = workers" "length (sc_running s) = workers"
    using assms by (auto simp: all_exited_def sched_inv_def list_all_length)
  have "\<forall>q \<in> set (sc_queues s). q = []" "\<forall>x \<in> set (sc_running s). x = None" "sc_injector s = []"
    using assms(1,3) ex len by (auto simp: sched_inv_def in_set_conv_nth)
  then have "concat (sc_queues s) = []" "running_ranges s = []" "sc_injector s = []"
    by (auto simp: running_ranges_def)
  with assms(1) show ?thesis by (auto simp: sched_inv_def)
qed

lemma sort_chunks:
  assumes "mset xs = mset ys" "sorted_wrt (<) (map fst ys)"
  shows "sort_key fst xs = (ys :: (nat \<times> 'a) list)"
proof (rule properties_for_sort_key)
  have "distinct (map fst ys)" "sorted (map fst ys)" using assms(2) by (auto simp: strict_sorted_iff)
  then show "sorted (map fst ys)" by simp
  show "mset ys = mset xs" using assms(1) by simp
  fix k assume k: "k \<in> set ys"
  have one: "mset (filter (\<lambda>x. fst k = fst x) ys) = {#k#}"
  proof -
    have "filter (\<lambda>x. fst k = fst x) ys = [k]" using k \<open>distinct (map fst ys)\<close>
      by (induction ys) (auto simp: filter_empty_conv dest: imageI [of _ _ fst])
    then show ?thesis by simp
  qed
  have "mset (filter (\<lambda>x. fst k = fst x) xs) = {#k#}" using one assms(1) by (metis mset_filter)
  then show "filter (\<lambda>x. fst k = fst x) ys = filter (\<lambda>x. fst k = fst x) xs"
    using one by (metis mset_single_iff)
qed

lemma parallel_map_total:
  assumes "0 < morsel_size sch" "0 < worker_threads sch" "parallel_map_ranges sch total_len task out"
    and "\<And>a b. b \<le> total_len \<Longrightarrow> task (a, b) = map_option concat (those (map f [a..<b]))"
  shows "out = map_option concat (those (map f [0..<total_len]))"
  using assms(3)
proof (cases rule: parallel_map_ranges.cases)
  case empty
  then show ?thesis by simp
next
  case run: (run ms s)
  obtain ms' where ms': "morsels (morsel_size sch) total_len 0 = Some ms'" "sorted_wrt (<) (map fst ms')"
    "concat (map (\<lambda>(a, b). [a..<b]) ms') = [0..<total_len]" "\<forall>m \<in> set ms'. snd m \<le> total_len"
    using morsels_ok [OF assms(1)] by blast
  then have ms: "sorted_wrt (<) (map fst ms)" "concat (map (\<lambda>(a, b). [a..<b]) ms) = [0..<total_len]"
    "\<forall>m \<in> set ms. snd m \<le> total_len" using run by simp_all
  have "sched_inv task (worker_threads sch) ms s" by (rule sched_inv_run [OF run(4) sched_inv_init])
  from exited_done [OF this run(5) assms(2)]
  have "sort_key fst (sc_results s) = map (\<lambda>m. (fst m, task m)) ms"
    by (rule sort_chunks) (simp add: ms(1) comp_def)
  then have "collect_chunks s = map_option concat (those (map task ms))" by (simp add: collect_chunks_def comp_def)
  also have "\<dots> = map_option concat (those (map f (concat (map (\<lambda>(a, b). [a..<b]) ms))))"
    using ms(3)
  proof (induction ms)
    case (Cons m ms)
    have append: "those (xs @ ys) = (case those xs of None \<Rightarrow> None | Some a \<Rightarrow> map_option ((@) a) (those ys))" for xs ys :: "'b list option list"
      by (induction xs; cases "those ys") (auto split: option.splits)
    obtain a b where m: "m = (a, b)" by (cases m)
    show ?case
      using Cons.IH [symmetric] Cons.prems by (cases "those (map f [a..<b])"; cases "those (map task ms)")
          (auto simp: m assms(4) append)
  qed simp
  finally show ?thesis using run(1) ms(2) by simp
qed

section \<open>Every run ends\<close>

definition sched_work :: "'r sched \<Rightarrow> nat" where
  "sched_work s = 3 * length (sc_injector s) + 2 * length (concat (sc_queues s)) + length (running_ranges s) +
     length (filter Not (sc_exited s))"

lemma length_concat_update:
  "w < length qs \<Longrightarrow> length (concat (qs[w := q])) + length (qs ! w) = length (concat qs) + length q"
  using mset_concat_update [of w qs q] by (metis size_mset size_union)

lemma length_running_update:
  "w < length rs \<Longrightarrow>
   length (concat (map f (rs[w := r]))) + length (f (rs ! w)) = length (concat (map f rs)) + length (f r)"
  using mset_running_update [of w rs f r] by (metis size_mset size_union)

lemma length_filter_update:
  "w < length bs \<Longrightarrow> \<not> bs ! w \<Longrightarrow> Suc (length (filter Not (bs[w := True]))) = length (filter Not bs)"
  by (induction bs arbitrary: w) (auto split: nat.splits)

lemma sched_step_work:
  assumes "sched_step task s s'" "sched_inv task workers ms s"
  shows "sched_work s' < sched_work s"
  using assms
proof (induction rule: sched_step.induct)
  case (pop s w m q)
  have w: "w < length (sc_queues s)" "w < length (sc_running s)" using pop by (auto simp: sched_idle_def sched_inv_def)
  show ?case
    using pop length_concat_update [OF w(1), of q] length_running_update [OF w(2), of "case_option [] (\<lambda>r. [r])" "Some m"]
    by (simp add: sched_work_def running_ranges_def sched_idle_def)
next
  case (steal_batch s w m batch rest)
  have w: "w < length (sc_queues s)" "w < length (sc_running s)"
    using steal_batch by (auto simp: sched_idle_def sched_inv_def)
  show ?case
    using steal_batch length_concat_update [OF w(1), of batch]
      length_running_update [OF w(2), of "case_option [] (\<lambda>r. [r])" "Some m"]
    by (simp add: sched_work_def running_ranges_def sched_idle_def)
next
  case (steal s w v m q)
  have w: "v < length (sc_queues s)" "w < length (sc_running s)"
    using steal by (auto simp: sched_idle_def sched_inv_def)
  show ?case
    using steal length_concat_update [OF w(1), of q]
      length_running_update [OF w(2), of "case_option [] (\<lambda>r. [r])" "Some m"]
    by (simp add: sched_work_def running_ranges_def sched_idle_def)
next
  case (finish w s m)
  show ?case
    using finish length_running_update [OF finish(1), of "case_option [] (\<lambda>r. [r])" None]
    by (simp add: sched_work_def running_ranges_def)
next
  case (leave s w)
  then show ?case
    using length_filter_update [of w "sc_exited s"]
    by (simp add: sched_work_def running_ranges_def sched_idle_def)
qed

lemma sched_progress:
  assumes "sched_inv task workers ms s" "\<not> all_exited s"
  shows "\<exists>s'. sched_step task s s'"
proof -
  obtain w where w: "w < length (sc_exited s)" "\<not> sc_exited s ! w"
    using assms(2) by (auto simp: all_exited_def list_all_length)
  have len: "length (sc_running s) = length (sc_exited s)" using assms(1) by (simp add: sched_inv_def)
  show ?thesis
  proof (cases "sc_running s ! w")
    case (Some m)
    then show ?thesis using w len sched_step.finish [of w s m task] by auto
  next
    case None
    then have idle: "sched_idle s w" using w by (simp add: sched_idle_def)
    show ?thesis
    proof (cases "sc_queues s ! w")
      case (Cons m q)
      then show ?thesis using idle by (blast intro: sched_step.pop)
    next
      case Nil
      show ?thesis
      proof (cases "sc_injector s")
        case (Cons m rest)
        then show ?thesis using idle Nil sched_step.steal_batch [of s w m "[]" rest task] by auto
      qed (use idle Nil in \<open>blast intro: sched_step.leave\<close>)
    qed
  qed
qed

lemma sched_finishes:
  assumes "sched_inv task workers ms s"
  shows "\<exists>s'. (sched_step task)\<^sup>*\<^sup>* s s' \<and> all_exited s'"
  using assms
proof (induction "sched_work s" arbitrary: s rule: less_induct)
  case less
  show ?case
  proof (cases "all_exited s")
    case False
    then obtain s1 where s1: "sched_step task s s1" using sched_progress [OF less.prems] by blast
    have "sched_work s1 < sched_work s" using sched_step_work [OF s1 less.prems] .
    from less.hyps [OF this sched_inv_step [OF s1 less.prems]] s1 show ?thesis
      by (meson converse_rtranclp_into_rtranclp)
  qed auto
qed

section \<open>Properties\<close>

text \<open>C25. The work-stealing scheduler is deterministic in its result and always delivers one: a call
  returns, and whatever ranges the workers take, steal and finish in whatever order, what it returns
  is the tasks' output in row order, each row exactly once. No run of the workers is endless: each
  step lowers \<open>sched_work\<close>, and until all workers have left some worker can take a step.\<close>

theorem scheduler_delivers:
  assumes "0 < morsel_size sch" "0 < worker_threads sch"
    and "\<And>a b. b \<le> n \<Longrightarrow> task (a, b) = map_option concat (those (map f [a..<b]))"
  shows "(\<exists>out. parallel_map_ranges sch n task out) \<and>
    (\<forall>out. parallel_map_ranges sch n task out \<longrightarrow> out = map_option concat (those (map f [0..<n]))) \<and>
    (\<forall>s s'. sched_inv task w ms s \<longrightarrow> sched_step task s s' \<longrightarrow> sched_work s' < sched_work s) \<and>
    (\<forall>s. sched_inv task w ms s \<longrightarrow> all_exited s \<or> (\<exists>s'. sched_step task s s'))"
proof -
  obtain ms' where "morsels (morsel_size sch) n 0 = Some ms'" using morsels_ok [OF assms(1)] by blast
  moreover obtain s where "(sched_step task)\<^sup>*\<^sup>* (sched_init (worker_threads sch) ms') s" "all_exited s"
    using sched_finishes [OF sched_inv_init] by blast
  ultimately have "\<exists>out. parallel_map_ranges sch n task out"
    by (cases "n = 0") (auto intro: parallel_map_ranges.intros)
  then show ?thesis
    using parallel_map_total [OF assms(1,2) _ assms(3)] sched_step_work sched_progress by blast
qed

theorem scheduler_delivers_witness:
  "{out. parallel_map_ranges (scheduler_with_workers 2 3) 5
      (\<lambda>(a, b). map_option concat (those (map (\<lambda>i. Some [i, i]) [a..<b]))) out} =
     {Some [0, 0, 1, 1, 2, 2, 3, 3, 4, 4]}"
proof -
  let ?f = "\<lambda>i. Some [i, i]"
  let ?task = "\<lambda>(a, b). map_option concat (those (map ?f [a..<b]))"
  have "map_option concat (those (map ?f [0..<5])) = Some [0, 0, 1, 1, 2, 2, 3, 3, 4, 4 :: nat]"
    by (simp add: upt_rec)
  moreover have "0 < morsel_size (scheduler_with_workers 2 3)" "0 < worker_threads (scheduler_with_workers 2 3)"
    by (simp_all add: scheduler_with_workers_def)
  ultimately show ?thesis
    using scheduler_delivers [where sch = "scheduler_with_workers 2 3" and n = 5 and task = ?task and f = ?f
        and w = 3 and ms = "[]"] by auto
qed

end
