(* ===== verification/Query_Exec.thy ===== *)
theory Query_Exec
  imports Vectorized Scheduler
begin

text \<open>
  The parallel filter of \<open>vectorized.rs\<close> over the morsel scheduler, and the path of a single-table
  \<open>SELECT\<close> in \<open>execution.rs\<close>: the bound plan (\<open>binder.rs\<close>) is lowered to a physical scan, which
  runs over the batch that the storage layer returns. The storage scanner is the trait
  \<open>TableScanner\<close>, an argument here.

  The lemmas relate the parallel filter to the sequential one, and say which \<open>WHERE\<close> clauses the
  scan applies and which it drops.
\<close>

section \<open>The parallel filter\<close>

definition apply_i64_indices ::
  "record_batch \<Rightarrow> string \<Rightarrow> i64 \<Rightarrow> nat list \<Rightarrow> (i64 \<Rightarrow> i64 \<Rightarrow> bool) \<Rightarrow> bool list option" where
  "apply_i64_indices b column criterion indices cmp =
     (case batch_column b column of
        Some (Int64 values) \<Rightarrow>
          map_option (map (\<lambda>v. case v of None \<Rightarrow> False | Some x \<Rightarrow> cmp x criterion)) (index_all values indices)
      | Some (Int32 values) \<Rightarrow>
          map_option (map (\<lambda>v. case v of None \<Rightarrow> False | Some x \<Rightarrow> cmp (scast x) criterion)) (index_all values indices)
      | _ \<Rightarrow> Some (replicate (length indices) False))"

fun apply_predicate_to_indices :: "record_batch \<Rightarrow> predicate \<Rightarrow> nat list \<Rightarrow> bool list option" where
  "apply_predicate_to_indices b (EqI64 column value) indices = apply_i64_indices b column value indices i64_eq"
| "apply_predicate_to_indices b (GtI64 column value) indices = apply_i64_indices b column value indices i64_gt"
| "apply_predicate_to_indices b (LtI64 column value) indices = apply_i64_indices b column value indices i64_lt"
| "apply_predicate_to_indices b (BetweenDate32 column start end') indices =
     (case batch_column b column of
        Some (Date32 values) \<Rightarrow> map_option (map (date_between start end')) (index_all values indices)
      | _ \<Rightarrow> Some (replicate (length indices) False))"
| "apply_predicate_to_indices b (BetweenFloat64 column low high) indices =
     (case batch_column b column of
        Some (Float64 values) \<Rightarrow> map_option (map (float_between low high)) (index_all values indices)
      | _ \<Rightarrow> Some (replicate (length indices) False))"
| "apply_predicate_to_indices b (EqText column value) indices =
     (case batch_column b column of
        Some (Utf8 col) \<Rightarrow> those (map (\<lambda>i. map_option (\<lambda>v. v = Some value) (utf8_get col i)) indices)
      | _ \<Rightarrow> Some (replicate (length indices) False))"

definition filter_task :: "record_batch \<Rightarrow> predicate \<Rightarrow> nat \<times> nat \<Rightarrow> nat list option" where
  "filter_task b p morsel =
     (let indices = [fst morsel..<snd morsel] in
      map_option (\<lambda>kept. map fst (List.filter snd (zip indices kept))) (apply_predicate_to_indices b p indices))"

inductive run_parallel_filter ::
  "record_batch \<Rightarrow> predicate \<Rightarrow> scheduler \<Rightarrow> (exec_error + record_batch) option \<Rightarrow> bool" where
  done': "parallel_map_ranges sch (row_count b) (filter_task b p) (Some chunks) \<Longrightarrow>
    run_parallel_filter b p sch (map_option batch_new (take_columns (rb_columns b) chunks))"
| panic: "parallel_map_ranges sch (row_count b) (filter_task b p) None \<Longrightarrow> run_parallel_filter b p sch None"

section \<open>The plan of a single-table query\<close>

datatype sql_value = SqlInt i64 | SqlFloat f64 | SqlText string | SqlDate i32 | SqlNull

datatype dml_cmp_op = CmpEq | CmpNeq | CmpGt | CmpLt | CmpGtEq | CmpLtEq

record dml_predicate =
  dp_column :: string
  dp_op :: dml_cmp_op
  dp_value :: sql_value

definition dml_predicate_to_vectorized :: "dml_predicate \<Rightarrow> predicate option" where
  "dml_predicate_to_vectorized pred =
     (case (dp_op pred, dp_value pred) of
        (CmpEq, SqlText s) \<Rightarrow> Some (EqText (dp_column pred) s)
      | (CmpGt, SqlInt v) \<Rightarrow> Some (GtI64 (dp_column pred) v)
      | (CmpLt, SqlInt v) \<Rightarrow> Some (LtI64 (dp_column pred) v)
      | (CmpEq, SqlInt v) \<Rightarrow> Some (EqI64 (dp_column pred) v)
      | _ \<Rightarrow> None)"

datatype physical_plan =
    Scan string "string list" "predicate option" "nat option"
  | TpchQ1
  | TpchQ6

text \<open>The arm of \<open>build_physical_plan\<close> for \<open>SelectFromTable\<close>; \<open>normalized\<close> is the lower-case text
  of the query, in which the TPC-H queries are recognized.\<close>

definition contains :: "string \<Rightarrow> string \<Rightarrow> bool" where
  "contains text pattern \<longleftrightarrow>
     list_ex (\<lambda>i. take (length pattern) (drop i text) = pattern) [0..<Suc (length text)]"

definition plan_select ::
  "string \<Rightarrow> string list \<Rightarrow> dml_predicate option \<Rightarrow> nat option \<Rightarrow> string \<Rightarrow> physical_plan" where
  "plan_select table projection where_clause limit normalized =
     (if contains normalized ''group by l_returnflag'' \<and> contains normalized ''sum('' then TpchQ1
      else if contains normalized ''l_discount'' \<and> contains normalized ''l_shipdate'' \<and> contains normalized ''sum(''
      then TpchQ6
      else Scan table projection
        (case where_clause of None \<Rightarrow> None | Some w \<Rightarrow> dml_predicate_to_vectorized w) limit)"

type_synonym scanner = "string \<Rightarrow> exec_error + record_batch"

definition try_execute_storage_only ::
  "physical_plan \<Rightarrow> scanner option \<Rightarrow> (exec_error + record_batch) option option" where
  "try_execute_storage_only plan storage =
     (case plan of
        Scan table projection predicate limit \<Rightarrow>
          if eq_ignore_ascii_case table ''lineitem'' then None
          else Some
            (case storage of
               None \<Rightarrow> Some (Inr batch_empty)
             | Some scan_table \<Rightarrow>
                 (case scan_table table of
                    Inr batch \<Rightarrow> table_scan batch predicate None limit
                  | Inl (TableNotFound _) \<Rightarrow> Some (Inr batch_empty)
                  | Inl e \<Rightarrow> Some (Inl e)))
      | _ \<Rightarrow> None)"

section \<open>The parallel filter is the filter\<close>

lemma apply_predicate_ok:
  assumes "batch_ok b" "batch_column b (pred_column p) = Some col" "accepts p (col_type col)"
    and "\<forall>i \<in> set indices. i < row_count b"
  shows "apply_predicate_to_indices b p indices = Some (map (\<lambda>i. cell_matches p (cells col ! i)) indices)"
proof (cases p)
  case (EqText c v)
  then obtain u where col: "col = Utf8 u" using assms(3) by (cases col) auto
  have ok: "utf8_ok u" "utf8_len u = row_count b" using batch_column_ok [OF assms(1,2)] col by auto
  have match: "cell_matches (EqText c v) (map_option CText x) = (x = Some v)" for x by (cases x) auto
  have "those (map (\<lambda>i. map_option (\<lambda>x. x = Some v) (utf8_get u i)) indices) =
      Some (map (\<lambda>i. utf8_values u ! i = Some v) indices)"
    using ok assms(4) by (intro those_map) (simp add: utf8_ok_get)
  then show ?thesis using EqText assms(2,4) col ok by (simp add: match)
qed (use assms batch_column_ok(2) [OF assms(1,2)] in \<open>cases col; auto simp: apply_i64_indices_def index_all_ok
      int_cell_def date_between_def float_between_def i64_gt_def i64_lt_def i64_eq_def i64_eq_sint sint_scast32
      split: option.splits\<close>)+

lemma filter_pieces:
  "map_option concat (those (map (\<lambda>i. Some (if P i then [i] else [])) xs)) = Some (List.filter P (xs :: nat list))"
  by (induction xs) auto

lemma filter_task_ok:
  assumes "batch_ok b" "batch_column b (pred_column p) = Some col" "accepts p (col_type col)" "e \<le> row_count b"
  shows "filter_task b p (a, e) =
    map_option concat (those (map (\<lambda>i. Some (if cell_matches p (cells col ! i) then [i] else [])) [a..<e]))"
proof -
  have "filter_task b p (a, e) = Some (List.filter (\<lambda>i. cell_matches p (cells col ! i)) [a..<e])"
    using apply_predicate_ok [OF assms(1-3), of "[a..<e]"] assms(4)
    by (simp add: filter_task_def zip_map2 zip_same_conv_map filter_map comp_def)
  then show ?thesis unfolding filter_pieces .
qed

lemma parallel_filter_ok:
  assumes ok: "batch_ok b" and col: "batch_column b (pred_column p) = Some col" "accepts p (col_type col)"
    and n: "row_count b \<le> 10000000" and sch: "0 < morsel_size sch" "0 < worker_threads sch"
    and run: "run_parallel_filter b p sch res"
  shows "res = batch_filter b p"
proof -
  have len: "length (cells col) = row_count b" using batch_column_ok [OF ok col(1)] by simp
  have out: "out = Some (List.filter (\<lambda>i. cell_matches p (cells col ! i)) [0..<row_count b])"
    if "parallel_map_ranges sch (row_count b) (filter_task b p) out" for out
    using parallel_map_total [OF sch that filter_task_ok [OF ok col]] by (simp add: filter_pieces)
  have "mask_indices (map (cell_matches p) (cells col)) = List.filter (\<lambda>i. cell_matches p (cells col ! i)) [0..<row_count b]"
    unfolding mask_indices_def using len by (auto intro!: filter_cong)
  then have "batch_filter b p = map_option batch_new
      (take_columns (rb_columns b) (List.filter (\<lambda>i. cell_matches p (cells col ! i)) [0..<row_count b]))"
    using n filter_mask_ok [OF ok col] by (simp add: batch_filter_def)
  with run out show ?thesis by (cases rule: run_parallel_filter.cases) auto
qed

lemma parallel_filter_mismatch:
  assumes ok: "batch_ok b" and sch: "0 < morsel_size sch" "0 < worker_threads sch"
    and none: "case batch_column b (pred_column p) of None \<Rightarrow> True | Some col \<Rightarrow> \<not> accepts p (col_type col)"
    and run: "run_parallel_filter b p sch res"
  shows "\<exists>b'. res = Some (Inr b') \<and> batch_rows b' = []"
proof -
  have "apply_predicate_to_indices b p indices = Some (replicate (length indices) False)" for indices
    using none by (cases p; auto simp: apply_i64_indices_def split: option.splits column_vector.splits)
  then have "filter_task b p (a, e) = map_option concat (those (map (\<lambda>i. Some (if False then [i] else [])) [a..<e]))" for a e
    unfolding filter_pieces by (simp add: filter_task_def zip_replicate2 filter_map comp_def)
  then have out: "out = Some []" if "parallel_map_ranges sch (row_count b) (filter_task b p) out" for out
    using parallel_map_total [OF sch that, of "\<lambda>i. Some (if False then [i] else [])"] unfolding filter_pieces by simp
  obtain b' where "map_option batch_new (take_columns (rb_columns b) []) = Some (Inr b')" "batch_rows b' = []"
    using take_batch_ok [OF ok, of "[]"] distinct_fits [OF ok, of "[]"] by auto
  with run out show ?thesis by (cases rule: run_parallel_filter.cases) auto
qed

lemma run_parallel_filter_exists:
  assumes "0 < morsel_size sch" "0 < worker_threads sch"
  shows "\<exists>res. run_parallel_filter b p sch res"
proof -
  obtain ms where "morsels (morsel_size sch) (row_count b) 0 = Some ms" using morsels_ok [OF assms(1)] by blast
  moreover obtain s where "(sched_step (filter_task b p))\<^sup>*\<^sup>* (sched_init (worker_threads sch) ms) s" "all_exited s"
    using sched_finishes [OF sched_inv_init] by blast
  ultimately obtain out where "parallel_map_ranges sch (row_count b) (filter_task b p) out"
    by (cases "row_count b = 0") (auto intro: parallel_map_ranges.intros)
  then show ?thesis by (cases out) (auto intro: run_parallel_filter.intros)
qed

section \<open>Properties\<close>

definition sample_scanner :: scanner where
  "sample_scanner table = (if table = ''t'' then Inr sample_batch else Inl (TableNotFound table))"

definition sample_where :: dml_predicate where
  "sample_where = \<lparr>dp_column = ''id'', dp_op = CmpNeq, dp_value = SqlInt 1\<rparr>"

text \<open>C24. For every number of workers, every morsel size and every interleaving, the parallel filter
  returns, and it returns what the sequential filter returns, when the predicate fits its column and
  the batch is within the sequential limit.\<close>

theorem parallel_filter_is_filter:
  assumes "batch_ok b" "batch_column b (pred_column p) = Some col" "accepts p (col_type col)"
    and "row_count b \<le> 10000000" "0 < morsel_size sch" "0 < worker_threads sch"
  shows "(\<exists>res. run_parallel_filter b p sch res) \<and>
    (\<forall>res. run_parallel_filter b p sch res \<longrightarrow> res = batch_filter b p)"
  using parallel_filter_ok [OF assms] run_parallel_filter_exists [OF assms(5,6)] by blast

theorem parallel_filter_is_filter_witness:
  "(\<exists>res. run_parallel_filter sample_batch (EqI64 ''id'' 3) (scheduler_with_workers 2 3) res) \<and>
   {res. run_parallel_filter sample_batch (EqI64 ''id'' 3) (scheduler_with_workers 2 3) res} =
     {batch_filter sample_batch (EqI64 ''id'' 3)} \<and>
   map_option (map_sum id batch_rows) (batch_filter sample_batch (EqI64 ''id'' 3)) =
     Some (Inr [[(''id'', Some (CI64 3)), (''name'', None)]])"
proof -
  have "batch_column sample_batch (pred_column (EqI64 ''id'' 3)) = Some (Int64 [Some 1, None, Some 3])" by code_simp
  moreover have "map_option (map_sum id batch_rows) (batch_filter sample_batch (EqI64 ''id'' 3)) =
      Some (Inr [[(''id'', Some (CI64 3)), (''name'', None)]])" by code_simp
  moreover have "row_count sample_batch \<le> 10000000" by (simp add: sample_batch_def)
  moreover have "0 < morsel_size (scheduler_with_workers 2 3)" "0 < worker_threads (scheduler_with_workers 2 3)"
    by (simp_all add: scheduler_with_workers_def)
  ultimately show ?thesis
    using parallel_filter_is_filter [OF sample_batch_ok, of "EqI64 ''id'' 3" "Int64 [Some 1, None, Some 3]"
        "scheduler_with_workers 2 3"] by auto
qed

text \<open>C39. A single-table \<open>SELECT\<close> whose \<open>WHERE\<close> clause compares with \<open><>\<close>, \<open>>=\<close> or \<open><=\<close> returns every
  row of the table, up to its limit: the clause has no vectorized form, so the scan runs without one,
  and nothing above the scan applies it.\<close>

theorem unsupported_where_dropped:
  assumes "batch_ok batch" "scan table = Inr batch" "\<not> eq_ignore_ascii_case table ''lineitem''"
    and "\<not> contains normalized ''sum(''"
    and "dp_op w \<in> {CmpNeq, CmpGtEq, CmpLtEq}"
  shows "\<exists>b'. try_execute_storage_only (plan_select table projection (Some w) limit normalized) (Some scan) =
      Some (Some (Inr b')) \<and>
    batch_rows b' = (case limit of None \<Rightarrow> batch_rows batch | Some n \<Rightarrow> take n (batch_rows batch))"
proof -
  have "dml_predicate_to_vectorized w = None"
    using assms(5) by (auto simp: dml_predicate_to_vectorized_def split: sql_value.splits)
  then have "try_execute_storage_only (plan_select table projection (Some w) limit normalized) (Some scan) =
      Some (table_scan batch None None limit)"
    using assms(2,3,4) by (simp add: try_execute_storage_only_def plan_select_def)
  moreover have "\<exists>b'. table_scan batch None None limit = Some (Inr b') \<and>
      batch_rows b' = (case limit of None \<Rightarrow> batch_rows batch | Some n \<Rightarrow> take n (batch_rows batch))"
    using with_limit_ok [OF assms(1)] by (cases limit) (auto simp: table_scan_def)
  ultimately show ?thesis by simp
qed

theorem unsupported_where_dropped_witness:
  "\<exists>b'. try_execute_storage_only (plan_select ''t'' [] (Some sample_where) None ''select * from t where id <> 1'')
      (Some sample_scanner) = Some (Some (Inr b')) \<and>
    [(''id'', Some (CI64 1)), (''name'', Some (CText ''a''))] \<in> set (batch_rows b')"
proof -
  have scan: "sample_scanner ''t'' = Inr sample_batch" by (simp add: sample_scanner_def)
  have "\<not> eq_ignore_ascii_case ''t'' ''lineitem''" "\<not> contains ''select * from t where id <> 1'' ''sum(''"
    by code_simp+
  moreover have "dp_op sample_where \<in> {CmpNeq, CmpGtEq, CmpLtEq}" by (simp add: sample_where_def)
  moreover have "[(''id'', Some (CI64 1)), (''name'', Some (CText ''a''))] \<in> set (batch_rows sample_batch)" by code_simp
  ultimately show ?thesis
    using unsupported_where_dropped [where scan = sample_scanner and table = "''t''" and batch = sample_batch and
        w = sample_where and limit = None and projection = "[]" and normalized = "''select * from t where id <> 1''"]
      sample_batch_ok scan by auto
qed

end
