(* ===== verification/Batch_Codec.thy ===== *)
theory Batch_Codec
  imports Vectorized
begin

unbundle bit_operations_syntax

text \<open>
  The typed binary codec of record batches (\<open>codec.rs\<close>): little-endian integers, a column table with
  names and type tags, and for each row a null bitmap followed by the values that are not null. The
  lengths in the header are casts (\<open>as u16\<close>, \<open>as u32\<close>), written here as the truncation they are. A
  position in the input is the list of the bytes from it on.

  The lemmas show that the decoder reads back the rows and the schema of every batch whose sizes fit
  the header, and that whatever the decoder accepts is a well-formed batch.
\<close>

section \<open>Readers and writers\<close>

definition le_bytes :: "nat \<Rightarrow> nat \<Rightarrow> bytes" where
  "le_bytes k n = rev (be_bytes k n)"

definition read_bytes :: "nat \<Rightarrow> bytes \<Rightarrow> (bytes \<times> bytes) option" where
  "read_bytes n r = (if n \<le> length r then Some (take n r, drop n r) else None)"

definition read_le :: "nat \<Rightarrow> bytes \<Rightarrow> (nat \<times> bytes) option" where
  "read_le k r = map_option (apfst (\<lambda>raw. be_value (rev raw))) (read_bytes k r)"

definition BATCH_MAGIC :: bytes where "BATCH_MAGIC = [0x4E, 0x42, 0x02]"
definition TAG_INT32 :: u8 where "TAG_INT32 = 0"
definition TAG_INT64 :: u8 where "TAG_INT64 = 1"
definition TAG_FLOAT64 :: u8 where "TAG_FLOAT64 = 2"
definition TAG_DATE32 :: u8 where "TAG_DATE32 = 3"
definition TAG_UTF8 :: u8 where "TAG_UTF8 = 4"

definition valid_tag :: "u8 \<Rightarrow> bool" where
  "valid_tag tag \<longleftrightarrow> tag \<le> TAG_UTF8"

fun type_tag_of :: "column_vector \<Rightarrow> u8" where
  "type_tag_of (Int32 _) = TAG_INT32"
| "type_tag_of (Int64 _) = TAG_INT64"
| "type_tag_of (Float64 _) = TAG_FLOAT64"
| "type_tag_of (Date32 _) = TAG_DATE32"
| "type_tag_of (Utf8 _) = TAG_UTF8"

definition bitmap_len :: "nat \<Rightarrow> nat" where
  "bitmap_len num_cols = (num_cols + 7) div 8"

section \<open>The encoder\<close>

fun is_null_at :: "column_vector \<Rightarrow> nat \<Rightarrow> bool option" where
  "is_null_at (Int32 v) row = (if row < length v then Some (v ! row = None) else None)"
| "is_null_at (Int64 v) row = (if row < length v then Some (v ! row = None) else None)"
| "is_null_at (Float64 v) row = (if row < length v then Some (v ! row = None) else None)"
| "is_null_at (Date32 v) row = (if row < length v then Some (v ! row = None) else None)"
| "is_null_at (Utf8 c) row = Some (\<not> (row < length (uc_validity c) \<and> uc_validity c ! row))"

definition fixed_bytes :: "nat \<Rightarrow> 'a::len word option \<Rightarrow> bytes" where
  "fixed_bytes k v = (case v of None \<Rightarrow> [] | Some x \<Rightarrow> le_bytes k (unat x))"

fun encode_value_at :: "column_vector \<Rightarrow> nat \<Rightarrow> bytes option" where
  "encode_value_at (Int32 v) row = (if row < length v then Some (fixed_bytes 4 (v ! row)) else None)"
| "encode_value_at (Int64 v) row = (if row < length v then Some (fixed_bytes 8 (v ! row)) else None)"
| "encode_value_at (Float64 v) row = (if row < length v then Some (fixed_bytes 8 (v ! row)) else None)"
| "encode_value_at (Date32 v) row = (if row < length v then Some (fixed_bytes 4 (v ! row)) else None)"
| "encode_value_at (Utf8 c) row =
     map_option (\<lambda>v. case v of None \<Rightarrow> [] | Some s \<Rightarrow> le_bytes 4 (length s) @ str_bytes s) (utf8_get c row)"

text \<open>The bitmap loop, one column at a time; writing outside the bitmap panics.\<close>

fun build_bitmap :: "bool list \<Rightarrow> nat \<Rightarrow> bytes \<Rightarrow> bytes option" where
  "build_bitmap [] col_idx bitmap = Some bitmap"
| "build_bitmap (null # nulls) col_idx bitmap =
     (if null then
        if col_idx div 8 < length bitmap
        then build_bitmap nulls (Suc col_idx)
          (bitmap[col_idx div 8 := bitmap ! (col_idx div 8) OR push_bit (col_idx mod 8) 1])
        else None
      else build_bitmap nulls (Suc col_idx) bitmap)"

definition bitmap_null :: "bytes \<Rightarrow> nat \<Rightarrow> bool" where
  "bitmap_null bitmap col_idx \<longleftrightarrow> drop_bit (col_idx mod 8) (bitmap ! (col_idx div 8)) AND 1 = 1"

fun encode_values :: "column_vector list \<Rightarrow> nat \<Rightarrow> nat \<Rightarrow> bytes \<Rightarrow> bytes option" where
  "encode_values [] col_idx row bitmap = Some []"
| "encode_values (cv # cvs) col_idx row bitmap =
     (if length bitmap \<le> col_idx div 8 then None
      else if bitmap_null bitmap col_idx then encode_values cvs (Suc col_idx) row bitmap
      else
        Option.bind (encode_value_at cv row) (\<lambda>a.
        Option.bind (encode_values cvs (Suc col_idx) row bitmap) (\<lambda>b. Some (a @ b))))"

definition encode_row_at :: "column_vector list \<Rightarrow> nat \<Rightarrow> nat \<Rightarrow> bytes option" where
  "encode_row_at cvs bitmap_bytes row =
     Option.bind (those (map (\<lambda>cv. is_null_at cv row) cvs)) (\<lambda>nulls.
     Option.bind (build_bitmap nulls 0 (replicate bitmap_bytes 0)) (\<lambda>bitmap.
     Option.bind (encode_values cvs 0 row bitmap) (\<lambda>vals. Some (bitmap @ vals))))"

definition column_entry :: "string \<times> column_vector \<Rightarrow> bytes" where
  "column_entry c = le_bytes 2 (length (fst c)) @ str_bytes (fst c) @ [type_tag_of (snd c)]"

definition encode_batch :: "record_batch \<Rightarrow> (string + bytes) option" where
  "encode_batch b =
     (let num_cols = length (rb_columns b) mod 2 ^ 16 in
      if \<not> list_all (\<lambda>(_, cv). col_len cv = row_count b) (rb_columns b)
      then Some (Inl ''codec: column length mismatch'')
      else
        map_option (\<lambda>rows. Inr (BATCH_MAGIC @ le_bytes 2 num_cols @ le_bytes 4 (row_count b) @
            concat (map column_entry (rb_columns b)) @ concat rows))
          (those (map (encode_row_at (map snd (rb_columns b)) (bitmap_len num_cols)) [0..<row_count b])))"

section \<open>The decoder\<close>

definition read_column :: "bytes \<Rightarrow> ((string \<times> u8) \<times> bytes) option" where
  "read_column r =
     Option.bind (read_le 2 r) (\<lambda>(name_len, r).
     Option.bind (read_bytes name_len r) (\<lambda>(name_bytes, r).
     Option.bind (string_from_utf8 name_bytes) (\<lambda>name.
     Option.bind (read_bytes 1 r) (\<lambda>(tag, r).
       if valid_tag (tag ! 0) then Some ((name, tag ! 0), r) else None))))"

fun read_many :: "(bytes \<Rightarrow> ('a \<times> bytes) option) \<Rightarrow> nat \<Rightarrow> bytes \<Rightarrow> ('a list \<times> bytes) option" where
  "read_many get 0 r = Some ([], r)"
| "read_many get (Suc n) r =
     Option.bind (get r) (\<lambda>(x, r). Option.bind (read_many get n r) (\<lambda>(xs, r). Some (x # xs, r)))"

definition read_cell :: "u8 \<Rightarrow> bytes \<Rightarrow> (cell \<times> bytes) option" where
  "read_cell tag r =
     (if tag = TAG_INT32 then map_option (apfst (\<lambda>n. CI32 (of_nat n))) (read_le 4 r)
      else if tag = TAG_INT64 then map_option (apfst (\<lambda>n. CI64 (of_nat n))) (read_le 8 r)
      else if tag = TAG_FLOAT64 then map_option (apfst (\<lambda>n. CF64 (of_nat n))) (read_le 8 r)
      else if tag = TAG_DATE32 then map_option (apfst (\<lambda>n. CD32 (of_nat n))) (read_le 4 r)
      else if tag = TAG_UTF8 then
        Option.bind (read_le 4 r) (\<lambda>(len, r).
        Option.bind (read_bytes len r) (\<lambda>(s_bytes, r).
        Option.bind (string_from_utf8 s_bytes) (\<lambda>s. Some (CText s, r))))
      else None)"

fun read_cells :: "u8 list \<Rightarrow> nat \<Rightarrow> bytes \<Rightarrow> bytes \<Rightarrow> (cell option list \<times> bytes) option" where
  "read_cells [] col_idx bitmap r = Some ([], r)"
| "read_cells (tag # tags) col_idx bitmap r =
     Option.bind (if bitmap_null bitmap col_idx then Some (None, r) else map_option (apfst Some) (read_cell tag r))
       (\<lambda>(c, r). Option.bind (read_cells tags (Suc col_idx) bitmap r) (\<lambda>(cs, r). Some (c # cs, r)))"

definition read_row :: "u8 list \<Rightarrow> nat \<Rightarrow> bytes \<Rightarrow> (cell option list \<times> bytes) option" where
  "read_row tags bitmap_bytes r =
     Option.bind (read_bytes bitmap_bytes r) (\<lambda>(bitmap, r). read_cells tags 0 bitmap r)"

definition i32_of :: "cell \<Rightarrow> i32" where
  "i32_of c = (case c of CI32 x \<Rightarrow> x | CD32 x \<Rightarrow> x | _ \<Rightarrow> 0)"
definition i64_of :: "cell \<Rightarrow> i64" where
  "i64_of c = (case c of CI64 x \<Rightarrow> x | CF64 x \<Rightarrow> x | _ \<Rightarrow> 0)"
definition text_of :: "cell \<Rightarrow> string" where
  "text_of c = (case c of CText s \<Rightarrow> s | _ \<Rightarrow> [])"

definition build_column :: "u8 \<Rightarrow> cell option list \<Rightarrow> column_vector" where
  "build_column tag vals =
     (if tag = TAG_INT32 then Int32 (map (map_option i32_of) vals)
      else if tag = TAG_INT64 then Int64 (map (map_option i64_of) vals)
      else if tag = TAG_FLOAT64 then Float64 (map (map_option i64_of) vals)
      else if tag = TAG_DATE32 then Date32 (map (map_option i32_of) vals)
      else Utf8 (from_options (map (map_option text_of) vals)))"

definition build_columns :: "(string \<times> u8) list \<Rightarrow> cell option list list \<Rightarrow> (string \<times> column_vector) list" where
  "build_columns cols rows =
     map (\<lambda>i. (fst (cols ! i), build_column (snd (cols ! i)) (map (\<lambda>row. row ! i) rows))) [0..<length cols]"

definition decode_batch :: "bytes \<Rightarrow> record_batch option" where
  "decode_batch bs =
     (if take 3 bs \<noteq> BATCH_MAGIC then None
      else
        Option.bind (read_le 2 (drop 3 bs)) (\<lambda>(num_cols, r).
        Option.bind (read_le 4 r) (\<lambda>(num_rows, r).
        Option.bind (read_many read_column num_cols r) (\<lambda>(cols, r).
        Option.bind (read_many (read_row (map snd cols) (bitmap_len num_cols)) num_rows r) (\<lambda>(rows, r).
          let columns = build_columns cols rows in
          if columns = [] then Some batch_empty
          else (case batch_new columns of Inl _ \<Rightarrow> None | Inr b \<Rightarrow> Some b))))))"

section \<open>Reading back what was written\<close>

definition batch_encodable :: "record_batch \<Rightarrow> bool" where
  "batch_encodable b \<longleftrightarrow> batch_ok b \<and> length (rb_columns b) < 2 ^ 16 \<and> row_count b < 2 ^ 32 \<and>
     list_all (\<lambda>(name, _). rust_string name \<and> length name < 2 ^ 16) (rb_columns b)"

lemmas tag_defs = TAG_INT32_def TAG_INT64_def TAG_FLOAT64_def TAG_DATE32_def TAG_UTF8_def

lemma length_le_bytes [simp]: "length (le_bytes k n) = k"
  by (simp add: le_bytes_def)

lemma read_bytes_append [simp]: "length bs = n \<Longrightarrow> read_bytes n (bs @ rest) = Some (bs, rest)"
  by (simp add: read_bytes_def)

lemma read_le_append [simp]: "n < 256 ^ k \<Longrightarrow> read_le k (le_bytes k n @ rest) = Some (n, rest)"
  by (simp add: read_le_def) (simp add: le_bytes_def)

lemma bitmap_null_bit: "bitmap_null bm i \<longleftrightarrow> bit (bm ! (i div 8)) (i mod 8)"
  by (simp add: bitmap_null_def and_one_eq bit_iff_odd_drop_bit odd_iff_mod_2_eq_one)

lemma build_bitmap_ok:
  assumes "i + length nulls \<le> 8 * length bm"
  shows "\<exists>bm'. build_bitmap nulls i bm = Some bm' \<and> length bm' = length bm \<and>
    (\<forall>k < 8 * length bm. bitmap_null bm' k \<longleftrightarrow> bitmap_null bm k \<or> (i \<le> k \<and> k < i + length nulls \<and> nulls ! (k - i)))"
  using assms
proof (induction nulls arbitrary: i bm)
  case (Cons null nulls)
  define bm1 where "bm1 = (if null then bm[i div 8 := bm ! (i div 8) OR push_bit (i mod 8) 1] else bm)"
  have i: "i div 8 < length bm" using Cons.prems by simp
  have len: "length bm1 = length bm" by (simp add: bm1_def)
  have bit1: "bitmap_null bm1 k \<longleftrightarrow> bitmap_null bm k \<or> (null \<and> k = i)" if "k < 8 * length bm" for k
  proof -
    have "k div 8 = i div 8 \<and> k mod 8 = i mod 8 \<longleftrightarrow> k = i" by (metis mod_mult_div_eq)
    then show ?thesis
      using i that
      by (auto simp: bm1_def bitmap_null_bit nth_list_update bit_or_iff bit_exp_iff)
  qed
  have "Suc i + length nulls \<le> 8 * length bm1" using Cons.prems len by simp
  from Cons.IH [OF this] obtain bm' where bm': "build_bitmap nulls (Suc i) bm1 = Some bm'" "length bm' = length bm1"
    "\<forall>k < 8 * length bm1. bitmap_null bm' k \<longleftrightarrow> bitmap_null bm1 k \<or> (Suc i \<le> k \<and> k < Suc i + length nulls \<and> nulls ! (k - Suc i))"
    by blast
  have "build_bitmap (null # nulls) i bm = Some bm'" using bm'(1) i by (simp add: bm1_def split: if_splits)
  moreover have "\<forall>k < 8 * length bm. bitmap_null bm' k \<longleftrightarrow>
      bitmap_null bm k \<or> (i \<le> k \<and> k < i + length (null # nulls) \<and> (null # nulls) ! (k - i))"
  proof (intro allI impI)
    fix k assume k: "k < 8 * length bm"
    show "bitmap_null bm' k \<longleftrightarrow> bitmap_null bm k \<or> (i \<le> k \<and> k < i + length (null # nulls) \<and> (null # nulls) ! (k - i))"
      using bm'(3) bit1 [OF k] k len by (cases "k = i") (auto simp: nth_Cons' Suc_diff_Suc)
  qed
  moreover have "length bm' = length bm" using bm'(2) len by simp
  ultimately show ?case by blast
qed (auto simp: not_le)

lemma is_null_cells: "column_ok cv \<Longrightarrow> row < col_len cv \<Longrightarrow> is_null_at cv row = Some (cells cv ! row = None)"
proof (cases cv)
  case (Utf8 c)
  assume "column_ok cv" "row < col_len cv"
  then have "utf8_ok c" "row < utf8_len c" using Utf8 by simp_all
  then have "utf8_values c ! row = None \<longleftrightarrow> \<not> uc_validity c ! row"
    by (auto simp: utf8_ok_def list_all_iff utf8_values_def utf8_get_def utf8_len_def split: option.splits)
  then show ?thesis using Utf8 \<open>row < utf8_len c\<close> by (simp add: utf8_len_def)
qed auto

lemma text_bytes_nth: "i < length vs \<Longrightarrow> vs ! i = Some s \<Longrightarrow> length s \<le> text_bytes vs"
  using elem_le_sum_list [of i "map (\<lambda>v. case v of None \<Rightarrow> 0 | Some s \<Rightarrow> length s) vs"] by (simp add: text_bytes_def)

lemma read_cell_value:
  assumes "column_ok cv" "row < col_len cv" "cells cv ! row = Some c"
  shows "\<exists>a. encode_value_at cv row = Some a \<and> read_cell (type_tag_of cv) (a @ rest) = Some (c, rest)"
proof (cases cv)
  case (Int32 v)
  then show ?thesis
    using assms unat_less_2p [of "the (v ! row)"] by (auto simp: fixed_bytes_def read_cell_def tag_defs)
next
  case (Int64 v)
  then show ?thesis
    using assms unat_less_2p [of "the (v ! row)"] by (auto simp: fixed_bytes_def read_cell_def tag_defs)
next
  case (Float64 v)
  then show ?thesis
    using assms unat_less_2p [of "the (v ! row)"] by (auto simp: fixed_bytes_def read_cell_def tag_defs)
next
  case (Date32 v)
  then show ?thesis
    using assms unat_less_2p [of "the (v ! row)"] by (auto simp: fixed_bytes_def read_cell_def tag_defs)
next
  case (Utf8 u)
  then have ok: "utf8_ok u" and row: "row < utf8_len u" using assms by simp_all
  then obtain s where s: "utf8_values u ! row = Some s" "c = CText s" using assms(3) Utf8 by auto
  have get: "utf8_get u row = Some (Some s)" using utf8_ok_get [OF ok] row s by simp
  have "rust_string s" using utf8_get_text [OF get] .
  moreover have "length s < 2 ^ 32"
    using text_bytes_nth [of row "utf8_values u" s] row s ok by (simp add: utf8_ok_def)
  ultimately show ?thesis using Utf8 s get by (simp add: read_cell_def tag_defs)
qed

lemma read_cells_values:
  assumes "\<forall>cv \<in> set cvs. column_ok cv \<and> row < col_len cv" "i + length cvs \<le> 8 * length bm"
    and "\<forall>k < length cvs. bitmap_null bm (i + k) \<longleftrightarrow> cells (cvs ! k) ! row = None"
  shows "\<exists>vals. encode_values cvs i row bm = Some vals \<and>
    read_cells (map type_tag_of cvs) i bm (vals @ rest) = Some (map (\<lambda>cv. cells cv ! row) cvs, rest)"
  using assms
proof (induction cvs arbitrary: i)
  case (Cons cv cvs)
  have in_bm: "i div 8 < length bm" using Cons.prems(2) by simp
  have "\<forall>k < length cvs. bitmap_null bm (Suc i + k) \<longleftrightarrow> cells (cvs ! k) ! row = None"
    using Cons.prems(3) by (metis Suc_less_eq add_Suc_right add_Suc_shift length_Cons nth_Cons_Suc)
  with Cons.IH [of "Suc i"] Cons.prems obtain vals where vals: "encode_values cvs (Suc i) row bm = Some vals"
    "read_cells (map type_tag_of cvs) (Suc i) bm (vals @ rest) = Some (map (\<lambda>cv. cells cv ! row) cvs, rest)"
    by auto
  have null: "bitmap_null bm i \<longleftrightarrow> cells cv ! row = None" using Cons.prems(3) by auto
  show ?case
  proof (cases "cells cv ! row")
    case None
    then show ?thesis using null in_bm vals by simp
  next
    case (Some c)
    obtain a where "encode_value_at cv row = Some a" "read_cell (type_tag_of cv) (a @ (vals @ rest)) = Some (c, vals @ rest)"
      using read_cell_value [OF _ _ Some] Cons.prems(1) by auto
    then show ?thesis using null Some in_bm vals by simp
  qed
qed simp

lemma read_row_at:
  assumes "\<forall>cv \<in> set cvs. column_ok cv \<and> row < col_len cv" "length cvs \<le> 8 * n"
  shows "\<exists>bs. encode_row_at cvs n row = Some bs \<and>
    read_row (map type_tag_of cvs) n (bs @ rest) = Some (map (\<lambda>cv. cells cv ! row) cvs, rest)"
proof -
  let ?nulls = "map (\<lambda>cv. cells cv ! row = None) cvs"
  have nulls: "those (map (\<lambda>cv. is_null_at cv row) cvs) = Some ?nulls"
    using assms(1) by (intro those_map) (simp add: is_null_cells)
  have zero: "\<not> bitmap_null (replicate n 0) k" if "k < 8 * n" for k
    using that by (simp add: bitmap_null_bit less_mult_imp_div_less mult.commute)
  obtain bm where bm: "build_bitmap ?nulls 0 (replicate n 0) = Some bm" "length bm = n"
    "\<forall>k < 8 * n. bitmap_null bm k \<longleftrightarrow> bitmap_null (replicate n 0) k \<or> (k < length cvs \<and> ?nulls ! k)"
    using build_bitmap_ok [of 0 ?nulls "replicate n 0"] assms(2) by auto
  have "\<forall>k < length cvs. bitmap_null bm (0 + k) \<longleftrightarrow> cells (cvs ! k) ! row = None"
    using bm(3) zero assms(2) by auto
  from read_cells_values [OF assms(1) _ this, of rest] bm(2) assms(2)
  obtain vals where "encode_values cvs 0 row bm = Some vals"
    "read_cells (map type_tag_of cvs) 0 bm (vals @ rest) = Some (map (\<lambda>cv. cells cv ! row) cvs, rest)" by auto
  then show ?thesis using nulls bm(1,2) by (simp add: encode_row_at_def read_row_def)
qed

lemma read_rows:
  assumes "\<And>row rest. row \<in> set rows \<Longrightarrow> \<exists>bs. enc row = Some bs \<and> get (bs @ rest) = Some (f row, rest)"
  shows "\<exists>bss. those (map enc rows) = Some bss \<and>
    (\<forall>rest. read_many get (length rows) (concat bss @ rest) = Some (map f rows, rest))"
  using assms
proof (induction rows)
  case (Cons row rows)
  then obtain bss where bss: "those (map enc rows) = Some bss"
    "\<forall>rest. read_many get (length rows) (concat bss @ rest) = Some (map f rows, rest)" by auto
  obtain bs where bs: "enc row = Some bs" using Cons.prems [of row] by auto
  have "get (bs @ rest) = Some (f row, rest)" for rest using Cons.prems [of row rest] bs by auto
  then show ?case using bss bs by simp
qed simp

lemma read_column_entry:
  assumes "rust_string (fst c)" "length (fst c) < 2 ^ 16"
  shows "read_column (column_entry c @ rest) = Some ((fst c, type_tag_of (snd c)), rest)"
proof -
  have "valid_tag (type_tag_of (snd c))" by (cases "snd c") (simp_all add: valid_tag_def tag_defs)
  then show ?thesis
    using assms read_bytes_append [of "[type_tag_of (snd c)]" 1 rest] by (simp add: column_entry_def read_column_def)
qed

lemma build_column_cells:
  assumes "column_ok cv"
  shows "cells (build_column (type_tag_of cv) (cells cv)) = cells cv \<and>
    column_ok (build_column (type_tag_of cv) (cells cv)) \<and> col_type (build_column (type_tag_of cv) (cells cv)) = col_type cv"
proof (cases cv)
  case (Utf8 c)
  have "map (map_option text_of) (cells cv) = utf8_values c"
    using Utf8 by (simp add: comp_def option.map_comp text_of_def option.map_ident)
  then show ?thesis using Utf8 assms utf8_ok_texts by (simp add: build_column_def tag_defs from_options_ok)
qed (simp_all add: build_column_def tag_defs i32_of_def i64_of_def comp_def option.map_comp)

lemma decode_encode_batch:
  assumes b: "batch_encodable b"
  shows "\<exists>bs. encode_batch b = Some (Inr bs) \<and>
    (\<forall>rest. \<exists>b'. decode_batch (bs @ rest) = Some b' \<and> batch_ok b' \<and> batch_schema b' = batch_schema b \<and>
      batch_rows b' = batch_rows b)"
proof -
  let ?cols = "rb_columns b" and ?n = "row_count b"
  let ?cvs = "map snd ?cols" and ?bl = "bitmap_len (length ?cols)"
  let ?row = "\<lambda>row. map (\<lambda>cv. cells cv ! row) ?cvs"
  have ok: "batch_ok b" and small: "length ?cols < 2 ^ 16" "?n < 2 ^ 32"
    and names: "\<forall>c \<in> set ?cols. rust_string (fst c) \<and> length (fst c) < 2 ^ 16"
    using b by (auto simp: batch_encodable_def list_all_iff)
  have cvs: "\<forall>cv \<in> set ?cvs. column_ok cv \<and> col_len cv = ?n" using ok by (auto simp: batch_ok_def list_all_iff)
  have "length ?cvs \<le> 8 * ?bl" by (simp add: bitmap_len_def)
  then have "\<exists>bs. encode_row_at ?cvs ?bl row = Some bs \<and>
      read_row (map type_tag_of ?cvs) ?bl (bs @ rest) = Some (?row row, rest)" if "row \<in> set [0..<?n]" for row rest
    using read_row_at [of ?cvs row ?bl rest] cvs that by auto
  from read_rows [of "[0..<?n]" "encode_row_at ?cvs ?bl" "read_row (map type_tag_of ?cvs) ?bl" ?row, OF this]
  obtain bss where rows:
    "those (map (encode_row_at ?cvs ?bl) [0..<?n]) = Some bss"
    "\<forall>rest. read_many (read_row (map type_tag_of ?cvs) ?bl) ?n (concat bss @ rest) = Some (map ?row [0..<?n], rest)"
    by auto
  have table: "read_many read_column (length ?cols) (concat (map column_entry ?cols) @ rest) =
      Some (map (\<lambda>c. (fst c, type_tag_of (snd c))) ?cols, rest)" for rest
  proof -
    have "\<exists>bss. those (map (\<lambda>c. Some (column_entry c)) ?cols) = Some bss \<and>
        (\<forall>rest. read_many read_column (length ?cols) (concat bss @ rest) = Some (map (\<lambda>c. (fst c, type_tag_of (snd c))) ?cols, rest))"
      by (rule read_rows) (use names read_column_entry in auto)
    moreover have "those (map (\<lambda>c. Some (column_entry c)) ?cols) = Some (map column_entry ?cols)" by (rule those_map) simp
    ultimately show ?thesis by auto
  qed
  let ?bs = "BATCH_MAGIC @ le_bytes 2 (length ?cols) @ le_bytes 4 ?n @ concat (map column_entry ?cols) @ concat bss"
  have "list_all (\<lambda>(_, cv). col_len cv = ?n) ?cols" using ok by (auto simp: batch_ok_def list_all_iff)
  then have enc: "encode_batch b = Some (Inr ?bs)" using rows(1) small by (simp add: encode_batch_def Let_def)
  define nc where "nc = build_columns (map (\<lambda>c. (fst c, type_tag_of (snd c))) ?cols) (map ?row [0..<?n])"
  have new: "nc = map (\<lambda>c. (fst c, build_column (type_tag_of (snd c)) (cells (snd c)))) ?cols"
  proof (rule nth_equalityI)
    fix i assume "i < length nc"
    then have i: "i < length ?cols" by (simp add: nc_def build_columns_def)
    have "map (\<lambda>row. row ! i) (map ?row [0..<?n]) = cells (snd (?cols ! i))"
      using i cvs by (intro nth_equalityI) auto
    then show "nc ! i = map (\<lambda>c. (fst c, build_column (type_tag_of (snd c)) (cells (snd c)))) ?cols ! i"
      using i by (simp add: nc_def build_columns_def)
  qed (simp add: nc_def build_columns_def)
  have built: "cells (build_column (type_tag_of cv) (cells cv)) = cells cv"
    "column_ok (build_column (type_tag_of cv) (cells cv))"
    "col_type (build_column (type_tag_of cv) (cells cv)) = col_type cv" if "cv \<in> set ?cvs" for cv
    using build_column_cells that cvs by auto
  have len: "col_len (build_column (type_tag_of cv) (cells cv)) = ?n" if "cv \<in> set ?cvs" for cv
    using arg_cong [OF built(1) [OF that], of length] bspec [OF cvs that] by simp
  have all: "list_all (\<lambda>(_, col). column_ok col \<and> col_len col = ?n) nc"
    using built len by (auto simp: new list_all_iff)
  have dec: "decode_batch (?bs @ rest) =
      (if nc = [] then Some batch_empty else (case batch_new nc of Inl _ \<Rightarrow> None | Inr b \<Rightarrow> Some b))" for rest
    using small table rows(2) by (simp add: nc_def decode_batch_def BATCH_MAGIC_def Let_def comp_def)
  have "\<exists>b'. decode_batch (?bs @ rest) = Some b' \<and> batch_ok b' \<and> batch_schema b' = batch_schema b \<and> batch_rows b' = batch_rows b" for rest
  proof (cases "?cols = []")
    case True
    then have "?n = 0" using ok by (simp add: batch_ok_def)
    then have "batch_schema batch_empty = batch_schema b" "batch_rows batch_empty = batch_rows b" "batch_ok batch_empty"
      using True by (simp_all add: batch_schema_def batch_rows_def batch_empty_def batch_ok_def)
    then show ?thesis using dec True by (simp add: new)
  next
    case False
    then have "nc \<noteq> []" by (simp add: new)
    then have "decode_batch (?bs @ rest) = Some \<lparr>rb_columns = nc, row_count = ?n\<rparr>"
      "batch_ok \<lparr>rb_columns = nc, row_count = ?n\<rparr>"
      using dec batch_new_ok [OF all] by simp_all
    moreover have "batch_schema \<lparr>rb_columns = nc, row_count = ?n\<rparr> = batch_schema b"
      using built(3) by (simp add: batch_schema_def new apsnd_def map_prod_def case_prod_beta)
    moreover have "row_at nc i = row_at ?cols i" for i
      unfolding new row_at_def using built(1) by (simp add: case_prod_beta)
    then have "batch_rows \<lparr>rb_columns = nc, row_count = ?n\<rparr> = batch_rows b" by (simp add: batch_rows_def)
    ultimately show ?thesis by blast
  qed
  with enc show ?thesis by blast
qed

section \<open>What the decoder accepts\<close>

definition row_text :: "cell option list \<Rightarrow> nat" where
  "row_text cs = sum_list (map (\<lambda>c. case c of None \<Rightarrow> 0 | Some c \<Rightarrow> length (text_of c)) cs)"

definition row_ok :: "nat \<Rightarrow> cell option list \<Rightarrow> bool" where
  "row_ok n cs \<longleftrightarrow> length cs = n \<and> list_all (\<lambda>c. case c of None \<Rightarrow> True | Some c \<Rightarrow> rust_string (text_of c)) cs"

lemma read_bytes_iff: "read_bytes n r = Some (x, r') \<longleftrightarrow> length x = n \<and> r = x @ r'"
  by (auto simp: read_bytes_def)

lemma read_le_less: "read_le k r = Some (n, r') \<Longrightarrow> n < 256 ^ k \<and> length r = k + length r'"
proof -
  assume "read_le k r = Some (n, r')"
  then obtain raw where "length raw = k" "r = raw @ r'" "n = be_value (rev raw)"
    by (auto simp: read_le_def read_bytes_iff)
  then show ?thesis using be_value_less [of "rev raw"] by simp
qed

lemma rust_string_empty [simp]: "rust_string []"
  by (simp add: rust_string_def str_bytes_def)

lemma read_cell_ok:
  assumes "read_cell tag r = Some (c, r')"
  shows "rust_string (text_of c) \<and> length (text_of c) + length r' \<le> length r"
proof (cases "tag = TAG_UTF8")
  case True
  then obtain len r1 s where "read_le 4 r = Some (len, r1)" "r1 = str_bytes s @ r'" "rust_string s" "c = CText s"
    using assms by (auto simp: read_cell_def tag_defs read_bytes_iff string_from_utf8_Some bind_eq_Some_conv)
  then show ?thesis using read_le_less by (fastforce simp: text_of_def)
next
  case False
  then show ?thesis using assms by (auto simp: read_cell_def text_of_def dest!: read_le_less split: if_splits)
qed

lemma read_cells_ok:
  "read_cells tags i bm r = Some (cs, r') \<Longrightarrow> row_ok (length tags) cs \<and> row_text cs + length r' \<le> length r"
proof (induction tags arbitrary: i r cs)
  case (Cons tag tags)
  then obtain c r1 cs' where c: "(if bitmap_null bm i then Some (None, r) else map_option (apfst Some) (read_cell tag r)) = Some (c, r1)"
    and cs': "read_cells tags (Suc i) bm r1 = Some (cs', r')" "cs = c # cs'"
    by (auto simp: bind_eq_Some_conv)
  have "(case c of None \<Rightarrow> r1 = r | Some c \<Rightarrow> rust_string (text_of c) \<and> length (text_of c) + length r1 \<le> length r)"
    using c read_cell_ok by (auto split: if_splits)
  then show ?case using Cons.IH [OF cs'(1)] cs'(2) by (auto simp: row_ok_def row_text_def split: option.splits)
qed (simp add: row_ok_def row_text_def)

lemma read_rows_ok:
  "read_many (read_row tags n) k r = Some (rows, r') \<Longrightarrow>
   length rows = k \<and> list_all (row_ok (length tags)) rows \<and> sum_list (map row_text rows) + length r' \<le> length r"
proof (induction k arbitrary: r rows)
  case (Suc k)
  from Suc.prems obtain row r1 rows' where first: "read_row tags n r = Some (row, r1)"
    and rows': "read_many (read_row tags n) k r1 = Some (rows', r')" "rows = row # rows'"
    by (auto simp: bind_eq_Some_conv)
  from first obtain bm r0 where "read_bytes n r = Some (bm, r0)" and row: "read_cells tags 0 bm r0 = Some (row, r1)"
    by (auto simp: bind_eq_Some_conv read_row_def)
  then have "length r0 \<le> length r" by (auto simp: read_bytes_iff)
  then show ?case using Suc.IH [OF rows'(1)] read_cells_ok [OF row] rows'(2) by auto
qed simp

lemma read_columns_ok:
  "read_many read_column k r = Some (cols, r') \<Longrightarrow>
   length cols = k \<and> list_all (\<lambda>(name, _). rust_string name \<and> length name < 2 ^ 16) cols \<and> length r' \<le> length r"
proof (induction k arbitrary: r cols)
  case (Suc k)
  then obtain c r1 cols' where c: "read_column r = Some (c, r1)"
    and cols': "read_many read_column k r1 = Some (cols', r')" "cols = c # cols'"
    by (auto simp: bind_eq_Some_conv)
  have "rust_string (fst c) \<and> length (fst c) < 2 ^ 16 \<and> length r1 \<le> length r"
    using c read_le_less [of 2 r]
    by (fastforce simp: read_column_def bind_eq_Some_conv read_bytes_iff string_from_utf8_Some split: if_splits)
  then show ?case using Suc.IH [OF cols'(1)] cols'(2) by (auto simp: case_prod_beta)
qed simp

lemma column_text_bound:
  assumes "list_all (row_ok n) rows" "i < n"
  shows "text_bytes (map (map_option text_of) (map (\<lambda>row. row ! i) rows)) \<le> sum_list (map row_text rows)"
  using assms
proof (induction rows)
  case (Cons row rows)
  have "(case row ! i of None \<Rightarrow> 0 | Some c \<Rightarrow> length (text_of c)) \<le> row_text row"
    using elem_le_sum_list [of i "map (\<lambda>c. case c of None \<Rightarrow> 0 | Some c \<Rightarrow> length (text_of c)) row"] Cons.prems
    by (simp add: row_text_def row_ok_def)
  then show ?case using Cons by (cases "row ! i") (simp_all add: text_bytes_def)
qed (simp add: text_bytes_def)

lemma build_column_ok:
  assumes "list_all (row_ok n) rows" "i < n" "sum_list (map row_text rows) < 2 ^ 32"
  shows "column_ok (build_column tag (map (\<lambda>row. row ! i) rows)) \<and>
    col_len (build_column tag (map (\<lambda>row. row ! i) rows)) = length rows"
proof -
  let ?vs = "map (map_option text_of) (map (\<lambda>row. row ! i) rows)"
  have "case row ! i of None \<Rightarrow> True | Some c \<Rightarrow> rust_string (text_of c)" if "row \<in> set rows" for row
    using assms(1,2) that by (auto simp: list_all_iff row_ok_def)
  then have "texts_ok ?vs"
    using column_text_bound [OF assms(1,2)] assms(3)
    by (fastforce simp: texts_ok_def list_all_iff split: option.splits)
  then show ?thesis by (simp add: build_column_def from_options_ok)
qed

lemma decode_batch_encodable:
  assumes dec: "decode_batch bs = Some b" and small: "length bs < 2 ^ 32"
  shows "batch_encodable b"
proof -
  obtain num_cols r1 num_rows r2 cols r3 rows r4 where
    h: "read_le 2 (drop 3 bs) = Some (num_cols, r1)" "read_le 4 r1 = Some (num_rows, r2)"
      "read_many read_column num_cols r2 = Some (cols, r3)"
      "read_many (read_row (map snd cols) (bitmap_len num_cols)) num_rows r3 = Some (rows, r4)"
    and b: "(if build_columns cols rows = [] then Some batch_empty
      else (case batch_new (build_columns cols rows) of Inl _ \<Rightarrow> None | Inr b \<Rightarrow> Some b)) = Some b"
    using dec by (auto simp: decode_batch_def bind_eq_Some_conv Let_def split: if_splits)
  note cols = read_columns_ok [OF h(3)] and rows = read_rows_ok [OF h(4)]
  have "length (drop 3 bs) \<le> length bs" by simp
  then have "sum_list (map row_text rows) < 2 ^ 32"
    using rows cols read_le_less [OF h(1)] read_le_less [OF h(2)] small by linarith
  then have built: "column_ok (build_column tag (map (\<lambda>row. row ! i) rows)) \<and>
      col_len (build_column tag (map (\<lambda>row. row ! i) rows)) = num_rows" if "i < length cols" for i tag
    using build_column_ok [of "length cols" rows i tag] rows that by simp
  have all: "list_all (\<lambda>(_, col). column_ok col \<and> col_len col = num_rows) (build_columns cols rows)"
    using built by (auto simp: build_columns_def list_all_iff)
  show ?thesis
  proof (cases "cols = []")
    case True
    then show ?thesis using b by (auto simp: build_columns_def batch_encodable_def batch_empty_def batch_ok_def)
  next
    case False
    then have "build_columns cols rows \<noteq> []" by (simp add: build_columns_def)
    then have "b = \<lparr>rb_columns = build_columns cols rows, row_count = num_rows\<rparr>" "batch_ok b"
      using b batch_new_ok [OF all] by auto
    moreover have "list_all (\<lambda>(name, _). rust_string name \<and> length name < 2 ^ 16) (build_columns cols rows)"
      using cols by (auto simp: build_columns_def list_all_iff list_all_length case_prod_beta)
    moreover have "length (build_columns cols rows) < 2 ^ 16" "num_rows < 2 ^ 32"
      using cols read_le_less [OF h(1)] read_le_less [OF h(2)] by (simp_all add: build_columns_def)
    ultimately show ?thesis by (simp add: batch_encodable_def)
  qed
qed

text \<open>The column count is cut to 16 bits, and the bitmap is sized by the cut count: with exactly 65536
  columns the bitmap is empty and the first row panics.\<close>

lemma too_many_columns_panic:
  assumes "batch_ok b" "length (rb_columns b) = 2 ^ 16" "0 < row_count b"
  shows "encode_batch b = None"
proof -
  obtain cv cvs where cvs: "map snd (rb_columns b) = cv # cvs" using assms(2) by (cases "rb_columns b") auto
  have vals: "encode_values (cv # cvs) 0 row [] = None" for row by simp
  have empty: "build_bitmap nulls i [] = None \<or> build_bitmap nulls i [] = Some []" for nulls i
    by (induction nulls arbitrary: i) auto
  have "encode_row_at (cv # cvs) 0 row = None" for row
  proof (cases "those (map (\<lambda>cv. is_null_at cv row) (cv # cvs))")
    case (Some nulls)
    then show ?thesis using empty [of nulls 0] vals unfolding encode_row_at_def by auto
  qed (simp add: encode_row_at_def del: list.map)
  then have "those (map (encode_row_at (cv # cvs) 0) [0..<row_count b]) = None"
    using assms(3) by (simp add: upt_rec)
  moreover have "list_all (\<lambda>(_, cv). col_len cv = row_count b) (rb_columns b)"
    using assms(1) by (auto simp: batch_ok_def list_all_iff)
  ultimately show ?thesis using assms(2) cvs by (simp add: encode_batch_def bitmap_len_def Let_def)
qed

section \<open>Properties\<close>

text \<open>C26. A record batch is read back as it was written: the encoder of a well-formed batch with fewer
  than 65536 columns and column-name bytes and fewer than 2 to the 32 rows returns bytes, and the
  decoder reads from them, whatever follows, a well-formed batch with the same column names and types
  and the same rows, nulls included, down to the bits of a float.\<close>

theorem batch_codec_roundtrip:
  assumes "batch_encodable b"
  shows "\<exists>bs. encode_batch b = Some (Inr bs) \<and>
    (\<forall>rest. \<exists>b'. decode_batch (bs @ rest) = Some b' \<and> batch_ok b' \<and> batch_schema b' = batch_schema b \<and>
      batch_rows b' = batch_rows b)"
  by (rule decode_encode_batch [OF assms])

theorem batch_codec_roundtrip_witness:
  "\<exists>bs b'. encode_batch sample_batch = Some (Inr bs) \<and> decode_batch bs = Some b' \<and>
     batch_rows b' = batch_rows sample_batch"
proof -
  have "batch_encodable sample_batch" by code_simp
  from batch_codec_roundtrip [OF this] obtain bs where "encode_batch sample_batch = Some (Inr bs)"
    "\<forall>rest. \<exists>b'. decode_batch (bs @ rest) = Some b' \<and> batch_ok b' \<and> batch_schema b' = batch_schema sample_batch \<and>
      batch_rows b' = batch_rows sample_batch" by blast
  then show ?thesis by (metis append_Nil2)
qed

text \<open>C27. Whatever bytes the decoder accepts, the batch it returns is well typed: all columns have the
  length of the batch, every valid slot of a text column holds valid UTF-8 within its data, names are
  valid UTF-8, and the batch is within the limits of the encoder, so it can be written again.\<close>

theorem decoded_batch_typed:
  assumes "decode_batch bs = Some b" "length bs < 2 ^ 32"
  shows "batch_encodable b"
  by (rule decode_batch_encodable [OF assms])

theorem decoded_batch_typed_witness:
  "batch_encodable \<lparr>rb_columns = [(''a'', Date32 [Some 5])], row_count = 1\<rparr>"
proof (rule decoded_batch_typed)
  show "decode_batch [0x4E, 0x42, 2, 1, 0, 1, 0, 0, 0, 1, 0, 0x61, 3, 0, 5, 0, 0, 0] =
      Some \<lparr>rb_columns = [(''a'', Date32 [Some 5])], row_count = 1\<rparr>" by code_simp
qed simp

end
