(* ===== verification/Btree_Map.thy ===== *)
theory Btree_Map
  imports Nb_Prelude
begin

text \<open>
  Rust's \<open>BTreeMap\<close> as the list of its entries in key order. \<open>insert\<close> replaces the value of a
  present key and otherwise puts the entry at its place; \<open>get\<close> is \<open>map_of\<close>; iteration is the
  list. The lemmas connect the list with the finite map it stands for.
\<close>

type_synonym ('k, 'v) btree = "('k \<times> 'v) list"

fun bt_insert :: "'k::linorder \<Rightarrow> 'v \<Rightarrow> ('k, 'v) btree \<Rightarrow> ('k, 'v) btree" where
  "bt_insert k v [] = [(k, v)]"
| "bt_insert k v ((k', v') # m) =
     (if k < k' then (k, v) # (k', v') # m
      else if k = k' then (k, v) # m
      else (k', v') # bt_insert k v m)"

definition bt_get :: "('k, 'v) btree \<Rightarrow> 'k \<Rightarrow> 'v option" where
  "bt_get m k = map_of m k"

definition bt_inv :: "('k::linorder, 'v) btree \<Rightarrow> bool" where
  "bt_inv m \<longleftrightarrow> sorted_wrt (<) (map fst m)"

text \<open>The map built by inserting a list of entries, as \<open>collect\<close> does.\<close>

definition bt_of_list :: "('k::linorder \<times> 'v) list \<Rightarrow> ('k, 'v) btree" where
  "bt_of_list kvs = foldl (\<lambda>m (k, v). bt_insert k v m) [] kvs"

lemma bt_inv_Nil [simp]: "bt_inv []"
  by (simp add: bt_inv_def)

lemma bt_inv_Cons: "bt_inv ((k, v) # m) \<longleftrightarrow> (\<forall>k' \<in> fst ` set m. k < k') \<and> bt_inv m"
  by (auto simp: bt_inv_def)

lemma bt_insert_keys: "fst ` set (bt_insert k v m) = insert k (fst ` set m)"
  by (induction k v m rule: bt_insert.induct) auto

lemma bt_insert_inv [simp]: "bt_inv m \<Longrightarrow> bt_inv (bt_insert k v m)"
  by (induction k v m rule: bt_insert.induct)
    (force simp: bt_inv_Cons bt_insert_keys intro: order.strict_trans)+

lemma map_of_bt_insert [simp]: "bt_inv m \<Longrightarrow> map_of (bt_insert k v m) = (map_of m)(k \<mapsto> v)"
  by (induction k v m rule: bt_insert.induct) (auto simp: bt_inv_Cons fun_eq_iff map_of_eq_None_iff)

lemma bt_inv_distinct: "bt_inv m \<Longrightarrow> distinct (map fst m)"
  by (simp add: bt_inv_def strict_sorted_iff)

lemma bt_in_iff: "bt_inv m \<Longrightarrow> (k, v) \<in> set m \<longleftrightarrow> map_of m k = Some v"
  using bt_inv_distinct [of m] by (metis map_of_eq_Some_iff)

text \<open>Two maps with the same entries are the same list.\<close>

lemma bt_eqI:
  assumes "bt_inv a" "bt_inv b" "map_of a = map_of b"
  shows "a = b"
proof -
  have d: "distinct (map fst a)" "distinct (map fst b)" using assms bt_inv_distinct by blast+
  then have "set a = set b" using assms(3) map_of_inject_set by blast
  moreover from this d have "inj_on fst (set a \<union> set b)" by (simp add: distinct_map)
  ultimately show ?thesis
    using assms d by (intro map_sorted_distinct_set_unique [of fst]) (auto simp: bt_inv_def strict_sorted_iff)
qed

lemma bt_foldl_inv [simp]: "bt_inv m \<Longrightarrow> bt_inv (foldl (\<lambda>m (k, v). bt_insert k v m) m kvs)"
  by (induction kvs arbitrary: m) auto

lemma bt_of_list_inv [simp]: "bt_inv (bt_of_list kvs)"
  by (simp add: bt_of_list_def)

lemma map_of_bt_foldl:
  "bt_inv m \<Longrightarrow> map_of (foldl (\<lambda>m (k, v). bt_insert k v m) m kvs) = map_of m ++ map_of (rev kvs)"
  by (induction kvs arbitrary: m) (auto simp: map_add_upd_left fun_eq_iff map_add_def split: option.split)

lemma map_of_bt_of_list: "map_of (bt_of_list kvs) = map_of (rev kvs)"
  by (simp add: bt_of_list_def map_of_bt_foldl)

lemma bt_of_list_distinct: "distinct (map fst kvs) \<Longrightarrow> map_of (bt_of_list kvs) = map_of kvs"
  using map_of_inject_set [of "rev kvs" kvs] by (simp add: map_of_bt_of_list rev_map [symmetric])

end
