(* ===== verification/Catalog.thy ===== *)
theory Catalog
  imports State_Machine Btree_Map
begin

text \<open>
  The schema catalogs of \<open>catalog.rs\<close> and \<open>rocksdb_catalog.rs\<close>. The in-memory catalog is the map
  from lower-cased names to schemas behind its lock. Unicode lower-casing is the argument \<open>lower\<close>,
  \<open>serde_json\<close> for schemas is the record \<open>schema_json\<close>.
\<close>

section \<open>The catalog in memory\<close>

type_synonym memory_catalog = "string \<Rightarrow> table_schema option"

definition register_table :: "(string \<Rightarrow> string) \<Rightarrow> table_schema \<Rightarrow> memory_catalog \<Rightarrow> memory_catalog" where
  "register_table lower table cat = cat(lower (schema_name table) \<mapsto> table)"

definition cat_create_table :: "(string \<Rightarrow> string) \<Rightarrow> table_schema \<Rightarrow> memory_catalog \<Rightarrow> memory_catalog" where
  "cat_create_table lower schema cat = register_table lower schema cat"

definition cat_drop_table :: "(string \<Rightarrow> string) \<Rightarrow> string \<Rightarrow> memory_catalog \<Rightarrow> memory_catalog" where
  "cat_drop_table lower name cat = cat(lower name := None)"

definition cat_get_table :: "(string \<Rightarrow> string) \<Rightarrow> memory_catalog \<Rightarrow> string \<Rightarrow> table_schema option" where
  "cat_get_table lower cat table_name = cat (lower table_name)"

definition replace_all :: "(string \<Rightarrow> string) \<Rightarrow> table_schema list \<Rightarrow> memory_catalog" where
  "replace_all lower schemas =
     foldl (\<lambda>replacement schema. replacement(lower (schema_name schema) \<mapsto> schema)) Map.empty schemas"

text \<open>The built-in schemas, in the order in which they are registered.\<close>

definition schema_of :: "string \<times> (string \<times> string) list \<Rightarrow> table_schema" where
  "schema_of p = \<lparr>schema_name = fst p,
     schema_columns = map (\<lambda>(n, t). \<lparr>col_name = n, col_data_type = t\<rparr>) (snd p)\<rparr>"

definition lineitem_schema :: table_schema where
  "lineitem_schema = schema_of (''lineitem'',
     [(''l_orderkey'', ''BIGINT''), (''l_partkey'', ''BIGINT''), (''l_quantity'', ''DOUBLE''),
      (''l_extendedprice'', ''DOUBLE''), (''l_discount'', ''DOUBLE''), (''l_shipdate'', ''DATE''),
      (''l_returnflag'', ''TEXT'')])"

definition tpch_extra :: "(string \<times> (string \<times> string) list) list" where
  "tpch_extra =
     [(''orders'',
        [(''o_orderkey'', ''BIGINT''), (''o_custkey'', ''BIGINT''), (''o_orderstatus'', ''TEXT''),
         (''o_totalprice'', ''DOUBLE''), (''o_orderdate'', ''DATE''), (''o_orderpriority'', ''TEXT''),
         (''o_shippriority'', ''INT''), (''o_comment'', ''TEXT'')]),
      (''customer'',
        [(''c_custkey'', ''BIGINT''), (''c_name'', ''TEXT''), (''c_nationkey'', ''BIGINT''),
         (''c_mktsegment'', ''TEXT''), (''c_acctbal'', ''DOUBLE''), (''c_phone'', ''TEXT''),
         (''c_address'', ''TEXT''), (''c_comment'', ''TEXT'')]),
      (''nation'',
        [(''n_nationkey'', ''BIGINT''), (''n_name'', ''TEXT''), (''n_regionkey'', ''BIGINT'')]),
      (''region'', [(''r_regionkey'', ''BIGINT''), (''r_name'', ''TEXT'')]),
      (''part'',
        [(''p_partkey'', ''BIGINT''), (''p_name'', ''TEXT''), (''p_mfgr'', ''TEXT''),
         (''p_brand'', ''TEXT''), (''p_type'', ''TEXT''), (''p_size'', ''INT''),
         (''p_container'', ''TEXT''), (''p_retailprice'', ''DOUBLE'')]),
      (''supplier'',
        [(''s_suppkey'', ''BIGINT''), (''s_name'', ''TEXT''), (''s_nationkey'', ''BIGINT''),
         (''s_acctbal'', ''DOUBLE''), (''s_address'', ''TEXT''), (''s_phone'', ''TEXT''),
         (''s_comment'', ''TEXT'')]),
      (''partsupp'',
        [(''ps_partkey'', ''BIGINT''), (''ps_suppkey'', ''BIGINT''), (''ps_availqty'', ''INT''),
         (''ps_supplycost'', ''DOUBLE'')])]"

definition tpch_schemas :: "table_schema list" where
  "tpch_schemas = lineitem_schema # map schema_of tpch_extra"

definition with_tpch_lineitem :: "(string \<Rightarrow> string) \<Rightarrow> memory_catalog" where
  "with_tpch_lineitem lower = register_table lower lineitem_schema Map.empty"

definition with_tpch_all_tables :: "(string \<Rightarrow> string) \<Rightarrow> memory_catalog" where
  "with_tpch_all_tables lower =
     foldl (\<lambda>cat p. register_table lower (schema_of p) cat) (with_tpch_lineitem lower) tpch_extra"

lemma with_tpch_eq: "with_tpch_all_tables lower = replace_all lower tpch_schemas"
  by (simp add: with_tpch_all_tables_def with_tpch_lineitem_def replace_all_def tpch_schemas_def
      register_table_def foldl_map)

section \<open>The durable catalog\<close>

record schema_json =
  json_of_schema :: "table_schema \<Rightarrow> string + bytes"
  schema_of_json :: "bytes \<Rightarrow> string + table_schema"

text \<open>The documented behaviour relied upon: what is written is read back, and what is read holds
  UTF-8 strings.\<close>

definition schema_json_ok :: "schema_json \<Rightarrow> bool" where
  "schema_json_ok j \<longleftrightarrow>
     (\<forall>s b. json_of_schema j s = Inr b \<longrightarrow> schema_of_json j b = Inr s) \<and>
     (\<forall>s b. schema_of_json j b = Inr s \<longrightarrow> rust_string (schema_name s) \<and>
        list_all (\<lambda>c. rust_string (col_name c) \<and> rust_string (col_data_type c)) (schema_columns s))"

definition INDEX_SENTINEL_PREFIX :: string where
  "INDEX_SENTINEL_PREFIX = ''__idx:''"

definition db_register_table ::
  "schema_json \<Rightarrow> (string \<Rightarrow> string) \<Rightarrow> 'db rocks \<Rightarrow> table_schema \<Rightarrow> 'db \<Rightarrow> storage_error + 'db" where
  "db_register_table j lower r schema d =
     rbind (map_err Serde (json_of_schema j schema)) (\<lambda>bs.
       write_catalog_entry r (lower (schema_name schema)) bs d)"

definition db_unregister_table ::
  "(string \<Rightarrow> string) \<Rightarrow> 'db rocks \<Rightarrow> string \<Rightarrow> 'db \<Rightarrow> storage_error + 'db" where
  "db_unregister_table lower r table_name d = delete_catalog_entry r (lower table_name) d"

fun load_keys ::
  "schema_json \<Rightarrow> (string \<Rightarrow> string) \<Rightarrow> 'db rocks \<Rightarrow> 'db \<Rightarrow> string list \<Rightarrow> memory_catalog \<Rightarrow>
   storage_error + memory_catalog" where
  "load_keys j lower r d [] mem = Inr mem"
| "load_keys j lower r d (key # keys) mem =
     (if starts_with key INDEX_SENTINEL_PREFIX then load_keys j lower r d keys mem
      else
        rbind (read_catalog_entry r key d) (\<lambda>entry.
          case entry of
            None \<Rightarrow> load_keys j lower r d keys mem
          | Some bs \<Rightarrow>
              rbind (map_err Serde (schema_of_json j bs)) (\<lambda>schema.
                load_keys j lower r d keys (register_table lower schema mem))))"

definition load_all ::
  "schema_json \<Rightarrow> (string \<Rightarrow> string) \<Rightarrow> 'db rocks \<Rightarrow> 'db \<Rightarrow> storage_error + memory_catalog" where
  "load_all j lower r d =
     rbind (list_catalog_keys r d) (\<lambda>keys. load_keys j lower r d keys Map.empty)"

definition db_get_table ::
  "schema_json \<Rightarrow> (string \<Rightarrow> string) \<Rightarrow> 'db rocks \<Rightarrow> 'db \<Rightarrow> string \<Rightarrow> table_schema option" where
  "db_get_table j lower r d table_name =
     (case read_catalog_entry r (lower table_name) d of
        Inr (Some bs) \<Rightarrow> (case schema_of_json j bs of Inr s \<Rightarrow> Some s | Inl _ \<Rightarrow> None)
      | _ \<Rightarrow> None)"

section \<open>A restart rebuilds the catalog\<close>

text \<open>Every schema entry of the store is filed under the lower-cased name of its schema.\<close>

definition catalog_filed :: "schema_json \<Rightarrow> (string \<Rightarrow> string) \<Rightarrow> contents \<Rightarrow> bool" where
  "catalog_filed j lower m \<longleftrightarrow>
     (\<forall>k v. m CF_CATALOG k = Some v \<longrightarrow> \<not> starts_with k (str_bytes INDEX_SENTINEL_PREFIX) \<longrightarrow>
        (\<exists>s. schema_of_json j v = Inr s \<and> k = str_bytes (lower (schema_name s)) \<and> utf8_valid k))"

text \<open>The catalog that the stored entries describe.\<close>

definition stored_catalog :: "schema_json \<Rightarrow> contents \<Rightarrow> memory_catalog" where
  "stored_catalog j m name =
     (if starts_with name INDEX_SENTINEL_PREFIX then None
      else case m CF_CATALOG (str_bytes name) of
        None \<Rightarrow> None
      | Some v \<Rightarrow> (case schema_of_json j v of Inr s \<Rightarrow> Some s | Inl _ \<Rightarrow> None))"

lemma str_bytes_inj: "str_bytes a = str_bytes b \<longleftrightarrow> a = b"
  by (metis bytes_str_str_bytes)

lemma starts_with_str_bytes: "starts_with (str_bytes a) (str_bytes b) \<longleftrightarrow> starts_with a b"
proof -
  have "take n (str_bytes a) = str_bytes (take n a)" for n by (simp add: str_bytes_def take_map)
  then show ?thesis by (simp add: starts_with_def str_bytes_inj)
qed

context rocks_store begin

lemma read_catalog_view: "read_catalog_entry r name d = Inr x \<Longrightarrow> x = view d CF_CATALOG (str_bytes name)"
  by (auto simp: read_catalog_entry_def result_simps dest: get_view)

lemma load_keys_view:
  assumes "load_keys j lower r d keys mem = Inr mem'" "catalog_filed j lower (view d)"
  shows "mem' name = (if name \<in> set keys \<and> stored_catalog j (view d) name \<noteq> None
    then stored_catalog j (view d) name else mem name)"
  using assms(1)
proof (induction keys arbitrary: mem)
  case (Cons key keys)
  show ?case
  proof (cases "starts_with key INDEX_SENTINEL_PREFIX")
    case True
    with Cons.prems Cons.IH [of mem] show ?thesis by (auto simp: stored_catalog_def)
  next
    case False
    with Cons.prems obtain entry where e: "read_catalog_entry r key d = Inr entry"
      by (auto simp: result_simps)
    then have entry: "entry = view d CF_CATALOG (str_bytes key)" by (rule read_catalog_view)
    show ?thesis
    proof (cases entry)
      case None
      with Cons.prems Cons.IH [of mem] False e entry show ?thesis by (auto simp: stored_catalog_def)
    next
      case (Some bs)
      with assms(2) entry False obtain s where s: "schema_of_json j bs = Inr s"
        "str_bytes key = str_bytes (lower (schema_name s))"
        by (fastforce simp: catalog_filed_def starts_with_str_bytes)
      then have key: "key = lower (schema_name s)" by (simp add: str_bytes_inj)
      with Cons.prems False e Some s have
        "load_keys j lower r d keys (mem(key \<mapsto> s)) = Inr mem'" by (simp add: register_table_def)
      from Cons.IH [OF this] Some entry s False show ?thesis by (auto simp: stored_catalog_def)
    qed
  qed
qed simp

lemma list_catalog_keys_view:
  "list_catalog_keys r d = Inr keys \<Longrightarrow>
   set keys = {name. rust_string name \<and> view d CF_CATALOG (str_bytes name) \<noteq> None}"
proof -
  assume "list_catalog_keys r d = Inr keys"
  then have "keys = List.map_filter string_from_utf8 (sorted_list_of_set (dom (view d CF_CATALOG)))"
    by (simp add: list_catalog_keys_def seek_view pairs_from_def List.map_filter_def filter_map comp_def)
  then show ?thesis
    using finite_view [of d CF_CATALOG]
    by (force simp: List.map_filter_def string_from_utf8_Some image_iff)
qed

lemma load_all_catalog:
  assumes "load_all j lower r d = Inr cat" "catalog_filed j lower (view d)"
  shows "cat = stored_catalog j (view d)"
proof
  fix name
  from assms(1) obtain keys where keys: "list_catalog_keys r d = Inr keys"
    "load_keys j lower r d keys Map.empty = Inr cat"
    by (auto simp: load_all_def result_simps)
  have "rust_string name" if "stored_catalog j (view d) name \<noteq> None"
  proof -
    from that obtain v where v: "view d CF_CATALOG (str_bytes name) = Some v"
      "\<not> starts_with name INDEX_SENTINEL_PREFIX"
      by (auto simp: stored_catalog_def split: if_splits option.splits)
    with assms(2) have "utf8_valid (str_bytes name)"
      unfolding catalog_filed_def by (metis starts_with_str_bytes)
    then show ?thesis by (simp add: rust_string_def)
  qed
  moreover have "view d CF_CATALOG (str_bytes name) \<noteq> None" if "stored_catalog j (view d) name \<noteq> None"
    using that by (auto simp: stored_catalog_def split: if_splits option.splits)
  ultimately show "cat name = stored_catalog j (view d) name"
    using load_keys_view [OF keys(2) assms(2), of name] list_catalog_keys_view [OF keys(1)]
    by (cases "stored_catalog j (view d) name") simp_all
qed

end

text \<open>How registration and removal change the stored catalog.\<close>

context rocks_store begin

lemma registered_view:
  assumes "db_register_table j lower r schema d = Inr d'" "schema_json_ok j" "catalog_filed j lower (view d)"
    and "rust_string (lower (schema_name schema))" "\<not> starts_with (lower (schema_name schema)) INDEX_SENTINEL_PREFIX"
  shows "catalog_filed j lower (view d')"
    "stored_catalog j (view d') = register_table lower schema (stored_catalog j (view d))"
proof -
  from assms(1) obtain b where b: "json_of_schema j schema = Inr b"
      "view d' = apply_op (Put CF_CATALOG (str_bytes (lower (schema_name schema))) b) (view d)"
    by (auto simp: db_register_table_def write_catalog_entry_def result_simps dest: put_view)
  then have s: "schema_of_json j b = Inr schema" using assms(2) by (simp add: schema_json_ok_def)
  show "catalog_filed j lower (view d')"
    using assms(3,4) b s by (auto simp: catalog_filed_def rust_string_def)
  show "stored_catalog j (view d') = register_table lower schema (stored_catalog j (view d))"
    using b s assms(5) by (auto simp: stored_catalog_def register_table_def str_bytes_inj fun_eq_iff)
qed

lemma unregistered_view:
  assumes "db_unregister_table lower r name d = Inr d'" "catalog_filed j lower (view d)"
  shows "catalog_filed j lower (view d')"
    "stored_catalog j (view d') = cat_drop_table lower name (stored_catalog j (view d))"
proof -
  from assms(1) have d': "view d' = apply_op (Delete CF_CATALOG (str_bytes (lower name))) (view d)"
    by (auto simp: db_unregister_table_def delete_catalog_entry_def result_simps dest: delete_view)
  show "catalog_filed j lower (view d')" using assms(2) d' by (auto simp: catalog_filed_def)
  show "stored_catalog j (view d') = cat_drop_table lower name (stored_catalog j (view d))"
    using d' by (auto simp: stored_catalog_def cat_drop_table_def str_bytes_inj fun_eq_iff)
qed

end

text \<open>C20. The durable catalog follows the one in memory: registering a table in the store and
  restarting gives the catalog that a restart before would have given with the table registered
  in memory, and removing a table and restarting gives it with the table removed.\<close>

theorem restart_rebuilds_catalog:
  assumes "rocks_store r view" "schema_json_ok j" "catalog_filed j lower (view d)"
    and "load_all j lower r d = Inr cat"
    and "rust_string (lower (schema_name schema))" "\<not> starts_with (lower (schema_name schema)) INDEX_SENTINEL_PREFIX"
    and "db_register_table j lower r schema d = Inr d1" "load_all j lower r d1 = Inr cat1"
    and "db_unregister_table lower r name d1 = Inr d2" "load_all j lower r d2 = Inr cat2"
  shows "cat1 = register_table lower schema cat \<and> cat2 = cat_drop_table lower name cat1"
proof -
  note reg = rocks_store.registered_view [OF assms(1,7,2,3,5,6)]
  note unreg = rocks_store.unregistered_view [OF assms(1,9) reg(1)]
  show ?thesis
    using rocks_store.load_all_catalog [OF assms(1,4,3)] rocks_store.load_all_catalog [OF assms(1,8) reg(1)]
      rocks_store.load_all_catalog [OF assms(1,10) unreg(1)] reg(2) unreg(2) by simp
qed

definition sample_cat_schema :: table_schema where
  "sample_cat_schema = \<lparr>schema_name = ''t'', schema_columns = []\<rparr>"

definition sample_cat_json :: schema_json where
  "sample_cat_json =
     \<lparr>json_of_schema = (\<lambda>s. if s = sample_cat_schema then Inr [1] else Inl []),
      schema_of_json = (\<lambda>b. if b = [1] then Inr sample_cat_schema else Inl [])\<rparr>"

definition sample_cat_db :: mem_db where
  "sample_cat_db = mem_put CF_CATALOG (str_bytes ''t'') [1] mem_open"

theorem restart_rebuilds_catalog_witness:
  "projr (load_all sample_cat_json (\<lambda>s. s) mem_rocks sample_cat_db) =
     register_table (\<lambda>s. s) sample_cat_schema (projr (load_all sample_cat_json (\<lambda>s. s) mem_rocks mem_open)) \<and>
   projr (load_all sample_cat_json (\<lambda>s. s) mem_rocks (mem_del CF_CATALOG (str_bytes ''t'') sample_cat_db)) =
     cat_drop_table (\<lambda>s. s) ''t'' (projr (load_all sample_cat_json (\<lambda>s. s) mem_rocks sample_cat_db))"
proof -
  let ?l = "load_all sample_cat_json (\<lambda>s. s) mem_rocks"
  have t: "rust_string ''t''" by (simp add: ascii_rust_string)
  have ok: "is_ok (?l mem_open)" "is_ok (?l sample_cat_db)"
      "is_ok (?l (mem_del CF_CATALOG (str_bytes ''t'') sample_cat_db))" by code_simp+
  then have l: "?l mem_open = Inr (projr (?l mem_open))" "?l sample_cat_db = Inr (projr (?l sample_cat_db))"
      "?l (mem_del CF_CATALOG (str_bytes ''t'') sample_cat_db) =
        Inr (projr (?l (mem_del CF_CATALOG (str_bytes ''t'') sample_cat_db)))"
    by (auto simp: is_ok_iff)
  have j: "schema_json_ok sample_cat_json"
    using t by (auto simp: schema_json_ok_def sample_cat_json_def sample_cat_schema_def split: if_splits)
  have f: "catalog_filed sample_cat_json (\<lambda>s. s) (mem_view mem_open)"
    by (simp add: catalog_filed_def mem_view_open)
  have r: "db_register_table sample_cat_json (\<lambda>s. s) mem_rocks sample_cat_schema mem_open = Inr sample_cat_db"
    "db_unregister_table (\<lambda>s. s) mem_rocks ''t'' sample_cat_db = Inr (mem_del CF_CATALOG (str_bytes ''t'') sample_cat_db)"
    by (simp_all add: db_register_table_def db_unregister_table_def write_catalog_entry_def delete_catalog_entry_def
        sample_cat_json_def sample_cat_db_def mem_rocks_def sample_cat_schema_def)
  show ?thesis
    by (rule restart_rebuilds_catalog [OF mem_store_laws.rocks_store_axioms j f l(1) _ _ r(1) l(2) r(2) l(3)])
      (simp_all add: sample_cat_schema_def t INDEX_SENTINEL_PREFIX_def starts_with_def)
qed

end
