(* ===== verification/Sql_Snapshot.thy ===== *)
theory Sql_Snapshot
  imports State_Machine
begin

text \<open>
  The logical snapshot of \<open>replicated_snapshot.rs\<close> and the identity envelope that
  \<open>replicated_identity_snapshot.rs\<close> puts into its extension field. The artifact holds the Raft
  boundary, the apply cursor, the table schemas and the newest rows, followed by a SHA-256 digest.

  The writers append to a growing buffer and check its size at every step; a writer here takes the
  buffer and returns the longer one. Lower-casing and SHA-256 are the arguments \<open>lower\<close> and
  \<open>sha\<close>. The main result is that the decoder accepts exactly the canonical encodings.
\<close>

section \<open>The artifact\<close>

record snapshot_metadata =
  last_included_index :: u64
  last_included_term :: u64
  latest_sql_apply_index :: u64
  latest_commit_ts :: u64

record snapshot_row =
  sr_primary_key :: bytes
  sr_value :: bytes

record snapshot_table =
  sn_schema :: table_schema
  sn_table_id :: u32
  sn_rows :: "snapshot_row list"

record sql_snapshot =
  sn_metadata :: snapshot_metadata
  sn_tables :: "snapshot_table list"
  metadata_extension :: bytes

datatype snapshot_codec_error =
    SnTooLarge | SnUnexpectedEof | SnInvalidMagic | SnUnsupportedVersion u8 | SnUnsupportedFlags u8
  | SnChecksumMismatch | SnInvalidUtf8 | SnEmptyTableName | SnEmptyColumnName | SnEmptyColumnType
  | SnTooManyItems string | SnFieldTooLarge string | SnNonCanonicalTableOrder | SnNonCanonicalRowOrder
  | SnTableIdMismatch string u32 u32 | SnApplyIndexBeyondSnapshot u64 u64
  | SnTimestampWithoutApplyIndex | SnTrailingBytes

definition NBSN_MAGIC :: bytes where "NBSN_MAGIC = str_bytes ''NBSN''"
definition REPLICATED_SNAPSHOT_VERSION :: u8 where "REPLICATED_SNAPSHOT_VERSION = 1"
definition MAX_REPLICATED_SNAPSHOT_BYTES :: nat where "MAX_REPLICATED_SNAPSHOT_BYTES = 512 * 1024 * 1024"
definition CHECKSUM_BYTES :: nat where "CHECKSUM_BYTES = 32"
definition MAX_TABLES :: nat where "MAX_TABLES = 100000"
definition MAX_COLUMNS_PER_TABLE :: nat where "MAX_COLUMNS_PER_TABLE = 4096"
definition MAX_ROWS_PER_TABLE :: nat where "MAX_ROWS_PER_TABLE = 10000000"
definition MAX_FIELD_BYTES :: nat where "MAX_FIELD_BYTES = 64 * 1024 * 1024"
definition MAX_EXTENSION_BYTES :: nat where "MAX_EXTENSION_BYTES = 16 * 1024 * 1024"

section \<open>Validation\<close>

definition validate_metadata :: "snapshot_metadata \<Rightarrow> snapshot_codec_error + unit" where
  "validate_metadata md =
     (if last_included_index md < latest_sql_apply_index md
      then Inl (SnApplyIndexBeyondSnapshot (latest_sql_apply_index md) (last_included_index md))
      else if latest_sql_apply_index md = 0 \<and> latest_commit_ts md \<noteq> 0
      then Inl SnTimestampWithoutApplyIndex
      else Inr ())"

definition validate_extension :: "bytes \<Rightarrow> snapshot_codec_error + unit" where
  "validate_extension extension =
     (if MAX_EXTENSION_BYTES < length extension then Inl (SnFieldTooLarge ''metadata extension'')
      else Inr ())"

definition validate_field :: "bytes \<Rightarrow> string \<Rightarrow> snapshot_codec_error + unit" where
  "validate_field value field =
     (if MAX_FIELD_BYTES < length value \<or> \<not> length value < 2 ^ 32
      then Inl (SnFieldTooLarge field) else Inr ())"

fun validate_columns :: "column_def list \<Rightarrow> snapshot_codec_error + unit" where
  "validate_columns [] = Inr ()"
| "validate_columns (c # cs) =
     (if col_name c = [] then Inl SnEmptyColumnName
      else if col_data_type c = [] then Inl SnEmptyColumnType
      else
        rbind (validate_field (str_bytes (col_name c)) ''column name'') (\<lambda>_.
        rbind (validate_field (str_bytes (col_data_type c)) ''column type'') (\<lambda>_.
          validate_columns cs)))"

fun validate_rows :: "snapshot_row list \<Rightarrow> snapshot_codec_error + unit" where
  "validate_rows [] = Inr ()"
| "validate_rows (w # ws) =
     rbind (validate_field (sr_primary_key w) ''primary key'') (\<lambda>_.
     rbind (validate_field (sr_value w) ''row value'') (\<lambda>_. validate_rows ws))"

definition validate_table :: "snapshot_table \<Rightarrow> snapshot_codec_error + unit" where
  "validate_table t =
     (let name = schema_name (sn_schema t) in
      if name = [] then Inl SnEmptyTableName
      else if MAX_COLUMNS_PER_TABLE < length (schema_columns (sn_schema t))
      then Inl (SnTooManyItems ''columns'')
      else if MAX_ROWS_PER_TABLE < length (sn_rows t) then Inl (SnTooManyItems ''rows'')
      else
        rbind (validate_columns (schema_columns (sn_schema t))) (\<lambda>_.
        rbind (validate_field (str_bytes name) ''table name'') (\<lambda>_.
        rbind (validate_rows (sn_rows t)) (\<lambda>_.
          if sn_table_id t \<noteq> table_id_for name
          then Inl (SnTableIdMismatch name (sn_table_id t) (table_id_for name)) else Inr ()))))"

definition ensure_table_order ::
  "(string \<Rightarrow> string) \<Rightarrow> snapshot_table list \<Rightarrow> snapshot_codec_error + unit" where
  "ensure_table_order lower tables =
     (let key = (\<lambda>t. lower (schema_name (sn_schema t))) in
      require (list_all (\<lambda>(a, b). \<not> key b \<le> key a) (zip tables (tl tables))) SnNonCanonicalTableOrder)"

definition ensure_row_order :: "snapshot_row list \<Rightarrow> snapshot_codec_error + unit" where
  "ensure_row_order rows =
     require (list_all (\<lambda>(a, b). \<not> sr_primary_key b \<le> sr_primary_key a) (zip rows (tl rows)))
       SnNonCanonicalRowOrder"

section \<open>Encoder\<close>

type_synonym sn_writer = "bytes \<Rightarrow> snapshot_codec_error + bytes"

definition sn_put_raw :: "bytes \<Rightarrow> sn_writer" where
  "sn_put_raw value out =
     (if MAX_REPLICATED_SNAPSHOT_BYTES < length out + length value then Inl SnTooLarge
      else Inr (out @ value))"

definition sn_put_u8 :: "u8 \<Rightarrow> sn_writer" where
  "sn_put_u8 v = sn_put_raw [v]"

definition sn_put_u32 :: "u32 \<Rightarrow> sn_writer" where
  "sn_put_u32 v = sn_put_raw (wr_u32 v)"

definition sn_put_u64 :: "u64 \<Rightarrow> sn_writer" where
  "sn_put_u64 v = sn_put_raw (wr_u64 v)"

definition sn_put_count :: "nat \<Rightarrow> nat \<Rightarrow> string \<Rightarrow> sn_writer" where
  "sn_put_count v limit item out =
     (if limit < v then Inl (SnTooManyItems item)
      else if \<not> v < 2 ^ 32 then Inl (SnTooManyItems item)
      else sn_put_u32 (of_nat v) out)"

definition sn_put_bytes_with_limit :: "bytes \<Rightarrow> nat \<Rightarrow> string \<Rightarrow> sn_writer" where
  "sn_put_bytes_with_limit value limit field out =
     (if limit < length value then Inl (SnFieldTooLarge field)
      else if \<not> length value < 2 ^ 32 then Inl (SnFieldTooLarge field)
      else rbind (sn_put_u32 (of_nat (length value)) out) (sn_put_raw value))"

definition sn_put_bytes :: "bytes \<Rightarrow> string \<Rightarrow> sn_writer" where
  "sn_put_bytes value field = sn_put_bytes_with_limit value MAX_FIELD_BYTES field"

definition sn_put_string :: "string \<Rightarrow> string \<Rightarrow> sn_writer" where
  "sn_put_string value field = sn_put_bytes (str_bytes value) field"

definition sn_then :: "sn_writer \<Rightarrow> sn_writer \<Rightarrow> sn_writer" where
  "sn_then a b out = rbind (a out) b"

fun sn_each :: "('a \<Rightarrow> sn_writer) \<Rightarrow> 'a list \<Rightarrow> sn_writer" where
  "sn_each put [] out = Inr out"
| "sn_each put (x # xs) out = rbind (put x out) (sn_each put xs)"

definition sn_put_column :: "column_def \<Rightarrow> sn_writer" where
  "sn_put_column c =
     sn_then (sn_put_string (col_name c) ''column name'') (sn_put_string (col_data_type c) ''column type'')"

definition sn_put_row :: "snapshot_row \<Rightarrow> sn_writer" where
  "sn_put_row w =
     sn_then (sn_put_bytes (sr_primary_key w) ''primary key'') (sn_put_bytes (sr_value w) ''row value'')"

definition sn_put_table :: "snapshot_table \<Rightarrow> sn_writer" where
  "sn_put_table t =
     sn_then (sn_put_u32 (sn_table_id t))
    (sn_then (sn_put_string (schema_name (sn_schema t)) ''table name'')
    (sn_then (sn_put_count (length (schema_columns (sn_schema t))) MAX_COLUMNS_PER_TABLE ''columns'')
    (sn_then (sn_each sn_put_column (schema_columns (sn_schema t)))
    (sn_then (sn_put_count (length (sn_rows t)) MAX_ROWS_PER_TABLE ''rows'')
             (sn_each sn_put_row (sn_rows t))))))"

text \<open>The loop that validates each table and puts its rows in order.\<close>

fun prepare_tables :: "snapshot_table list \<Rightarrow> snapshot_codec_error + snapshot_table list" where
  "prepare_tables [] = Inr []"
| "prepare_tables (t # ts) =
     rbind (validate_table t) (\<lambda>_.
       let t' = t\<lparr>sn_rows := sort_key sr_primary_key (sn_rows t)\<rparr> in
       rbind (ensure_row_order (sn_rows t')) (\<lambda>_.
       rbind (prepare_tables ts) (\<lambda>ts'. Inr (t' # ts'))))"

definition write_snapshot :: "snapshot_metadata \<Rightarrow> snapshot_table list \<Rightarrow> bytes \<Rightarrow> sn_writer" where
  "write_snapshot md tables extension =
     sn_then (sn_put_raw NBSN_MAGIC)
    (sn_then (sn_put_u8 REPLICATED_SNAPSHOT_VERSION)
    (sn_then (sn_put_u8 0)
    (sn_then (sn_put_u64 (last_included_index md))
    (sn_then (sn_put_u64 (last_included_term md))
    (sn_then (sn_put_u64 (latest_sql_apply_index md))
    (sn_then (sn_put_u64 (latest_commit_ts md))
    (sn_then (sn_put_count (length tables) MAX_TABLES ''tables'')
    (sn_then (sn_each sn_put_table tables)
             (sn_put_bytes_with_limit extension MAX_EXTENSION_BYTES ''metadata extension'')))))))))"

definition snapshot_encode ::
  "(string \<Rightarrow> string) \<Rightarrow> (bytes \<Rightarrow> bytes) \<Rightarrow> sql_snapshot \<Rightarrow> snapshot_codec_error + bytes" where
  "snapshot_encode lower sha s =
     rbind (validate_metadata (sn_metadata s)) (\<lambda>_.
     rbind (validate_extension (metadata_extension s)) (\<lambda>_.
     rbind (prepare_tables (sn_tables s)) (\<lambda>prepared.
       let tables = sort_key (\<lambda>t. lower (schema_name (sn_schema t))) prepared in
       rbind (ensure_table_order lower tables) (\<lambda>_.
       rbind (write_snapshot (sn_metadata s) tables (metadata_extension s) []) (\<lambda>out.
         if MAX_REPLICATED_SNAPSHOT_BYTES - CHECKSUM_BYTES < length out then Inl SnTooLarge
         else sn_put_raw (sha out) out)))))"

section \<open>Decoder\<close>

definition sn_rd_count :: "nat \<Rightarrow> string \<Rightarrow> bytes \<Rightarrow> snapshot_codec_error + nat \<times> bytes" where
  "sn_rd_count limit item r =
     rbind (rd_u32 SnUnexpectedEof r) (\<lambda>(count, r).
       if limit < unat count then Inl (SnTooManyItems item) else Inr (unat count, r))"

definition sn_rd_bytes_with_limit :: "nat \<Rightarrow> string \<Rightarrow> bytes \<Rightarrow> snapshot_codec_error + bytes \<times> bytes" where
  "sn_rd_bytes_with_limit limit field r =
     rbind (rd_u32 SnUnexpectedEof r) (\<lambda>(len, r).
       if limit < unat len then Inl (SnFieldTooLarge field) else rd_take SnUnexpectedEof (unat len) r)"

definition sn_rd_bytes :: "string \<Rightarrow> bytes \<Rightarrow> snapshot_codec_error + bytes \<times> bytes" where
  "sn_rd_bytes field = sn_rd_bytes_with_limit MAX_FIELD_BYTES field"

definition sn_rd_string :: "string \<Rightarrow> bytes \<Rightarrow> snapshot_codec_error + string \<times> bytes" where
  "sn_rd_string field r =
     rbind (sn_rd_bytes field r) (\<lambda>(raw, r).
     rbind (ok_or (string_from_utf8 raw) SnInvalidUtf8) (\<lambda>s. Inr (s, r)))"

definition sn_rd_column :: "bytes \<Rightarrow> snapshot_codec_error + column_def \<times> bytes" where
  "sn_rd_column r =
     rbind (sn_rd_string ''column name'' r) (\<lambda>(column_name, r).
     rbind (require (column_name \<noteq> []) SnEmptyColumnName) (\<lambda>_.
     rbind (sn_rd_string ''column type'' r) (\<lambda>(data_type, r).
     rbind (require (data_type \<noteq> []) SnEmptyColumnType) (\<lambda>_.
       Inr (\<lparr>col_name = column_name, col_data_type = data_type\<rparr>, r)))))"

definition sn_rd_row :: "bytes \<Rightarrow> snapshot_codec_error + snapshot_row \<times> bytes" where
  "sn_rd_row r =
     rbind (sn_rd_bytes ''primary key'' r) (\<lambda>(k, r).
     rbind (sn_rd_bytes ''row value'' r) (\<lambda>(v, r).
       Inr (\<lparr>sr_primary_key = k, sr_value = v\<rparr>, r)))"

definition sn_rd_table :: "bytes \<Rightarrow> snapshot_codec_error + snapshot_table \<times> bytes" where
  "sn_rd_table r =
     rbind (rd_u32 SnUnexpectedEof r) (\<lambda>(table_id, r).
     rbind (sn_rd_string ''table name'' r) (\<lambda>(name, r).
     rbind (require (name \<noteq> []) SnEmptyTableName) (\<lambda>_.
     rbind (sn_rd_count MAX_COLUMNS_PER_TABLE ''columns'' r) (\<lambda>(column_count, r).
     rbind (rd_many sn_rd_column column_count r) (\<lambda>(columns, r).
     rbind (sn_rd_count MAX_ROWS_PER_TABLE ''rows'' r) (\<lambda>(row_count, r).
     rbind (rd_many sn_rd_row row_count r) (\<lambda>(rows, r).
     rbind (ensure_row_order rows) (\<lambda>_.
       let t = \<lparr>sn_schema = \<lparr>schema_name = name, schema_columns = columns\<rparr>,
                sn_table_id = table_id, sn_rows = rows\<rparr>
       in rbind (validate_table t) (\<lambda>_. Inr (t, r))))))))))"

definition sn_rd_metadata :: "bytes \<Rightarrow> snapshot_codec_error + snapshot_metadata \<times> bytes" where
  "sn_rd_metadata r =
     rbind (rd_u64 SnUnexpectedEof r) (\<lambda>(a, r).
     rbind (rd_u64 SnUnexpectedEof r) (\<lambda>(b, r).
     rbind (rd_u64 SnUnexpectedEof r) (\<lambda>(c, r).
     rbind (rd_u64 SnUnexpectedEof r) (\<lambda>(d, r).
       Inr (\<lparr>last_included_index = a, last_included_term = b,
             latest_sql_apply_index = c, latest_commit_ts = d\<rparr>, r)))))"

definition decode_payload ::
  "(string \<Rightarrow> string) \<Rightarrow> bytes \<Rightarrow> snapshot_codec_error + sql_snapshot" where
  "decode_payload lower payload =
     rbind (rd_take SnUnexpectedEof 4 payload) (\<lambda>(magic, r).
     rbind (require (magic = NBSN_MAGIC) SnInvalidMagic) (\<lambda>_.
     rbind (rd_u8 SnUnexpectedEof r) (\<lambda>(version, r).
     rbind (require (version = REPLICATED_SNAPSHOT_VERSION) (SnUnsupportedVersion version)) (\<lambda>_.
     rbind (rd_u8 SnUnexpectedEof r) (\<lambda>(flags, r).
     rbind (require (flags = 0) (SnUnsupportedFlags flags)) (\<lambda>_.
     rbind (sn_rd_metadata r) (\<lambda>(md, r).
     rbind (validate_metadata md) (\<lambda>_.
     rbind (sn_rd_count MAX_TABLES ''tables'' r) (\<lambda>(table_count, r).
     rbind (rd_many sn_rd_table table_count r) (\<lambda>(tables, r).
     rbind (ensure_table_order lower tables) (\<lambda>_.
     rbind (sn_rd_bytes_with_limit MAX_EXTENSION_BYTES ''metadata extension'' r) (\<lambda>(extension, r).
       if r \<noteq> [] then Inl SnTrailingBytes
       else Inr \<lparr>sn_metadata = md, sn_tables = tables, metadata_extension = extension\<rparr>))))))))))))"

definition snapshot_decode ::
  "(string \<Rightarrow> string) \<Rightarrow> (bytes \<Rightarrow> bytes) \<Rightarrow> bytes \<Rightarrow> snapshot_codec_error + sql_snapshot" where
  "snapshot_decode lower sha bs =
     (if MAX_REPLICATED_SNAPSHOT_BYTES < length bs then Inl SnTooLarge
      else if length bs < CHECKSUM_BYTES then Inl SnUnexpectedEof
      else
        let payload_len = length bs - CHECKSUM_BYTES;
            payload = take payload_len bs; checksum = drop payload_len bs
        in if sha payload \<noteq> checksum then Inl SnChecksumMismatch else decode_payload lower payload)"

section \<open>Writers append\<close>

text \<open>A writer that appends the bytes of \<open>w\<close>, up to the size limit.\<close>

definition appends :: "sn_writer \<Rightarrow> snapshot_codec_error + bytes \<Rightarrow> bool" where
  "appends p w \<longleftrightarrow>
     (\<forall>out out'. length out \<le> MAX_REPLICATED_SNAPSHOT_BYTES \<longrightarrow>
        (p out = Inr out' \<longleftrightarrow>
         (\<exists>bs. w = Inr bs \<and> out' = out @ bs \<and> length out' \<le> MAX_REPLICATED_SNAPSHOT_BYTES)))"

named_theorems appends_intro \<open>what the writers append\<close>

lemma appends_raw [appends_intro]: "appends (sn_put_raw v) (Inr v)"
  by (auto simp: appends_def sn_put_raw_def)

lemma appends_num [appends_intro]:
  "appends (sn_put_u8 b) (Inr [b])" "appends (sn_put_u32 v) (Inr (wr_u32 v))" "appends (sn_put_u64 w) (Inr (wr_u64 w))"
  by (simp_all add: sn_put_u8_def sn_put_u32_def sn_put_u64_def appends_raw)

lemma appends_then [appends_intro]:
  assumes "appends p v" "appends q w"
  shows "appends (sn_then p q) (rbind v (\<lambda>a. rbind w (\<lambda>b. Inr (a @ b))))"
  unfolding appends_def
proof (intro allI impI)
  fix out out' :: bytes
  assume len: "length out \<le> MAX_REPLICATED_SNAPSHOT_BYTES"
  have p: "p out = Inr o1 \<longleftrightarrow> (\<exists>bs. v = Inr bs \<and> o1 = out @ bs \<and> length o1 \<le> MAX_REPLICATED_SNAPSHOT_BYTES)" for o1
    using assms(1) len by (simp add: appends_def)
  have q: "q o1 = Inr out' \<longleftrightarrow> (\<exists>bs. w = Inr bs \<and> out' = o1 @ bs \<and> length out' \<le> MAX_REPLICATED_SNAPSHOT_BYTES)"
    if "length o1 \<le> MAX_REPLICATED_SNAPSHOT_BYTES" for o1
    using assms(2) that by (simp add: appends_def)
  show "sn_then p q out = Inr out' \<longleftrightarrow>
      (\<exists>bs. rbind v (\<lambda>a. rbind w (\<lambda>b. Inr (a @ b))) = Inr bs \<and> out' = out @ bs \<and>
        length out' \<le> MAX_REPLICATED_SNAPSHOT_BYTES)"
  proof (cases v)
    case (Inr a)
    show ?thesis
    proof (cases "length (out @ a) \<le> MAX_REPLICATED_SNAPSHOT_BYTES")
      case True
      then have "p out = Inr (out @ a)" using p Inr by blast
      then show ?thesis using q [OF True] Inr by (auto simp: sn_then_def result_simps)
    next
      case False
      then have "p out \<noteq> Inr o1" for o1 using p Inr by auto
      then show ?thesis using False Inr by (auto simp: sn_then_def result_simps)
    qed
  qed (use p in \<open>auto simp: sn_then_def result_simps\<close>)
qed

lemma appends_each [appends_intro]:
  assumes "\<And>x. x \<in> set xs \<Longrightarrow> appends (put x) (w x)"
  shows "appends (sn_each put xs) (wr_many w xs)"
  using assms
proof (induction xs)
  case Nil
  then show ?case by (auto simp: appends_def)
next
  case (Cons x xs)
  then have "appends (sn_then (put x) (sn_each put xs)) (wr_many w (x # xs))"
    using appends_then [of "put x" "w x" "sn_each put xs" "wr_many w xs"] by simp
  moreover have "sn_then (put x) (sn_each put xs) = sn_each put (x # xs)" by (simp add: sn_then_def fun_eq_iff)
  ultimately show ?case by (simp only:)
qed

text \<open>The bytes of each field.\<close>

definition sn_count :: "nat \<Rightarrow> string \<Rightarrow> nat \<Rightarrow> snapshot_codec_error + bytes" where
  "sn_count limit item v =
     (if limit < v \<or> \<not> v < 2 ^ 32 then Inl (SnTooManyItems item) else Inr (wr_u32 (of_nat v)))"

definition sn_bytes :: "nat \<Rightarrow> string \<Rightarrow> bytes \<Rightarrow> snapshot_codec_error + bytes" where
  "sn_bytes limit field v =
     (if limit < length v then Inl (SnFieldTooLarge field) else wr_bytes (SnFieldTooLarge field) v)"

definition sn_string :: "string \<Rightarrow> string \<Rightarrow> snapshot_codec_error + bytes" where
  "sn_string field s = sn_bytes MAX_FIELD_BYTES field (str_bytes s)"

definition sn_column :: "column_def \<Rightarrow> snapshot_codec_error + bytes" where
  "sn_column c = wr_pair (sn_string ''column name'') (sn_string ''column type'') (col_name c, col_data_type c)"

definition sn_row :: "snapshot_row \<Rightarrow> snapshot_codec_error + bytes" where
  "sn_row w =
     wr_pair (sn_bytes MAX_FIELD_BYTES ''primary key'') (sn_bytes MAX_FIELD_BYTES ''row value'')
       (sr_primary_key w, sr_value w)"

definition sn_table :: "snapshot_table \<Rightarrow> snapshot_codec_error + bytes" where
  "sn_table t =
     rbind (sn_string ''table name'' (schema_name (sn_schema t))) (\<lambda>n.
     rbind (sn_count MAX_COLUMNS_PER_TABLE ''columns'' (length (schema_columns (sn_schema t)))) (\<lambda>cc.
     rbind (wr_many sn_column (schema_columns (sn_schema t))) (\<lambda>cs.
     rbind (sn_count MAX_ROWS_PER_TABLE ''rows'' (length (sn_rows t))) (\<lambda>rc.
     rbind (wr_many sn_row (sn_rows t)) (\<lambda>rs.
       Inr (wr_u32 (sn_table_id t) @ n @ cc @ cs @ rc @ rs))))))"


lemma appends_then_cong:
  "appends p v \<Longrightarrow> appends q w \<Longrightarrow> rbind v (\<lambda>a. rbind w (\<lambda>b. Inr (a @ b))) = u \<Longrightarrow> appends (sn_then p q) u"
  using appends_then by blast

lemma appends_count: "appends (sn_put_count v limit item) (sn_count limit item v)"
  using appends_num(2) [of "of_nat v"] by (auto simp: appends_def sn_put_count_def sn_count_def)

lemma appends_bytes: "appends (sn_put_bytes_with_limit v limit field) (sn_bytes limit field v)"
proof (cases "limit < length v \<or> \<not> length v < 2 ^ 32")
  case True
  then show ?thesis by (auto simp: appends_def sn_put_bytes_with_limit_def sn_bytes_def wr_bytes_def)
next
  case False
  have "appends (sn_then (sn_put_u32 (of_nat (length v))) (sn_put_raw v)) (sn_bytes limit field v)"
    using False by (intro appends_then_cong [OF appends_num(2) appends_raw]) (simp add: sn_bytes_def wr_bytes_def)
  then show ?thesis using False by (simp add: appends_def sn_put_bytes_with_limit_def sn_then_def)
qed

lemma appends_string: "appends (sn_put_string v field) (sn_string field v)"
  by (simp add: sn_put_string_def sn_put_bytes_def sn_string_def appends_bytes)

lemma appends_column: "appends (sn_put_column c) (sn_column c)"
  unfolding sn_put_column_def sn_column_def
  by (rule appends_then_cong [OF appends_string appends_string]) (simp add: wr_pair_def)

lemma appends_row: "appends (sn_put_row w) (sn_row w)"
  unfolding sn_put_row_def sn_row_def sn_put_bytes_def
  by (rule appends_then_cong [OF appends_bytes appends_bytes]) (simp add: wr_pair_def)

lemma appends_table: "appends (sn_put_table t) (sn_table t)"
  unfolding sn_put_table_def
  by (rule appends_then_cong [OF appends_num(2) appends_then [OF appends_string appends_then [OF appends_count
        appends_then [OF appends_each [OF appends_column] appends_then [OF appends_count appends_each [OF appends_row]]]]]])
    (simp add: sn_table_def rbind_def split: sum.split)

definition sn_body :: "snapshot_metadata \<Rightarrow> snapshot_table list \<Rightarrow> bytes \<Rightarrow> snapshot_codec_error + bytes" where
  "sn_body md tables extension =
     rbind (sn_count MAX_TABLES ''tables'' (length tables)) (\<lambda>n.
     rbind (wr_many sn_table tables) (\<lambda>ts.
     rbind (sn_bytes MAX_EXTENSION_BYTES ''metadata extension'' extension) (\<lambda>x.
       Inr (NBSN_MAGIC @ [REPLICATED_SNAPSHOT_VERSION, 0] @ wr_u64 (last_included_index md) @
         wr_u64 (last_included_term md) @ wr_u64 (latest_sql_apply_index md) @
         wr_u64 (latest_commit_ts md) @ n @ ts @ x))))"

lemma appends_snapshot: "appends (write_snapshot md tables extension) (sn_body md tables extension)"
  unfolding write_snapshot_def
  by (rule appends_then_cong [OF appends_raw appends_then [OF appends_num(1) appends_then [OF appends_num(1)
        appends_then [OF appends_num(3) appends_then [OF appends_num(3) appends_then [OF appends_num(3)
        appends_then [OF appends_num(3) appends_then [OF appends_count appends_then [OF appends_each [OF appends_table]
        appends_bytes]]]]]]]]])
    (simp add: sn_body_def rbind_def split: sum.split)

lemma write_snapshot_iff:
  "write_snapshot md tables extension [] = Inr out \<longleftrightarrow>
   sn_body md tables extension = Inr out \<and> length out \<le> MAX_REPLICATED_SNAPSHOT_BYTES"
  using appends_snapshot [of md tables extension] by (simp add: appends_def)

section \<open>The codec is exact\<close>

lemmas sn_limits = MAX_TABLES_def MAX_COLUMNS_PER_TABLE_def MAX_ROWS_PER_TABLE_def MAX_FIELD_BYTES_def
  MAX_EXTENSION_BYTES_def

lemma sn_bytes_iff: "sn_bytes limit field v = Inr bs \<longleftrightarrow> length v \<le> limit \<and> wr_bytes (SnFieldTooLarge field) v = Inr bs"
  by (auto simp: sn_bytes_def)

lemma sn_rd_bytes_iff:
  "sn_rd_bytes_with_limit limit field r = Inr (v, rest) \<longleftrightarrow>
   (\<exists>bs. sn_bytes limit field v = Inr bs \<and> r = bs @ rest)"
proof -
  have "sn_rd_bytes_with_limit limit field r = Inr (v, rest) \<longleftrightarrow>
      length v \<le> limit \<and> rd_bytes SnUnexpectedEof r = Inr (v, rest)"
    by (auto simp: sn_rd_bytes_with_limit_def rd_bytes_def result_simps if_error_iff split: if_splits)
      (metis not_less)
  then show ?thesis
    using bytes_wire.get_iff [of SnUnexpectedEof r v rest "SnFieldTooLarge field"] by (auto simp: sn_bytes_iff)
qed

interpretation sn_bytes_wire: wire "sn_bytes limit field" "sn_rd_bytes_with_limit limit field" "\<lambda>_. True"
  for limit field
  by unfold_locales (auto simp: sn_rd_bytes_iff)

interpretation sn_string_wire: wire "sn_string field" "sn_rd_string field" rust_string for field
  by unfold_locales
    (auto simp: sn_string_def sn_rd_string_def sn_rd_bytes_def result_simps sn_rd_bytes_iff)

interpretation sn_count_wire: wire "sn_count limit item" "sn_rd_count limit item" "\<lambda>_. True" for limit item
proof
  show "sn_count limit item x = Inr bs \<Longrightarrow> sn_rd_count limit item (bs @ rest) = Inr (x, rest)" for x bs rest
    by (auto simp: sn_count_def sn_rd_count_def unat_of_nat_eq split: if_splits)
  show "sn_rd_count limit item r = Inr (x, rest) \<Longrightarrow>
      True \<and> (\<exists>bs. sn_count limit item x = Inr bs \<and> r = bs @ rest)" for r x rest
    using unat_less_2p [where 'a = 32]
    by (fastforce simp: sn_rd_count_def sn_count_def result_simps if_error_iff)
qed

definition ok_column :: "column_def \<Rightarrow> bool" where
  "ok_column c \<longleftrightarrow> rust_string (col_name c) \<and> rust_string (col_data_type c) \<and> col_name c \<noteq> [] \<and> col_data_type c \<noteq> []"

interpretation sn_column_wire: wire sn_column sn_rd_column ok_column
proof
  show "ok_column x \<Longrightarrow> sn_column x = Inr bs \<Longrightarrow> sn_rd_column (bs @ rest) = Inr (x, rest)" for x bs rest
    by (cases x) (auto simp: sn_column_def sn_rd_column_def ok_column_def wr_pair_def result_simps sn_string_wire.get_iff)
  show "sn_rd_column r = Inr (x, rest) \<Longrightarrow> ok_column x \<and> (\<exists>bs. sn_column x = Inr bs \<and> r = bs @ rest)" for r x rest
    by (auto simp: sn_column_def sn_rd_column_def ok_column_def wr_pair_def result_simps sn_string_wire.get_iff)
qed

interpretation sn_row_wire: wire sn_row sn_rd_row "\<lambda>_. True"
proof
  show "sn_row x = Inr bs \<Longrightarrow> sn_rd_row (bs @ rest) = Inr (x, rest)" for x bs rest
    by (cases x) (auto simp: sn_row_def sn_rd_row_def sn_rd_bytes_def wr_pair_def result_simps sn_bytes_wire.get_iff)
  show "sn_rd_row r = Inr (x, rest) \<Longrightarrow> True \<and> (\<exists>bs. sn_row x = Inr bs \<and> r = bs @ rest)" for r x rest
    by (auto simp: sn_row_def sn_rd_row_def sn_rd_bytes_def wr_pair_def result_simps sn_bytes_wire.get_iff)
qed

definition ok_table :: "snapshot_table \<Rightarrow> bool" where
  "ok_table t \<longleftrightarrow> rust_string (schema_name (sn_schema t)) \<and> list_all ok_column (schema_columns (sn_schema t)) \<and>
     ensure_row_order (sn_rows t) = Inr () \<and> validate_table t = Inr ()"

lemma ok_table_name: "validate_table t = Inr () \<Longrightarrow> schema_name (sn_schema t) \<noteq> []"
  by (auto simp: validate_table_def Let_def)

interpretation sn_table_wire: wire sn_table sn_rd_table ok_table
proof
  fix t bs rest
  assume ok: "ok_table t" and "sn_table t = Inr bs"
  then obtain n cc cs rc rs where
    w: "sn_string ''table name'' (schema_name (sn_schema t)) = Inr n"
    "sn_count MAX_COLUMNS_PER_TABLE ''columns'' (length (schema_columns (sn_schema t))) = Inr cc"
    "wr_many sn_column (schema_columns (sn_schema t)) = Inr cs"
    "sn_count MAX_ROWS_PER_TABLE ''rows'' (length (sn_rows t)) = Inr rc"
    "wr_many sn_row (sn_rows t) = Inr rs"
    and bs: "bs = wr_u32 (sn_table_id t) @ n @ cc @ cs @ rc @ rs"
    by (auto simp: sn_table_def result_simps)
  have t: "\<lparr>sn_schema = \<lparr>schema_name = schema_name (sn_schema t), schema_columns = schema_columns (sn_schema t)\<rparr>,
      sn_table_id = sn_table_id t, sn_rows = sn_rows t\<rparr> = t" by simp
  show "sn_rd_table (bs @ rest) = Inr (t, rest)"
    using ok ok_table_name [of t]
    by (simp add: sn_rd_table_def ok_table_def bs sn_string_wire.get_put [OF _ w(1)] sn_count_wire.get_put [OF _ w(2)]
        sn_column_wire.many_get_put [OF _ w(3)] sn_count_wire.get_put [OF _ w(4)] sn_row_wire.many_get_put [OF _ w(5)]
        require_def list.pred_True t)
next
  fix r t rest
  assume "sn_rd_table r = Inr (t, rest)"
  then show "ok_table t \<and> (\<exists>bs. sn_table t = Inr bs \<and> r = bs @ rest)"
    by (auto simp: sn_table_def sn_rd_table_def ok_table_def result_simps sn_string_wire.get_iff sn_count_wire.get_iff
        sn_column_wire.many_iff sn_row_wire.many_iff Let_def)
qed


definition rust_snapshot :: "sql_snapshot \<Rightarrow> bool" where
  "rust_snapshot s \<longleftrightarrow>
     list_all (\<lambda>t. rust_string (schema_name (sn_schema t)) \<and>
       list_all (\<lambda>c. rust_string (col_name c) \<and> rust_string (col_data_type c)) (schema_columns (sn_schema t)))
       (sn_tables s)"

text \<open>The form of a snapshot with its rows in key order and its tables in name order.\<close>

definition canonical_snapshot :: "(string \<Rightarrow> string) \<Rightarrow> sql_snapshot \<Rightarrow> sql_snapshot" where
  "canonical_snapshot lower s = s\<lparr>sn_tables :=
     sort_key (\<lambda>t. lower (schema_name (sn_schema t)))
       (map (\<lambda>t. t\<lparr>sn_rows := sort_key sr_primary_key (sn_rows t)\<rparr>) (sn_tables s))\<rparr>"

lemma sn_order_iff:
  "ensure_row_order rows = Inr u \<longleftrightarrow> sorted_wrt (\<lambda>a b. sr_primary_key a < sr_primary_key b) rows"
  "ensure_table_order lower ts = Inr u \<longleftrightarrow>
     sorted_wrt (\<lambda>a b. lower (schema_name (sn_schema a)) < lower (schema_name (sn_schema b))) ts"
  by (simp_all add: ensure_row_order_def ensure_table_order_def windows_strict result_simps)

lemma validate_columns_nonempty:
  "validate_columns cs = Inr u \<Longrightarrow> list_all (\<lambda>c. col_name c \<noteq> [] \<and> col_data_type c \<noteq> []) cs"
  by (induction cs) (auto simp: result_simps split: if_splits)

lemma prepare_tables_iff:
  "prepare_tables ts = Inr ts' \<longleftrightarrow>
   ts' = map (\<lambda>t. t\<lparr>sn_rows := sort_key sr_primary_key (sn_rows t)\<rparr>) ts \<and>
   (\<forall>t \<in> set ts. validate_table t = Inr () \<and> ensure_row_order (sort_key sr_primary_key (sn_rows t)) = Inr ())"
  by (induction ts arbitrary: ts') (auto simp: result_simps Let_def)

lemma sorted_rows_id: "ensure_row_order rows = Inr u \<Longrightarrow> sort_key sr_primary_key rows = rows"
  by (simp add: sn_order_iff strict_sort_key_id)

lemma ok_table_iff:
  "ok_table t \<longleftrightarrow> rust_string (schema_name (sn_schema t)) \<and>
     list_all (\<lambda>c. rust_string (col_name c) \<and> rust_string (col_data_type c)) (schema_columns (sn_schema t)) \<and>
     ensure_row_order (sn_rows t) = Inr () \<and> validate_table t = Inr ()"
proof -
  have "list_all (\<lambda>c. col_name c \<noteq> [] \<and> col_data_type c \<noteq> []) (schema_columns (sn_schema t))"
    if "validate_table t = Inr ()"
    using that validate_columns_nonempty by (auto simp: validate_table_def Let_def result_simps split: if_splits)
  then show ?thesis by (auto simp: ok_table_def ok_column_def list_all_iff)
qed

text \<open>A canonical snapshot that passes the checks.\<close>

definition well_formed_snapshot :: "(string \<Rightarrow> string) \<Rightarrow> sql_snapshot \<Rightarrow> bool" where
  "well_formed_snapshot lower s \<longleftrightarrow> list_all ok_table (sn_tables s) \<and>
     ensure_table_order lower (sn_tables s) = Inr () \<and> validate_metadata (sn_metadata s) = Inr ()"

lemma decode_payload_iff:
  "decode_payload lower p = Inr s \<longleftrightarrow>
   well_formed_snapshot lower s \<and> sn_body (sn_metadata s) (sn_tables s) (metadata_extension s) = Inr p" (is "?l \<longleftrightarrow> ?r")
proof
  have magic: "length NBSN_MAGIC = 4" by (simp add: NBSN_MAGIC_def)
  show "?l \<Longrightarrow> ?r"
    by (auto simp: decode_payload_def sn_rd_metadata_def result_simps sn_count_wire.get_iff sn_table_wire.many_iff
        sn_bytes_wire.get_iff well_formed_snapshot_def sn_body_def if_error_iff)
  assume r: ?r
  then obtain n ts x where
    w: "sn_count MAX_TABLES ''tables'' (length (sn_tables s)) = Inr n" "wr_many sn_table (sn_tables s) = Inr ts"
    "sn_bytes MAX_EXTENSION_BYTES ''metadata extension'' (metadata_extension s) = Inr x"
    and p: "p = NBSN_MAGIC @ [REPLICATED_SNAPSHOT_VERSION, 0] @ wr_u64 (last_included_index (sn_metadata s)) @
         wr_u64 (last_included_term (sn_metadata s)) @ wr_u64 (latest_sql_apply_index (sn_metadata s)) @
         wr_u64 (latest_commit_ts (sn_metadata s)) @ n @ ts @ x"
    by (auto simp: sn_body_def result_simps)
  have x: "sn_rd_bytes_with_limit MAX_EXTENSION_BYTES ''metadata extension'' x = Inr (metadata_extension s, [])"
    using sn_bytes_wire.get_put [OF _ w(3), of "[]"] by simp
  have u8: "rd_u8 e (b # rest) = Inr (b, rest)" for e :: snapshot_codec_error and b rest
    by (simp add: u_wire_iff)
  have m: "rd_take SnUnexpectedEof 4 (NBSN_MAGIC @ rest) = Inr (NBSN_MAGIC, rest)" for rest
    by (simp add: rd_take_iff magic)
  from r have ok: "list_all ok_table (sn_tables s)" "ensure_table_order lower (sn_tables s) = Inr ()"
    "validate_metadata (sn_metadata s) = Inr ()" by (simp_all add: well_formed_snapshot_def)
  have eta: "\<lparr>last_included_index = last_included_index (sn_metadata s), last_included_term = last_included_term (sn_metadata s),
      latest_sql_apply_index = latest_sql_apply_index (sn_metadata s), latest_commit_ts = latest_commit_ts (sn_metadata s)\<rparr> =
      sn_metadata s"
    by simp
  show ?l
    using ok
    by (simp add: p eta decode_payload_def m u8 sn_rd_metadata_def sn_count_wire.get_put [OF _ w(1)]
        sn_table_wire.many_get_put [OF _ w(2)] x require_def)
qed

lemma canonical_fixed:
  assumes "list_all (\<lambda>t. ensure_row_order (sn_rows t) = Inr ()) (sn_tables s)" "ensure_table_order lower (sn_tables s) = Inr ()"
  shows "canonical_snapshot lower s = s"
proof -
  have "map (\<lambda>t. t\<lparr>sn_rows := sort_key sr_primary_key (sn_rows t)\<rparr>) (sn_tables s) = sn_tables s"
    using assms(1) by (auto simp: list_all_iff sorted_rows_id intro!: map_idI)
  then show ?thesis using assms(2) by (simp add: canonical_snapshot_def sn_order_iff strict_sort_key_id)
qed

lemma validate_table_sorted:
  "validate_table (t\<lparr>sn_rows := sort_key f (sn_rows t)\<rparr>) = Inr () \<longleftrightarrow> validate_table t = Inr ()"
proof -
  have v: "validate_rows ws = Inr () \<longleftrightarrow> (\<forall>w \<in> set ws. validate_field (sr_primary_key w) ''primary key'' = Inr () \<and>
      validate_field (sr_value w) ''row value'' = Inr ())" for ws
    by (induction ws) (auto simp: result_simps)
  then show ?thesis by (simp add: validate_table_def Let_def result_simps)
qed

lemma snapshot_encode_iff:
  assumes "\<And>b. length (sha b) = 32"
  shows "snapshot_encode lower sha s = Inr bs \<longleftrightarrow>
    (let c = canonical_snapshot lower s in
     list_all (\<lambda>t. ensure_row_order (sn_rows t) = Inr () \<and> validate_table t = Inr ()) (sn_tables c) \<and>
     ensure_table_order lower (sn_tables c) = Inr () \<and> validate_metadata (sn_metadata c) = Inr () \<and>
     (\<exists>p. sn_body (sn_metadata c) (sn_tables c) (metadata_extension c) = Inr p \<and> bs = p @ sha p \<and>
        length bs \<le> MAX_REPLICATED_SNAPSHOT_BYTES))"
proof -
  have ext: "validate_extension x = Inr ()" if "sn_body md ts x = Inr p" for x md ts p
    using that by (auto simp: sn_body_def result_simps sn_bytes_iff validate_extension_def)
  have fin: "length p \<le> MAX_REPLICATED_SNAPSHOT_BYTES \<and>
      (if MAX_REPLICATED_SNAPSHOT_BYTES - CHECKSUM_BYTES < length p then Inl SnTooLarge else sn_put_raw (sha p) p) = Inr bs \<longleftrightarrow>
      bs = p @ sha p \<and> length bs \<le> MAX_REPLICATED_SNAPSHOT_BYTES" for p
    by (auto simp: sn_put_raw_def CHECKSUM_BYTES_def assms MAX_REPLICATED_SNAPSHOT_BYTES_def split: if_splits)
  have tabs: "(\<forall>t \<in> set ts. validate_table t = Inr () \<and> ensure_row_order (sort_key sr_primary_key (sn_rows t)) = Inr ()) \<longleftrightarrow>
      list_all (\<lambda>t. ensure_row_order (sn_rows t) = Inr () \<and> validate_table t = Inr ())
        (sort_key (\<lambda>t. lower (schema_name (sn_schema t)))
          (map (\<lambda>t. t\<lparr>sn_rows := sort_key sr_primary_key (sn_rows t)\<rparr>) ts))" for ts
    by (auto simp: list_all_iff validate_table_sorted)
  let ?c = "canonical_snapshot lower s"
  have "snapshot_encode lower sha s = Inr bs \<longleftrightarrow>
      validate_metadata (sn_metadata s) = Inr () \<and> validate_extension (metadata_extension s) = Inr () \<and>
      list_all (\<lambda>t. ensure_row_order (sn_rows t) = Inr () \<and> validate_table t = Inr ()) (sn_tables ?c) \<and>
      ensure_table_order lower (sn_tables ?c) = Inr () \<and>
      (\<exists>p. sn_body (sn_metadata s) (sn_tables ?c) (metadata_extension s) = Inr p \<and>
        length p \<le> MAX_REPLICATED_SNAPSHOT_BYTES \<and>
        (if MAX_REPLICATED_SNAPSHOT_BYTES - CHECKSUM_BYTES < length p then Inl SnTooLarge else sn_put_raw (sha p) p) = Inr bs)"
    by (simp only: snapshot_encode_def rbind_Inr_iff prepare_tables_iff Let_def write_snapshot_iff tabs)
      (simp add: canonical_snapshot_def)
  then show ?thesis unfolding fin using ext by (auto simp: Let_def canonical_snapshot_def)
qed

lemma snapshot_decode_iff:
  assumes "\<And>b. length (sha b) = 32"
  shows "snapshot_decode lower sha bs = Inr s \<longleftrightarrow>
    snapshot_encode lower sha s = Inr bs \<and> rust_snapshot s \<and> canonical_snapshot lower s = s"
proof -
  have "snapshot_decode lower sha bs = Inr s \<longleftrightarrow>
      (\<exists>p. decode_payload lower p = Inr s \<and> bs = p @ sha p \<and> length bs \<le> MAX_REPLICATED_SNAPSHOT_BYTES)" (is "?l \<longleftrightarrow> ?r")
  proof
    assume ?l
    then have "decode_payload lower (take (length bs - 32) bs) = Inr s"
      "sha (take (length bs - 32) bs) = drop (length bs - 32) bs" "length bs \<le> MAX_REPLICATED_SNAPSHOT_BYTES"
      by (auto simp: snapshot_decode_def Let_def CHECKSUM_BYTES_def split: if_splits)
    then show ?r by (metis append_take_drop_id)
  next
    assume ?r
    then show ?l using assms by (auto simp: snapshot_decode_def Let_def CHECKSUM_BYTES_def)
  qed
  also have "\<dots> \<longleftrightarrow> snapshot_encode lower sha s = Inr bs \<and> rust_snapshot s \<and> canonical_snapshot lower s = s"
    using canonical_fixed [of s lower]
    by (auto simp: snapshot_encode_iff [OF assms] decode_payload_iff well_formed_snapshot_def Let_def ok_table_iff
        rust_snapshot_def list_all_iff)
  finally show ?thesis .
qed

text \<open>C19. The snapshot decoder accepts exactly the canonical encodings: it returns a snapshot for some
  bytes if and only if they are what the encoder writes for it, its strings are UTF-8 and its
  tables and rows are in order. So a snapshot has one encoding, decoding returns what was
  encoded, and no damaged, truncated or extended bytes pass, unless the digest collides.\<close>

theorem snapshot_decoder_exact:
  assumes "\<And>b. length (sha b) = 32"
  shows "snapshot_decode lower sha bs = Inr s \<longleftrightarrow>
    snapshot_encode lower sha s = Inr bs \<and> rust_snapshot s \<and> canonical_snapshot lower s = s"
  using assms by (rule snapshot_decode_iff)

definition sample_snapshot :: sql_snapshot where
  "sample_snapshot =
     \<lparr>sn_metadata = \<lparr>last_included_index = 3, last_included_term = 1, latest_sql_apply_index = 3, latest_commit_ts = 5\<rparr>,
      sn_tables =
        [\<lparr>sn_schema = \<lparr>schema_name = ''t'', schema_columns = [\<lparr>col_name = ''k'', col_data_type = ''int''\<rparr>]\<rparr>,
          sn_table_id = table_id_for ''t'', sn_rows = [\<lparr>sr_primary_key = [7], sr_value = [9]\<rparr>]\<rparr>],
      metadata_extension = [1, 2]\<rparr>"

theorem snapshot_decoder_exact_witness:
  "snapshot_decode (\<lambda>s. s) (\<lambda>_. replicate 32 0)
     (projr (snapshot_encode (\<lambda>s. s) (\<lambda>_. replicate 32 0) sample_snapshot)) = Inr sample_snapshot"
proof -
  have "is_ok (snapshot_encode (\<lambda>s. s) (\<lambda>_. replicate 32 0) sample_snapshot)" by code_simp
  then have "snapshot_encode (\<lambda>s. s) (\<lambda>_. replicate 32 0) sample_snapshot =
      Inr (projr (snapshot_encode (\<lambda>s. s) (\<lambda>_. replicate 32 0) sample_snapshot))"
    by (auto simp: is_ok_iff)
  moreover have "rust_string ''t''" "rust_string ''k''" "rust_string ''int''" by (simp_all add: ascii_rust_string)
  then have "rust_snapshot sample_snapshot" by (simp add: rust_snapshot_def sample_snapshot_def)
  moreover have "canonical_snapshot (\<lambda>s. s) sample_snapshot = sample_snapshot"
    by (simp add: canonical_snapshot_def sample_snapshot_def)
  ultimately show ?thesis by (subst snapshot_decoder_exact) simp_all
qed

end
