(* ===== verification/Snapshot_Manager.thy ===== *)
theory Snapshot_Manager
  imports Sql_Snapshot Catalog
begin

text \<open>
  Export and restore of logical snapshots (\<open>replicated_snapshot_manager.rs\<close>), the identity
  envelope (\<open>replicated_identity_snapshot.rs\<close>) and the adapter that Raft calls
  (\<open>replicated_snapshot_hooks.rs\<close>).

  The manager shares engine, catalog and clock with the state machine and is the same record here.
  A RocksDB snapshot is the database value at the time of the call. The third-party code it uses
  is the record \<open>snap_env\<close>. Error strings of the adapter are constructors.

  What a snapshot preserves is shown in \<open>Snapshot_Transfer\<close> and \<open>Snapshot_Install\<close>.
\<close>

section \<open>The identity envelope\<close>

definition NBIX_MAGIC :: bytes where "NBIX_MAGIC = str_bytes ''NBIX''"
definition IDENTITY_SNAPSHOT_EXTENSION_VERSION :: u8 where "IDENTITY_SNAPSHOT_EXTENSION_VERSION = 1"
definition FLAG_UNINITIALIZED :: u8 where "FLAG_UNINITIALIZED = 0"
definition FLAG_INITIALIZED :: u8 where "FLAG_INITIALIZED = 1"
definition MAX_IDENTITY_STATE_BYTES :: nat where "MAX_IDENTITY_STATE_BYTES = 1024 * 1024"

datatype identity_extension = Uninitialized | Initialized identity_state

datatype identity_extension_error =
    IxUnexpectedEof | IxInvalidMagic | IxUnsupportedVersion u8 | IxInvalidStateFlag u8 | IxTooLarge
  | IxTrailingBytes | IxInvalidState identity_state_error | IxNonCanonicalState

definition extension_encode :: "identity_extension \<Rightarrow> identity_extension_error + bytes" where
  "extension_encode x =
     (let out = NBIX_MAGIC @ [IDENTITY_SNAPSHOT_EXTENSION_VERSION] in
      case x of
        Uninitialized \<Rightarrow> Inr (out @ [FLAG_UNINITIALIZED])
      | Initialized st \<Rightarrow>
          rbind (map_err IxInvalidState (state_encode st)) (\<lambda>encoded.
            if MAX_IDENTITY_STATE_BYTES < length encoded then Inl IxTooLarge
            else if \<not> length encoded < 2 ^ 32 then Inl IxTooLarge
            else Inr (out @ [FLAG_INITIALIZED] @ wr_u32 (of_nat (length encoded)) @ encoded)))"

definition extension_decode :: "bytes \<Rightarrow> identity_extension_error + identity_extension" where
  "extension_decode bs =
     rbind (rd_take IxUnexpectedEof 4 bs) (\<lambda>(magic, r).
     rbind (require (magic = NBIX_MAGIC) IxInvalidMagic) (\<lambda>_.
     rbind (rd_u8 IxUnexpectedEof r) (\<lambda>(version, r).
     rbind (require (version = IDENTITY_SNAPSHOT_EXTENSION_VERSION) (IxUnsupportedVersion version)) (\<lambda>_.
     rbind (rd_u8 IxUnexpectedEof r) (\<lambda>(flag, r).
     rbind (if flag = FLAG_UNINITIALIZED then Inr (Uninitialized, r)
            else if flag = FLAG_INITIALIZED then
              rbind (rd_u32 IxUnexpectedEof r) (\<lambda>(len, r).
              rbind (require (unat len \<le> MAX_IDENTITY_STATE_BYTES) IxTooLarge) (\<lambda>_.
              rbind (rd_take IxUnexpectedEof (unat len) r) (\<lambda>(raw, r).
              rbind (map_err IxInvalidState (state_decode raw)) (\<lambda>st.
              rbind (map_err IxInvalidState (state_encode st)) (\<lambda>again.
              rbind (require (again = raw) IxNonCanonicalState) (\<lambda>_.
                Inr (Initialized st, r)))))))
            else Inl (IxInvalidStateFlag flag)) (\<lambda>(x, r).
       if r \<noteq> [] then Inl IxTrailingBytes else Inr x))))))"

definition has_magic :: "bytes \<Rightarrow> bool" where
  "has_magic bs = starts_with bs NBIX_MAGIC"

section \<open>Export\<close>

record snap_env =
  se_lower :: "string \<Rightarrow> string"
  se_json :: schema_json
  se_sha256 :: "bytes \<Rightarrow> bytes"

definition snap_env_ok :: "snap_env \<Rightarrow> bool" where
  "snap_env_ok se \<longleftrightarrow> schema_json_ok (se_json se) \<and> (\<forall>b. length (se_sha256 se b) = 32)"

datatype manager_error =
    MgCodec snapshot_codec_error
  | MgIdentitySnapshot identity_extension_error
  | MgIdentityState identity_state_error
  | MgStorage storage_error
  | MgRocks string
  | MgCatalogSerialization string
  | MgCorruptApplyState nat
  | MgApplyIndexBeyondRequestedSnapshot nat u64
  | MgInvalidCatalogKey
  | MgCatalogKeyMismatch string string
  | MgUnsupportedSecondaryIndex bytes
  | MgTableIdCollision u32 string string
  | MgMalformedDataKey string nat
  | MgRowBeyondReplicatedTimestamp string u64 u64
  | MgRowDataWithoutCommitTimestamp string
  | MgSnapshotContainsTombstone string
  | MgRestoreTargetHasSecondaryIndexes
  | MgRestoreWouldRegressApplyIndex nat u64
  | MgRestoreWouldRegressCommitTimestamp u64 u64

definition durable_apply_state :: "'db rocks \<Rightarrow> 'db \<Rightarrow> manager_error + apply_state" where
  "durable_apply_state r d =
     rbind (map_err MgRocks (rk_get r CF_META APPLY_STATE_KEY d)) (\<lambda>v.
       case v of
         Some bs \<Rightarrow> map_err (\<lambda>_. MgCorruptApplyState (length bs)) (apply_state_decode bs)
       | None \<Rightarrow> Inr \<lparr>last_applied_index = 0, last_commit_ts = 0\<rparr>)"

fun catalog_loop ::
  "snap_env \<Rightarrow> (bytes \<times> bytes) list \<Rightarrow> (string, table_schema) btree \<Rightarrow>
   manager_error + (string, table_schema) btree" where
  "catalog_loop se [] schemas = Inr schemas"
| "catalog_loop se ((key, v) # rest) schemas =
     (if starts_with key (str_bytes INDEX_SENTINEL_PREFIX)
      then Inl (MgUnsupportedSecondaryIndex (drop (length INDEX_SENTINEL_PREFIX) key))
      else
        rbind (ok_or (string_from_utf8 key) MgInvalidCatalogKey) (\<lambda>key_text.
        rbind (map_err MgCatalogSerialization (schema_of_json (se_json se) v)) (\<lambda>schema.
          let expected = se_lower se (schema_name schema) in
          if key_text \<noteq> expected then Inl (MgCatalogKeyMismatch key_text expected)
          else catalog_loop se rest (bt_insert (se_lower se (schema_name schema)) schema schemas))))"

definition read_catalog :: "snap_env \<Rightarrow> 'db rocks \<Rightarrow> 'db \<Rightarrow> manager_error + table_schema list" where
  "read_catalog se r d =
     rbind (catalog_loop se (rk_seek r CF_CATALOG [] d) []) (\<lambda>schemas. Inr (map snd schemas))"

fun rows_loop ::
  "string \<Rightarrow> bytes \<Rightarrow> u64 \<Rightarrow> (bytes \<times> bytes) list \<Rightarrow> (bytes, bytes) btree \<Rightarrow>
   manager_error + (bytes, bytes) btree" where
  "rows_loop table prefix floor_ts [] latest = Inr latest"
| "rows_loop table prefix floor_ts ((key, v) # rest) latest =
     (if length key < 12 \<or> take 4 key \<noteq> prefix then Inr latest
      else
        rbind (ok_or (decode_pk_from_key key) (MgMalformedDataKey table (length key))) (\<lambda>primary_key.
        rbind (ok_or (decode_ts_from_key key) (MgMalformedDataKey table (length key))) (\<lambda>ts.
          let row_ts = to_u64 ts in
          if floor_ts = 0 then Inl (MgRowDataWithoutCommitTimestamp table)
          else if floor_ts < row_ts
          then Inl (MgRowBeyondReplicatedTimestamp table row_ts floor_ts)
          else rows_loop table prefix floor_ts rest (bt_insert primary_key v latest))))"

definition live_rows :: "(bytes, bytes) btree \<Rightarrow> snapshot_row list" where
  "live_rows latest =
     map (\<lambda>(k, v). \<lparr>sr_primary_key = k, sr_value = v\<rparr>) (filter (\<lambda>(k, v). v \<noteq> []) latest)"

definition read_logical_rows ::
  "'db rocks \<Rightarrow> 'db \<Rightarrow> string \<Rightarrow> u32 \<Rightarrow> u64 \<Rightarrow> manager_error + snapshot_row list" where
  "read_logical_rows r d table table_id floor_ts =
     (let prefix = be_bytes 4 (unat table_id) in
      rbind (rows_loop table prefix floor_ts (rk_seek r CF_DATA prefix d) []) (\<lambda>latest.
        Inr (live_rows latest)))"

fun export_tables ::
  "'db rocks \<Rightarrow> 'db \<Rightarrow> u64 \<Rightarrow> (u32 \<Rightarrow> string option) \<Rightarrow> table_schema list \<Rightarrow>
   manager_error + snapshot_table list" where
  "export_tables r d floor_ts ids [] = Inr []"
| "export_tables r d floor_ts ids (schema # schemas) =
     (let table_id = table_id_for (schema_name schema) in
      case ids table_id of
        Some first \<Rightarrow> Inl (MgTableIdCollision table_id first (schema_name schema))
      | None \<Rightarrow>
          rbind (read_logical_rows r d (schema_name schema) table_id floor_ts) (\<lambda>rows.
          rbind (export_tables r d floor_ts (ids(table_id \<mapsto> schema_name schema)) schemas) (\<lambda>tables.
            Inr (\<lparr>sn_schema = schema, sn_table_id = table_id, sn_rows = rows\<rparr> # tables))))"

definition export_identity :: "'db rocks \<Rightarrow> 'db \<Rightarrow> manager_error + bytes" where
  "export_identity r d =
     rbind (map_err MgRocks (rk_get r CF_META REPLICATED_IDENTITY_STATE_KEY d)) (\<lambda>v.
     rbind (case v of
              Some bs \<Rightarrow> rbind (map_err MgIdentityState (state_decode bs)) (\<lambda>st. Inr (Initialized st))
            | None \<Rightarrow> Inr Uninitialized) (\<lambda>x.
       map_err MgIdentitySnapshot (extension_encode x)))"

text \<open>The snapshot value that \<open>export\<close> encodes.\<close>

definition export_value ::
  "snap_env \<Rightarrow> 'db rocks \<Rightarrow> u64 \<Rightarrow> u64 \<Rightarrow> 'db \<Rightarrow> manager_error + sql_snapshot" where
  "export_value se r included_index included_term d =
     rbind (durable_apply_state r d) (\<lambda>st.
     rbind (require (\<not> unat included_index < last_applied_index st)
       (MgApplyIndexBeyondRequestedSnapshot (last_applied_index st) included_index)) (\<lambda>_.
     rbind (export_identity r d) (\<lambda>identity_ext.
     rbind (read_catalog se r d) (\<lambda>schemas.
     rbind (export_tables r d (last_commit_ts st) Map.empty schemas) (\<lambda>tables.
       Inr \<lparr>sn_metadata =
              \<lparr>last_included_index = included_index, last_included_term = included_term,
               latest_sql_apply_index = of_nat (last_applied_index st),
               latest_commit_ts = last_commit_ts st\<rparr>,
            sn_tables = tables, metadata_extension = identity_ext\<rparr>)))))"

definition snapshot_export ::
  "snap_env \<Rightarrow> 'db rocks \<Rightarrow> u64 \<Rightarrow> u64 \<Rightarrow> 'db state_machine \<Rightarrow> manager_error + bytes" where
  "snapshot_export se r included_index included_term sm =
     rbind (export_value se r included_index included_term (sm_engine sm)) (\<lambda>s.
       map_err MgCodec (snapshot_encode (se_lower se) (se_sha256 se) s))"

section \<open>Restore\<close>

text \<open>\<open>list_index_cfs\<close> of the engine; the names as bytes.\<close>

definition list_index_cfs :: "'db rocks \<Rightarrow> 'db \<Rightarrow> storage_error + bytes list" where
  "list_index_cfs r d =
     (let prefix = str_bytes INDEX_SENTINEL_PREFIX in
      Inr (map (\<lambda>(k, _). drop (length prefix) k)
        (takeWhile (\<lambda>(k, _). starts_with k prefix) (rk_seek r CF_CATALOG prefix d))))"

definition delete_all_cf_keys :: "'db rocks \<Rightarrow> 'db \<Rightarrow> string \<Rightarrow> batch_op list" where
  "delete_all_cf_keys r d cf = map (\<lambda>(k, _). Delete cf k) (rk_seek r cf [] d)"

fun restore_rows :: "u64 \<Rightarrow> snapshot_table \<Rightarrow> snapshot_row list \<Rightarrow> manager_error + batch_op list" where
  "restore_rows commit_ts t [] = Inr []"
| "restore_rows commit_ts t (w # ws) =
     (if sr_value w = [] then Inl (MgSnapshotContainsTombstone (schema_name (sn_schema t)))
      else
        rbind (restore_rows commit_ts t ws) (\<lambda>ops.
          Inr (Put CF_DATA (encode_versioned_key (sn_table_id t) (sr_primary_key w) (from_u64 commit_ts))
                 (sr_value w) # ops)))"

fun restore_tables :: "snap_env \<Rightarrow> u64 \<Rightarrow> snapshot_table list \<Rightarrow> manager_error + batch_op list" where
  "restore_tables se commit_ts [] = Inr []"
| "restore_tables se commit_ts (t # ts) =
     (if sn_rows t \<noteq> [] \<and> commit_ts = 0
      then Inl (MgRowDataWithoutCommitTimestamp (schema_name (sn_schema t)))
      else
        rbind (map_err MgCatalogSerialization (json_of_schema (se_json se) (sn_schema t))) (\<lambda>serialized.
        rbind (restore_rows commit_ts t (sn_rows t)) (\<lambda>row_ops.
        rbind (restore_tables se commit_ts ts) (\<lambda>ops.
          Inr (Put CF_CATALOG (str_bytes (se_lower se (schema_name (sn_schema t)))) serialized #
               row_ops @ ops)))))"

definition identity_ops :: "identity_extension \<Rightarrow> manager_error + batch_op list" where
  "identity_ops x =
     (case x of
        Uninitialized \<Rightarrow> Inr [Delete CF_META REPLICATED_IDENTITY_STATE_KEY]
      | Initialized st \<Rightarrow>
          rbind (map_err MgIdentityState (state_encode st)) (\<lambda>bs.
            Inr [Put CF_META REPLICATED_IDENTITY_STATE_KEY bs]))"

text \<open>Everything before the write: the batch, or the reason for refusing.\<close>

definition restore_batch ::
  "snap_env \<Rightarrow> 'db rocks \<Rightarrow> sql_snapshot \<Rightarrow> 'db \<Rightarrow> manager_error + batch_op list" where
  "restore_batch se r s d =
     rbind (map_err MgStorage (list_index_cfs r d)) (\<lambda>indexes.
     rbind (require (indexes = []) MgRestoreTargetHasSecondaryIndexes) (\<lambda>_.
     rbind (if metadata_extension s = [] then Inr Uninitialized
            else map_err MgIdentitySnapshot (extension_decode (metadata_extension s))) (\<lambda>identity_ext.
     rbind (durable_apply_state r d) (\<lambda>existing.
     rbind (require (\<not> unat (latest_sql_apply_index (sn_metadata s)) < last_applied_index existing)
       (MgRestoreWouldRegressApplyIndex (last_applied_index existing)
          (latest_sql_apply_index (sn_metadata s)))) (\<lambda>_.
     rbind (require (\<not> latest_commit_ts (sn_metadata s) < last_commit_ts existing)
       (MgRestoreWouldRegressCommitTimestamp (last_commit_ts existing)
          (latest_commit_ts (sn_metadata s)))) (\<lambda>_.
     rbind (restore_tables se (latest_commit_ts (sn_metadata s)) (sn_tables s)) (\<lambda>table_ops.
     rbind (identity_ops identity_ext) (\<lambda>id_ops.
       Inr (delete_all_cf_keys r d CF_DATA @ delete_all_cf_keys r d CF_CATALOG @ table_ops @ id_ops @
            [Put CF_META APPLY_STATE_KEY (apply_state_encode
               \<lparr>last_applied_index = unat (latest_sql_apply_index (sn_metadata s)),
                last_commit_ts = latest_commit_ts (sn_metadata s)\<rparr>)])))))))))"

definition restore_decoded ::
  "snap_env \<Rightarrow> 'db rocks \<Rightarrow> sql_snapshot \<Rightarrow> 'db state_machine \<Rightarrow>
   'db state_machine \<times> (manager_error + snapshot_metadata)" where
  "restore_decoded se r s sm =
     (case rbind (restore_batch se r s (sm_engine sm)) (\<lambda>batch.
             map_err MgStorage (write_batch r batch (sm_engine sm))) of
        Inl e \<Rightarrow> (sm, Inl e)
      | Inr d \<Rightarrow>
          (\<lparr>sm_engine = d,
            sm_catalog = replace_all (se_lower se) (tpch_schemas @ map sn_schema (sn_tables s)),
            sm_clock = (if latest_commit_ts (sn_metadata s) \<noteq> 0
              then fst (observe_committed (from_u64 (latest_commit_ts (sn_metadata s))) (sm_clock sm))
              else sm_clock sm)\<rparr>,
           Inr (sn_metadata s)))"

definition snapshot_restore ::
  "snap_env \<Rightarrow> 'db rocks \<Rightarrow> bytes \<Rightarrow> 'db state_machine \<Rightarrow>
   'db state_machine \<times> (manager_error + snapshot_metadata)" where
  "snapshot_restore se r bs sm =
     (case snapshot_decode (se_lower se) (se_sha256 se) bs of
        Inl e \<Rightarrow> (sm, Inl (MgCodec e))
      | Inr s \<Rightarrow> restore_decoded se r s sm)"

section \<open>The adapter for Raft\<close>

datatype hook_error =
    HkManager manager_error
  | HkDecode snapshot_codec_error
  | HkReadApplyState string
  | HkCorruptApplyState nat
  | HkBoundaryMismatch u64 u64 u64 u64
  | HkAheadWithOlderFloor nat u64 u64 u64
  | HkInsideBoundary nat u64 u64

definition hook_apply_state :: "'db rocks \<Rightarrow> 'db \<Rightarrow> hook_error + apply_state" where
  "hook_apply_state r d =
     rbind (map_err HkReadApplyState (rk_get r CF_META APPLY_STATE_KEY d)) (\<lambda>v.
       case v of
         None \<Rightarrow> Inr \<lparr>last_applied_index = 0, last_commit_ts = 0\<rparr>
       | Some bs \<Rightarrow> map_err (\<lambda>_. HkCorruptApplyState (length bs)) (apply_state_decode bs))"

definition decode_and_validate ::
  "snap_env \<Rightarrow> 'db rocks \<Rightarrow> u64 \<Rightarrow> u64 \<Rightarrow> bytes \<Rightarrow> 'db \<Rightarrow> hook_error + sql_snapshot" where
  "decode_and_validate se r included_index included_term snapshot_data d =
     rbind (map_err HkDecode (snapshot_decode (se_lower se) (se_sha256 se) snapshot_data)) (\<lambda>decoded.
       let md = sn_metadata decoded in
       if last_included_index md \<noteq> included_index \<or> last_included_term md \<noteq> included_term
       then Inl (HkBoundaryMismatch included_index included_term (last_included_index md) (last_included_term md))
       else
         rbind (hook_apply_state r d) (\<lambda>current.
           if unat included_index < last_applied_index current then
             (if last_commit_ts current < latest_commit_ts md
              then Inl (HkAheadWithOlderFloor (last_applied_index current) (last_commit_ts current)
                          included_index (latest_commit_ts md))
              else Inr decoded)
           else if unat (latest_sql_apply_index md) < last_applied_index current
           then Inl (HkInsideBoundary (last_applied_index current) included_index (latest_sql_apply_index md))
           else Inr decoded))"

definition hook_create_snapshot ::
  "snap_env \<Rightarrow> 'db rocks \<Rightarrow> u64 \<Rightarrow> u64 \<Rightarrow> 'db state_machine \<Rightarrow> hook_error + bytes" where
  "hook_create_snapshot se r included_index included_term sm =
     map_err HkManager (snapshot_export se r included_index included_term sm)"

definition hook_validate_snapshot ::
  "snap_env \<Rightarrow> 'db rocks \<Rightarrow> u64 \<Rightarrow> u64 \<Rightarrow> bytes \<Rightarrow> 'db state_machine \<Rightarrow> hook_error + unit" where
  "hook_validate_snapshot se r included_index included_term snapshot_data sm =
     rbind (decode_and_validate se r included_index included_term snapshot_data (sm_engine sm)) (\<lambda>_. Inr ())"

definition hook_restore_snapshot ::
  "snap_env \<Rightarrow> 'db rocks \<Rightarrow> u64 \<Rightarrow> u64 \<Rightarrow> bytes \<Rightarrow> 'db state_machine \<Rightarrow>
   'db state_machine \<times> (hook_error + unit)" where
  "hook_restore_snapshot se r included_index included_term snapshot_data sm =
     (case rbind (decode_and_validate se r included_index included_term snapshot_data (sm_engine sm)) (\<lambda>_.
             hook_apply_state r (sm_engine sm)) of
        Inl e \<Rightarrow> (sm, Inl e)
      | Inr current \<Rightarrow>
          if unat included_index < last_applied_index current then (sm, Inr ())
          else (case snapshot_restore se r snapshot_data sm of
                  (sm', Inl e) \<Rightarrow> (sm', Inl (HkManager e))
                | (sm', Inr _) \<Rightarrow> (sm', Inr ())))"

end
