(* ===== verification/Snapshot_Transfer.thy ===== *)
theory Snapshot_Transfer
  imports Snapshot_Manager Txn_System
begin

text \<open>
  What a snapshot preserves. Two contents are in the same state (\<open>same_state\<close>) when they agree on
  the apply cursor, the identity registry, the catalog and the newest live row of every key; old
  versions and tombstones may differ, which is what a snapshot drops.

  The first part shows that the state machine cannot tell such contents apart. The second part
  shows that a restore puts the target into the state of the node that exported. Together, a
  follower that installs a snapshot and applies the rest of the log agrees with a node that
  applied all of it.
\<close>

section \<open>Equal states\<close>

definition live_row :: "contents \<Rightarrow> u32 \<Rightarrow> bytes \<Rightarrow> bytes option" where
  "live_row m t pk =
     (case visible m t pk HLC_MAX of Some v \<Rightarrow> if v = [] then None else Some v | None \<Rightarrow> None)"

definition same_state :: "schema_json \<Rightarrow> contents \<Rightarrow> contents \<Rightarrow> bool" where
  "same_state j a b \<longleftrightarrow>
     load_state spec_rocks a = load_state spec_rocks b \<and>
     a CF_META REPLICATED_IDENTITY_STATE_KEY = b CF_META REPLICATED_IDENTITY_STATE_KEY \<and>
     stored_catalog j a = stored_catalog j b \<and>
     (\<forall>t pk. live_row a t pk = live_row b t pk)"

text \<open>All keys of the data family are versioned keys with timestamps up to the durable one.\<close>

definition data_below :: "contents \<Rightarrow> u64 \<Rightarrow> bool" where
  "data_below m ts \<longleftrightarrow>
     (\<forall>k \<in> dom (m CF_DATA). \<exists>t pk u. encodable u \<and> k = encode_versioned_key t pk u \<and> to_u64 u \<le> ts)"

definition replica_ok :: "contents \<Rightarrow> bool" where
  "replica_ok m \<longleftrightarrow> finite (dom (m CF_DATA)) \<and>
     (\<exists>s. load_state spec_rocks m = Inr s \<and> data_below m (last_commit_ts s))"

text \<open>Every stored row belongs to a table of the catalog.\<close>

definition no_orphans :: "schema_json \<Rightarrow> contents \<Rightarrow> bool" where
  "no_orphans j m \<longleftrightarrow>
     (\<forall>t pk u. m CF_DATA (encode_versioned_key t pk u) \<noteq> None \<longrightarrow>
        (\<exists>name s. stored_catalog j m name = Some s \<and> table_id_for (schema_name s) = t))"

lemma cf_distinct [simp]:
  "CF_DATA \<noteq> CF_META" "CF_META \<noteq> CF_DATA" "CF_DATA \<noteq> CF_CATALOG" "CF_CATALOG \<noteq> CF_DATA"
  "CF_META \<noteq> CF_CATALOG" "CF_CATALOG \<noteq> CF_META"
  by (simp_all add: CF_DATA_def CF_META_def CF_CATALOG_def)

lemma meta_keys_distinct [simp]:
  "APPLY_STATE_KEY \<noteq> REPLICATED_IDENTITY_STATE_KEY" "REPLICATED_IDENTITY_STATE_KEY \<noteq> APPLY_STATE_KEY"
  by (simp_all add: APPLY_STATE_KEY_def REPLICATED_IDENTITY_STATE_KEY_def str_bytes_inj)

lemma visible_depends:
  assumes "a CF_DATA = b CF_DATA"
  shows "visible a t pk ts = visible b t pk ts"
proof -
  have "versions a t pk = versions b t pk" using assms by (simp add: versions_def)
  then show ?thesis using assms by (simp only: visible_def)
qed

lemma live_row_depends: "a CF_DATA = b CF_DATA \<Longrightarrow> live_row a t pk = live_row b t pk"
  using visible_depends [of a b] by (simp add: live_row_def)

lemma stored_catalog_depends: "a CF_CATALOG = b CF_CATALOG \<Longrightarrow> stored_catalog j a = stored_catalog j b"
  by (simp add: stored_catalog_def fun_eq_iff)

lemma load_state_depends:
  "a CF_META APPLY_STATE_KEY = b CF_META APPLY_STATE_KEY \<Longrightarrow> load_state spec_rocks a = load_state spec_rocks b"
  by (simp add: load_state_def)

lemma data_below_mono: "data_below m ts \<Longrightarrow> ts \<le> ts' \<Longrightarrow> data_below m ts'"
  unfolding data_below_def by (meson order.trans)

lemma data_below_versions:
  assumes "data_below m ts" "u \<in> versions m t pk"
  shows "to_u64 u \<le> ts"
proof -
  from assms(2) have "encode_versioned_key t pk u \<in> dom (m CF_DATA)" and u: "encodable u"
    by (auto simp: versions_def)
  with assms(1) obtain t' pk' u' where "encodable u'" "encode_versioned_key t pk u = encode_versioned_key t' pk' u'"
    "to_u64 u' \<le> ts" unfolding data_below_def by blast
  with u show ?thesis by (simp add: versioned_key_eq_iff)
qed

lemma data_below_long: "data_below m ts \<Longrightarrow> long_keys m t"
  unfolding data_below_def long_keys_def by (metis le_add2 length_versioned_key)

section \<open>Batches on the contents\<close>

lemma deletes_fold:
  "fold apply_op (map (\<lambda>(k, _). Delete cf k) kvs) m = m(cf := (m cf) |` (- fst ` set kvs))"
proof (induction kvs arbitrary: m)
  case Nil
  have "(m cf) |` UNIV = m cf" by (simp add: restrict_map_def)
  then show ?case by simp
next
  case (Cons kv kvs)
  then show ?case
    by (cases kv) (auto simp: fun_eq_iff restrict_map_def)
qed

lemma live_row_written:
  assumes "committed_at ts ws m m'" "finite (dom (m CF_DATA))" "encodable ts"
    and "\<And>u. u \<in> versions m t pk \<Longrightarrow> u < ts"
  shows "live_row m' t pk =
    (case write_map ws (t, pk) of Some v \<Rightarrow> if v = [] then None else Some v | None \<Rightarrow> live_row m t pk)"
  using committed_at_newest [OF assms] by (simp add: live_row_def split: option.split)

lemma live_row_dropped:
  assumes "finite (dom (m CF_DATA))" "m' CF_DATA = (m CF_DATA) |` (- table_keys m t)"
  shows "live_row m' t' pk = (if t' = t then None else live_row m t' pk)"
proof (cases "t' = t")
  case True
  have "versions m' t pk = {}"
  proof -
    have "encode_versioned_key t pk u \<in> table_keys m t \<or> m CF_DATA (encode_versioned_key t pk u) = None" for u
      by (auto simp: table_keys_def in_table_def)
    then show ?thesis using assms(2) by (auto simp: versions_def restrict_map_def)
  qed
  then show ?thesis using True by (simp add: live_row_def visible_def)
next
  case False
  have "visible m' t' pk HLC_MAX = visible m t' pk HLC_MAX"
  proof (rule visible_cong [where m = m, OF assms(1)])
    show "m' CF_DATA (encode_versioned_key t' pk ts) = m CF_DATA (encode_versioned_key t' pk ts)" for ts
      using assms(2) False by (auto simp: table_keys_def in_table_def restrict_map_def u32_bytes_eq_iff)
  qed
  then show ?thesis using False by (simp add: live_row_def)
qed

section \<open>The state machine cannot tell equal states apart\<close>

definition mutation_writes :: "replicated_mutation \<Rightarrow> (u32 \<times> bytes \<times> bytes) list" where
  "mutation_writes mut =
     (case mut of
        InsertRows _ t _ rows \<Rightarrow> map (\<lambda>row. (t, primary_key row, row_value row)) rows
      | UpdateRows _ t _ rows \<Rightarrow> map (\<lambda>row. (t, primary_key row, row_value row)) rows
      | DeleteRows _ t _ keys \<Rightarrow> map (\<lambda>k. (t, k, [])) keys
      | _ \<Rightarrow> [])"

lemma dml_batch:
  assumes "mut_commit_ts mut = Some ts"
  shows "mutation_batch env spec_rocks mut m = Inr (commit_batch (from_u64 ts) (mutation_writes mut))"
  using assms
  by (cases mut) (auto simp: mutation_batch_def mut_commit_ts_def mutation_writes_def put_rows_def
      commit_batch_def Let_def)

lemma cursor_effect:
  "apply_op (cursor_op i ts) m =
   m(CF_META := (m CF_META)(APPLY_STATE_KEY \<mapsto> apply_state_encode \<lparr>last_applied_index = i, last_commit_ts = ts\<rparr>))"
  by (simp add: cursor_op_def)

lemma load_state_cursor:
  "i < 2 ^ 64 \<Longrightarrow> load_state spec_rocks (apply_op (cursor_op i ts) m) = Inr \<lparr>last_applied_index = i, last_commit_ts = ts\<rparr>"
  using load_after_cursor [of i "[]" ts m] by simp

text \<open>The effect of a batch followed by the cursor, when the batch leaves the meta family alone.\<close>

lemma same_state_step:
  assumes "i < 2 ^ 64" "a' CF_META = a CF_META" "b' CF_META = b CF_META"
    and "a CF_META REPLICATED_IDENTITY_STATE_KEY = b CF_META REPLICATED_IDENTITY_STATE_KEY"
    and "stored_catalog j a' = stored_catalog j b'" "\<And>t pk. live_row a' t pk = live_row b' t pk"
    and "finite (dom (a' CF_DATA))" "finite (dom (b' CF_DATA))" "data_below a' ts" "data_below b' ts"
  shows "same_state j (apply_op (cursor_op i ts) a') (apply_op (cursor_op i ts) b') \<and>
    replica_ok (apply_op (cursor_op i ts) a') \<and> replica_ok (apply_op (cursor_op i ts) b')"
proof -
  have c: "apply_op (cursor_op i ts) m CF_DATA = m CF_DATA"
    "apply_op (cursor_op i ts) m CF_CATALOG = m CF_CATALOG" for m
    by (simp_all add: cursor_effect)
  have "stored_catalog j (apply_op (cursor_op i ts) m) = stored_catalog j m" for m
    by (rule stored_catalog_depends) (simp add: c)
  moreover have "live_row (apply_op (cursor_op i ts) m) t pk = live_row m t pk" for m t pk
    by (rule live_row_depends) (simp add: c)
  moreover have "data_below (apply_op (cursor_op i ts) m) ts = data_below m ts" for m
    by (simp add: data_below_def c)
  ultimately show ?thesis
    using assms by (simp add: same_state_def replica_ok_def load_state_cursor c) (simp add: cursor_effect)
qed

lemma data_below_committed:
  assumes "committed_at (from_u64 ts) ws m m'" "data_below m ts0" "ts0 \<le> ts"
  shows "data_below m' ts"
  unfolding data_below_def
proof
  fix k assume k: "k \<in> dom (m' CF_DATA)"
  show "\<exists>t pk u. encodable u \<and> k = encode_versioned_key t pk u \<and> to_u64 u \<le> ts"
  proof (cases "k \<in> dom (m CF_DATA)")
    case True
    then show ?thesis using data_below_mono [OF assms(2,3)] by (auto simp: data_below_def)
  next
    case False
    with assms(1) k obtain t pk v where "k = encode_versioned_key t pk (from_u64 ts)"
      unfolding committed_at_def by blast
    then show ?thesis by (intro exI [of _ t] exI [of _ pk] exI [of _ "from_u64 ts"]) simp
  qed
qed

lemma dml_same:
  assumes "same_state j a b" "replica_ok a" "replica_ok b" "load_state spec_rocks a = Inr s"
    and "mut_commit_ts mut = Some ts" "last_commit_ts s < ts" "i < 2 ^ 64"
  defines "step \<equiv> \<lambda>m. fold apply_op (commit_batch (from_u64 ts) (mutation_writes mut)) m"
  shows "same_state j (apply_op (cursor_op i ts) (step a)) (apply_op (cursor_op i ts) (step b)) \<and>
    replica_ok (apply_op (cursor_op i ts) (step a)) \<and> replica_ok (apply_op (cursor_op i ts) (step b))"
proof (rule same_state_step [of _ _ a _ b])
  have s: "load_state spec_rocks b = Inr s"
    using assms(1,4) by (simp add: same_state_def)
  have ok: "finite (dom (a CF_DATA))" "finite (dom (b CF_DATA))"
    "data_below a (last_commit_ts s)" "data_below b (last_commit_ts s)"
    using assms(2-4) s by (auto simp: replica_ok_def)
  have c: "committed_at (from_u64 ts) (mutation_writes mut) m (step m)" for m
    unfolding step_def by (rule committed_at_batch) simp
  have live: "live_row (step m) t pk = (case write_map (mutation_writes mut) (t, pk) of
      Some v \<Rightarrow> if v = [] then None else Some v | None \<Rightarrow> live_row m t pk)"
    if "finite (dom (m CF_DATA))" "data_below m (last_commit_ts s)" for m t pk
  proof (rule live_row_written [where m = m, OF c that(1)])
    fix u assume u: "u \<in> versions m t pk"
    then have "to_u64 u < to_u64 (from_u64 ts)" "encodable u"
      using data_below_versions [OF that(2) u] assms(6) by (auto simp: versions_def)
    then show "u < from_u64 ts" using to_u64_less_iff encodable_from_u64 by blast
  qed simp
  show "live_row (step a) t pk = live_row (step b) t pk" for t pk
    using assms(1) ok by (simp add: live same_state_def split: option.split)
  show "step a CF_META = a CF_META" "step b CF_META = b CF_META"
    by (simp_all add: step_def commit_batch_effect)
  have "stored_catalog j (step m) = stored_catalog j m" for m
    by (rule stored_catalog_depends) (simp add: step_def commit_batch_effect)
  then show "stored_catalog j (step a) = stored_catalog j (step b)" using assms(1) by (simp add: same_state_def)
  show "finite (dom (step a CF_DATA))" "finite (dom (step b CF_DATA))"
    using ok by (simp_all add: step_def commit_batch_effect finite_dom_map_of)
  show "data_below (step a) ts" "data_below (step b) ts"
    using data_below_committed [OF c] ok assms(6) by (meson less_imp_le)+
qed (use assms(1,7) in \<open>simp_all add: same_state_def\<close>)

lemma create_same:
  fixes k v :: bytes
  assumes "same_state j a b" "replica_ok a" "replica_ok b" "load_state spec_rocks a = Inr s" "i < 2 ^ 64"
  defines "step \<equiv> apply_op (Put CF_CATALOG k v)" and "c \<equiv> cursor_op i (last_commit_ts s)"
  shows "same_state j (apply_op c (step a)) (apply_op c (step b)) \<and>
    replica_ok (apply_op c (step a)) \<and> replica_ok (apply_op c (step b))"
  unfolding c_def
proof (rule same_state_step [of _ _ a _ b])
  have s: "load_state spec_rocks b = Inr s"
    using assms(1,4) by (simp add: same_state_def)
  show "stored_catalog j (step a) = stored_catalog j (step b)"
  proof
    fix name
    have "stored_catalog j a name = stored_catalog j b name" using assms(1) by (simp add: same_state_def)
    then show "stored_catalog j (step a) name = stored_catalog j (step b) name"
      by (auto simp: stored_catalog_def step_def)
  qed
  have "live_row (step m) t pk = live_row m t pk" for m t pk
    by (rule live_row_depends) (simp add: step_def)
  then show "live_row (step a) t pk = live_row (step b) t pk" for t pk
    using assms(1) by (simp add: same_state_def)
  show "finite (dom (step a CF_DATA))" "finite (dom (step b CF_DATA))"
    "data_below (step a) (last_commit_ts s)" "data_below (step b) (last_commit_ts s)"
    using assms(2-4) s by (auto simp: replica_ok_def step_def data_below_def)
qed (use assms(1,5) in \<open>simp_all add: same_state_def step_def\<close>)

lemma drop_batch:
  fixes k :: bytes and t :: u32
  assumes "finite (dom (m CF_DATA))" "data_below m ts"
  defines "ops \<equiv> Delete CF_CATALOG k # map (\<lambda>(raw_key, _). Delete CF_DATA raw_key)
    (map (\<lambda>k. (k, the (m CF_DATA k))) (sorted_list_of_set (table_keys m t)))"
  shows "fold apply_op ops m =
    m(CF_CATALOG := (m CF_CATALOG)(k := None), CF_DATA := (m CF_DATA) |` (- table_keys m t))"
proof -
  have "finite (table_keys m t)" using assms(1) by (simp add: table_keys_def)
  then show ?thesis
    unfolding ops_def by (simp only: fold.simps comp_def deletes_fold) (simp add: image_image fun_upd_twist)
qed

lemma drop_same:
  fixes k :: bytes and t :: u32
  assumes "same_state j a b" "replica_ok a" "replica_ok b" "load_state spec_rocks a = Inr s" "i < 2 ^ 64"
  defines "step \<equiv> \<lambda>m. m(CF_CATALOG := (m CF_CATALOG)(k := None), CF_DATA := (m CF_DATA) |` (- table_keys m t))"
    and "c \<equiv> cursor_op i (last_commit_ts s)"
  shows "same_state j (apply_op c (step a)) (apply_op c (step b)) \<and>
    replica_ok (apply_op c (step a)) \<and> replica_ok (apply_op c (step b))"
  unfolding c_def
proof (rule same_state_step [of _ _ a _ b])
  have s: "load_state spec_rocks b = Inr s"
    using assms(1,4) by (simp add: same_state_def)
  have ok: "finite (dom (a CF_DATA))" "finite (dom (b CF_DATA))"
    "data_below a (last_commit_ts s)" "data_below b (last_commit_ts s)"
    using assms(2-4) s by (auto simp: replica_ok_def)
  show "stored_catalog j (step a) = stored_catalog j (step b)"
  proof
    fix name
    have "stored_catalog j a name = stored_catalog j b name" using assms(1) by (simp add: same_state_def)
    then show "stored_catalog j (step a) name = stored_catalog j (step b) name"
      by (auto simp: stored_catalog_def step_def)
  qed
  have "live_row (step m) t' pk = (if t' = t then None else live_row m t' pk)"
    if "finite (dom (m CF_DATA))" for m t' pk
    by (rule live_row_dropped [where m = m, OF that]) (simp add: step_def)
  then show "live_row (step a) t' pk = live_row (step b) t' pk" for t' pk
    using assms(1) ok by (simp add: same_state_def)
  have "dom (step m CF_DATA) \<subseteq> dom (m CF_DATA)" for m by (auto simp: step_def)
  then show "finite (dom (step a CF_DATA))" "finite (dom (step b CF_DATA))"
    "data_below (step a) (last_commit_ts s)" "data_below (step b) (last_commit_ts s)"
    using ok by (meson finite_subset, meson finite_subset, meson data_below_def subsetD, meson data_below_def subsetD)
qed (use assms(1,5) in \<open>simp_all add: same_state_def step_def\<close>)

lemma drop_mutation_batch:
  assumes "replica_ok m"
  shows "\<exists>ops. mutation_batch env spec_rocks (DropTable table t) m = Inr ops \<and>
    fold apply_op ops m = m(CF_CATALOG := (m CF_CATALOG)(str_bytes (to_lowercase env table) := None),
      CF_DATA := (m CF_DATA) |` (- table_keys m t))"
proof -
  from assms obtain ts where ok: "finite (dom (m CF_DATA))" "data_below m ts"
    by (auto simp: replica_ok_def)
  show ?thesis
    using drop_batch [of m, OF ok, of "str_bytes (to_lowercase env table)" t] table_pairs [of m, OF ok(1) data_below_long [OF ok(2)], of t]
    by (simp add: mutation_batch_def raw_scan_table_versions_def in_table_def)
qed

lemma sql_same:
  assumes "same_state j (sm_engine a) (sm_engine b)" "replica_ok (sm_engine a)" "replica_ok (sm_engine b)"
    and "load_state spec_rocks (sm_engine a) = Inr s" "i < 2 ^ 64"
    and "apply_sql env spec_rocks i mut s a = (a', ra)" "apply_sql env spec_rocks i mut s b = (b', rb)"
  shows "ra = rb \<and> same_state j (sm_engine a') (sm_engine b') \<and>
    replica_ok (sm_engine a') \<and> replica_ok (sm_engine b')"
proof (cases "rbind (check_commit_ts mut s) (\<lambda>_. validate_table_id mut)")
  case (Inl e)
  then show ?thesis using assms by (auto simp: apply_sql_def rbind_def split: sum.splits)
next
  case (Inr u)
  then have ok: "check_commit_ts mut s = Inr ()" "validate_table_id mut = Inr ()" by (auto simp: result_simps)
  show ?thesis
  proof (cases "mut_commit_ts mut")
    case (Some ts)
    with ok(1) have "last_commit_ts s < ts" by (simp add: check_commit_ts_def split: if_splits)
    from dml_same [OF assms(1-4) Some this assms(5)] show ?thesis
      using assms(6,7) ok Some by (auto simp: apply_sql_def dml_batch [OF Some])
  next
    case None
    then consider (create) schema where "mut = CreateTable schema" | (drop) table t where "mut = DropTable table t"
      by (cases mut) (auto simp: mut_commit_ts_def)
    then show ?thesis
    proof cases
      case create
      then show ?thesis
        using assms(1-3,6,7) ok create_same [OF assms(1-5)]
        by (cases "schema_to_json env schema") (auto simp: apply_sql_def mutation_batch_def mut_commit_ts_def)
    next
      case drop
      obtain oa ob where "mutation_batch env spec_rocks mut (sm_engine a) = Inr oa"
        "mutation_batch env spec_rocks mut (sm_engine b) = Inr ob"
        "fold apply_op oa (sm_engine a) = (sm_engine a)(CF_CATALOG := (sm_engine a CF_CATALOG)(str_bytes (to_lowercase env table) := None),
          CF_DATA := (sm_engine a CF_DATA) |` (- table_keys (sm_engine a) t))"
        "fold apply_op ob (sm_engine b) = (sm_engine b)(CF_CATALOG := (sm_engine b CF_CATALOG)(str_bytes (to_lowercase env table) := None),
          CF_DATA := (sm_engine b CF_DATA) |` (- table_keys (sm_engine b) t))"
        using drop_mutation_batch [OF assms(2)] drop_mutation_batch [OF assms(3)] drop by metis
      with drop_same [OF assms(1-5), of "str_bytes (to_lowercase env table)" t] show ?thesis
        using assms(6,7) ok None by (auto simp: apply_sql_def)
    qed
  qed
qed

lemma meta_same:
  fixes k v :: bytes
  assumes "same_state j a b" "replica_ok a" "replica_ok b" "load_state spec_rocks a = Inr s" "i < 2 ^ 64"
  defines "step \<equiv> apply_op (Put CF_META REPLICATED_IDENTITY_STATE_KEY v)" and "c \<equiv> cursor_op i (last_commit_ts s)"
  shows "same_state j (apply_op c (step a)) (apply_op c (step b)) \<and>
    replica_ok (apply_op c (step a)) \<and> replica_ok (apply_op c (step b))"
proof -
  have s: "load_state spec_rocks (step a) = Inr s" "load_state spec_rocks (step b) = Inr s"
    using assms(1,4) load_state_depends [of "step a" a] load_state_depends [of "step b" b]
    by (simp_all add: same_state_def step_def)
  have "stored_catalog j (step m) = stored_catalog j m" for m
    by (rule stored_catalog_depends) (simp add: step_def)
  moreover have "live_row (step m) t pk = live_row m t pk" for m t pk
    by (rule live_row_depends) (simp add: step_def)
  moreover have "data_below (step m) ts = data_below m ts" for m ts by (simp add: data_below_def step_def)
  moreover have "load_state spec_rocks b = Inr s"
    using assms(1,4) by (simp add: same_state_def)
  ultimately show ?thesis
    unfolding c_def using assms s
    by (intro same_state_step [of _ _ "step a" _ "step b"]) (auto simp: same_state_def replica_ok_def step_def)
qed

lemma control_same:
  assumes "same_state j a b" "replica_ok a" "replica_ok b" "load_state spec_rocks a = Inr s" "i < 2 ^ 64"
  defines "c \<equiv> cursor_op i (last_commit_ts s)"
  shows "same_state j (apply_op c a) (apply_op c b) \<and> replica_ok (apply_op c a) \<and> replica_ok (apply_op c b)"
proof -
  have "load_state spec_rocks b = Inr s"
    using assms(1,4) by (simp add: same_state_def)
  then show ?thesis
    unfolding c_def using assms
    by (intro same_state_step [of _ _ a _ b]) (auto simp: same_state_def replica_ok_def)
qed

lemma requested_registry_depends:
  assumes "a CF_META REPLICATED_IDENTITY_STATE_KEY = b CF_META REPLICATED_IDENTITY_STATE_KEY"
  shows "requested_registry spec_rocks m a = requested_registry spec_rocks m b"
proof -
  have "state_load spec_rocks a = state_load spec_rocks b" using assms by (simp add: state_load_def)
  then show ?thesis by (cases m) (simp_all add: requested_registry_def loaded_registry_def)
qed

lemma identity_same:
  assumes "same_state j (sm_engine a) (sm_engine b)" "replica_ok (sm_engine a)" "replica_ok (sm_engine b)"
    and "load_state spec_rocks (sm_engine a) = Inr s" "i < 2 ^ 64"
    and "apply_identity spec_rocks i mut s a = (a', ra)" "apply_identity spec_rocks i mut s b = (b', rb)"
  shows "ra = rb \<and> same_state j (sm_engine a') (sm_engine b') \<and>
    replica_ok (sm_engine a') \<and> replica_ok (sm_engine b')"
proof -
  have "requested_registry spec_rocks mut (sm_engine a) = requested_registry spec_rocks mut (sm_engine b)"
    using assms(1) by (intro requested_registry_depends) (simp add: same_state_def)
  with assms meta_same [OF assms(1-5)] show ?thesis
    by (auto simp: apply_identity_def split: sum.splits)
qed

lemma entry_same:
  assumes "same_state j (sm_engine a) (sm_engine b)" "replica_ok (sm_engine a)" "replica_ok (sm_engine b)"
    and "le_index e < 2 ^ 64"
    and "apply_log_entry env spec_rocks e a = (a', ra)" "apply_log_entry env spec_rocks e b = (b', rb)"
  shows "ra = rb \<and> same_state j (sm_engine a') (sm_engine b') \<and>
    replica_ok (sm_engine a') \<and> replica_ok (sm_engine b')"
proof -
  from assms(2) obtain s where s: "load_state spec_rocks (sm_engine a) = Inr s" by (auto simp: replica_ok_def)
  then have sb: "load_state spec_rocks (sm_engine b) = Inr s"
    using assms(1) by (simp add: same_state_def)
  let ?known = "le_index e \<le> last_applied_index s"
  consider (known) ?known | (id) "\<not> ?known" "is_replicated_identity_mutation (le_command e)"
    | (ctl) "\<not> ?known" "\<not> is_replicated_identity_mutation (le_command e)" "\<not> is_replicated_mutation (le_command e)"
    | (sql) "\<not> ?known" "\<not> is_replicated_identity_mutation (le_command e)" "is_replicated_mutation (le_command e)"
    by blast
  then show ?thesis
  proof cases
    case known
    with assms s sb show ?thesis by (auto simp: apply_log_entry_def)
  next
    case id
    with assms s sb identity_same [OF assms(1-3) s assms(4)] show ?thesis
      by (cases "decode_identity (le_command e)") (auto simp: apply_log_entry_def)
  next
    case ctl
    with assms s sb control_same [OF assms(1-3) s assms(4)] show ?thesis
      by (auto simp: apply_log_entry_def advance_control_apply_def)
  next
    case sql
    with assms s sb sql_same [OF assms(1-3) s assms(4)] show ?thesis
      by (cases "decode_mutation (le_command e)") (auto simp: apply_log_entry_def)
  qed
qed

lemma task_same:
  assumes "same_state j (sm_engine a) (sm_engine b)" "replica_ok (sm_engine a)" "replica_ok (sm_engine b)"
    and "\<forall>e \<in> set es. le_index e < 2 ^ 64"
    and "apply_task env spec_rocks es a = (a', as)" "apply_task env spec_rocks es b = (b', bs)"
  shows "as = bs \<and> same_state j (sm_engine a') (sm_engine b') \<and>
    replica_ok (sm_engine a') \<and> replica_ok (sm_engine b')"
  using assms
proof (induction es arbitrary: a b as bs)
  case (Cons e es)
  obtain a1 ra b1 rb where e: "apply_log_entry env spec_rocks e a = (a1, ra)" "apply_log_entry env spec_rocks e b = (b1, rb)"
    by fastforce
  have s: "ra = rb" "same_state j (sm_engine a1) (sm_engine b1)" "replica_ok (sm_engine a1)" "replica_ok (sm_engine b1)"
    using entry_same [OF Cons.prems(1-3) _ e] Cons.prems(4) by auto
  show ?case
  proof (cases ra)
    case (Inl err)
    with Cons.prems(5,6) e s show ?thesis by auto
  next
    case (Inr out)
    with Cons.prems(4-6) e s Cons.IH [OF s(2-4)] show ?thesis by (fastforce split: prod.splits)
  qed
qed simp

end
