(* ===== verification/Snapshot_Install.thy ===== *)
theory Snapshot_Install
  imports Snapshot_Transfer
begin

text \<open>
  Export and restore compose: installing a snapshot puts a node into the state of the node that
  exported it. With the results of \<open>Snapshot_Transfer\<close>, the two nodes then stay in the same
  state and give the same answers while both apply the rest of the log.

  A snapshot holds the rows of catalogued tables only. Rows without a catalogued table are the one
  thing that it loses, and the last section shows how \<open>DROP TABLE\<close> leaves such rows behind.
\<close>

section \<open>The rows of a table\<close>

lemma rows_loop_fold:
  "rows_loop name P floor_ts kvs latest = Inr out \<Longrightarrow>
   out = foldl (\<lambda>m (k, v). bt_insert k v m) latest
     (map (\<lambda>(k, v). (the (decode_pk_from_key k), v)) (takeWhile (\<lambda>(k, v). in_table P k) kvs))"
  by (induction name P floor_ts kvs latest rule: rows_loop.induct)
    (auto simp: in_table_def result_simps Let_def split: if_splits)

lemma map_of_rev_sorted:
  assumes "sorted_wrt (<) (ks :: 'a::linorder list)"
  shows "map_of (rev (map (\<lambda>k. (f k, g k)) ks)) p =
    (if {k \<in> set ks. f k = p} = {} then None else Some (g (Max {k \<in> set ks. f k = p})))"
  using assms
proof (induction ks rule: rev_induct)
  case (snoc x ks)
  then have less: "\<forall>k \<in> set ks. k < x" and IH: "map_of (rev (map (\<lambda>k. (f k, g k)) ks)) p =
    (if {k \<in> set ks. f k = p} = {} then None else Some (g (Max {k \<in> set ks. f k = p})))"
    by (simp_all add: sorted_wrt_append)
  show ?case
  proof (cases "f x = p")
    case True
    have "Max {k \<in> set (ks @ [x]). f k = p} = x"
      by (rule Max_eqI) (use less True in auto)
    then show ?thesis using True by auto
  next
    case False
    then have "{k \<in> set (ks @ [x]). f k = p} = {k \<in> set ks. f k = p}" by auto
    then show ?thesis using IH False by simp
  qed
qed simp

lemma table_keys_of_pk:
  assumes "data_below m ts"
  shows "{k \<in> table_keys m t. the (decode_pk_from_key k) = pk} = encode_versioned_key t pk ` versions m t pk"
    (is "?l = ?r")
proof
  show "?l \<subseteq> ?r"
  proof
    fix k assume "k \<in> ?l"
    then have k: "k \<in> dom (m CF_DATA)" "take 4 k = be_bytes 4 (unat t)" "the (decode_pk_from_key k) = pk"
      by (auto simp: table_keys_def in_table_def)
    with assms obtain t' pk' u where u: "encodable u" "k = encode_versioned_key t' pk' u"
      unfolding data_below_def by blast
    with k have "t' = t" "pk' = pk" by (auto simp: u32_bytes_eq_iff)
    with u k(1) show "k \<in> ?r" by (auto simp: versions_def)
  qed
  show "?r \<subseteq> ?l"
    by (auto simp: versions_def table_keys_def in_table_def)
qed

lemma newest_value:
  fixes t :: u32 and pk :: bytes
  assumes "finite (dom (m CF_DATA))" "data_below m ts"
  defines "K \<equiv> {k \<in> table_keys m t. the (decode_pk_from_key k) = pk}"
  shows "visible m t pk HLC_MAX = (if K = {} then None else Some (the (m CF_DATA (Max K))))"
proof -
  let ?V = "versions m t pk"
  have K: "K = encode_versioned_key t pk ` ?V" unfolding K_def using table_keys_of_pk [OF assms(2)] .
  have V: "{u \<in> ?V. u \<le> HLC_MAX} = ?V" by (auto simp: versions_def le_MAX)
  have fin: "finite ?V" using finite_versions [of m, OF assms(1)] .
  show ?thesis
  proof (cases "?V = {}")
    case True
    then show ?thesis using K by (simp add: visible_def)
  next
    case False
    have M: "Max ?V \<in> ?V" using Max_in [OF fin False] .
    have "Max K = encode_versioned_key t pk (Max ?V)"
    proof (rule Max_eqI)
      show "finite K" using K fin by simp
      show "encode_versioned_key t pk (Max ?V) \<in> K" using K M by blast
      fix k assume "k \<in> K"
      then obtain u where "u \<in> ?V" "k = encode_versioned_key t pk u" using K by blast
      moreover have "u \<le> Max ?V" using Max_ge [OF fin] \<open>u \<in> ?V\<close> by blast
      ultimately show "k \<le> encode_versioned_key t pk (Max ?V)"
        using M by (auto simp: le_less versions_def versioned_key_less_iff)
    qed
    moreover have "visible m t pk HLC_MAX = m CF_DATA (encode_versioned_key t pk (Max ?V))"
      using visible_nonempty [of m t pk HLC_MAX] False V by simp
    ultimately show ?thesis using K False M by (auto simp: versions_def)
  qed
qed

lemma rows_loop_visible:
  assumes "finite (dom (m CF_DATA))" "data_below m ts"
    and "rows_loop name (be_bytes 4 (unat t)) floor_ts (pairs_from (m CF_DATA) (be_bytes 4 (unat t))) [] = Inr latest"
  shows "bt_inv latest" "map_of latest pk = visible m t pk HLC_MAX"
proof -
  let ?ks = "sorted_list_of_set (table_keys m t)"
  have fin: "finite (table_keys m t)" using assms(1) by (simp add: table_keys_def)
  have "latest = foldl (\<lambda>m (k, v). bt_insert k v m) []
      (map (\<lambda>(k, v). (the (decode_pk_from_key k), v)) (map (\<lambda>k. (k, the (m CF_DATA k))) ?ks))"
    using rows_loop_fold [OF assms(3)] table_pairs [of m, OF assms(1) data_below_long [OF assms(2)], of t] by simp
  then have l: "latest = foldl (\<lambda>m (k, v). bt_insert k v m) []
      (map (\<lambda>k. (the (decode_pk_from_key k), the (m CF_DATA k))) ?ks)"
    by (simp add: comp_def)
  then show "bt_inv latest" by simp
  have "sorted_wrt (<) ?ks" using fin by simp
  with l show "map_of latest pk = visible m t pk HLC_MAX"
    using newest_value [of m, OF assms(1,2), of t pk] fin
    by (simp add: map_of_bt_foldl map_of_rev_sorted)
qed

lemma map_of_filter_values:
  assumes "distinct (map fst kvs)"
  shows "map_of (filter (\<lambda>(k, v). P v) kvs) k =
    (case map_of kvs k of Some v \<Rightarrow> if P v then Some v else None | None \<Rightarrow> None)"
  using assms
proof (induction kvs)
  case (Cons kv kvs)
  then have "map_of kvs (fst kv) = None" by (simp add: map_of_eq_None_iff)
  with Cons show ?case by (auto split: option.splits)
qed simp

lemma live_rows_map:
  assumes "bt_inv latest"
  shows "map_of (map (\<lambda>w. (sr_primary_key w, sr_value w)) (live_rows latest)) pk =
    (case map_of latest pk of Some v \<Rightarrow> if v = [] then None else Some v | None \<Rightarrow> None)"
    and "sorted_wrt (\<lambda>a b. sr_primary_key a < sr_primary_key b) (live_rows latest)"
    and "list_all (\<lambda>w. sr_value w \<noteq> []) (live_rows latest)"
proof -
  have l: "map (\<lambda>w. (sr_primary_key w, sr_value w)) (live_rows latest) = filter (\<lambda>(k, v). v \<noteq> []) latest"
    by (auto simp: live_rows_def comp_def split_def)
  show "map_of (map (\<lambda>w. (sr_primary_key w, sr_value w)) (live_rows latest)) pk =
    (case map_of latest pk of Some v \<Rightarrow> if v = [] then None else Some v | None \<Rightarrow> None)"
    unfolding l map_of_filter_values [OF bt_inv_distinct [OF assms]] by (simp split: option.split)
  have "sorted_wrt (<) (map fst (filter (\<lambda>(k, v). v \<noteq> []) latest))"
    using assms by (simp add: bt_inv_def sorted_wrt_map sorted_wrt_filter)
  then show "sorted_wrt (\<lambda>a b. sr_primary_key a < sr_primary_key b) (live_rows latest)"
    by (simp add: live_rows_def sorted_wrt_map split_def)
  show "list_all (\<lambda>w. sr_value w \<noteq> []) (live_rows latest)"
    by (auto simp: live_rows_def list_all_iff)
qed

text \<open>The rows that an export finds for a table.\<close>

definition table_exported :: "contents \<Rightarrow> snapshot_table \<Rightarrow> bool" where
  "table_exported m t \<longleftrightarrow>
     sn_table_id t = table_id_for (schema_name (sn_schema t)) \<and>
     (\<forall>pk. map_of (map (\<lambda>w. (sr_primary_key w, sr_value w)) (sn_rows t)) pk = live_row m (sn_table_id t) pk) \<and>
     sorted_wrt (\<lambda>a b. sr_primary_key a < sr_primary_key b) (sn_rows t) \<and>
     list_all (\<lambda>w. sr_value w \<noteq> []) (sn_rows t)"

lemma export_tables_exported:
  assumes "finite (dom (m CF_DATA))" "data_below m ts" "export_tables spec_rocks m floor_ts ids schemas = Inr tables"
  shows "map sn_schema tables = schemas \<and> list_all (table_exported m) tables \<and>
    distinct (map sn_table_id tables) \<and> (\<forall>t \<in> set tables. ids (sn_table_id t) = None)"
  using assms(3)
proof (induction schemas arbitrary: tables ids)
  case (Cons schema schemas)
  let ?id = "table_id_for (schema_name schema)"
  from Cons.prems obtain rows rest where r: "ids ?id = None"
      "read_logical_rows spec_rocks m (schema_name schema) ?id floor_ts = Inr rows"
      "export_tables spec_rocks m floor_ts (ids(?id \<mapsto> schema_name schema)) schemas = Inr rest"
      "tables = \<lparr>sn_schema = schema, sn_table_id = ?id, sn_rows = rows\<rparr> # rest"
    by (auto simp: Let_def result_simps split: option.splits)
  from r(2) obtain latest where l: "rows_loop (schema_name schema) (be_bytes 4 (unat ?id)) floor_ts
      (pairs_from (m CF_DATA) (be_bytes 4 (unat ?id))) [] = Inr latest" "rows = live_rows latest"
    by (auto simp: read_logical_rows_def Let_def result_simps)
  note v = rows_loop_visible [of m, OF assms(1,2) l(1)]
  have "table_exported m \<lparr>sn_schema = schema, sn_table_id = ?id, sn_rows = rows\<rparr>"
    using live_rows_map [OF v(1)] v(2) l(2) by (simp add: table_exported_def live_row_def)
  with Cons.IH [OF r(3)] r(1,4) show ?case by (auto split: if_splits)
qed simp

section \<open>The catalog\<close>

lemma catalog_loop_fold:
  "catalog_loop se kvs schemas = Inr out \<Longrightarrow>
   \<exists>ss. out = foldl (\<lambda>m (k, v). bt_insert k v m) schemas (map (\<lambda>s. (se_lower se (schema_name s), s)) ss) \<and>
     list_all2 (\<lambda>(k, v) s. schema_of_json (se_json se) v = Inr s \<and> k = str_bytes (se_lower se (schema_name s)) \<and>
       \<not> starts_with (se_lower se (schema_name s)) INDEX_SENTINEL_PREFIX) kvs ss"
proof (induction se kvs schemas rule: catalog_loop.induct)
  case (2 se key v rest schemas)
  from "2.prems" obtain s where s: "\<not> starts_with key (str_bytes INDEX_SENTINEL_PREFIX)"
      "string_from_utf8 key = Some (se_lower se (schema_name s))" "schema_of_json (se_json se) v = Inr s"
      "catalog_loop se rest (bt_insert (se_lower se (schema_name s)) s schemas) = Inr out"
    by (auto simp: result_simps Let_def simp del: string_from_utf8_Some split: if_splits)
  then have k: "key = str_bytes (se_lower se (schema_name s))" by (simp add: string_from_utf8_Some)
  from "2.IH" [OF s(1) refl _ s(4)] obtain ss where
    "out = foldl (\<lambda>m (k, v). bt_insert k v m) (bt_insert (se_lower se (schema_name s)) s schemas)
       (map (\<lambda>s. (se_lower se (schema_name s), s)) ss)"
    "list_all2 (\<lambda>(k, v) s. schema_of_json (se_json se) v = Inr s \<and> k = str_bytes (se_lower se (schema_name s)) \<and>
       \<not> starts_with (se_lower se (schema_name s)) INDEX_SENTINEL_PREFIX) rest ss" by auto
  then show ?case using s(1,3) k by (intro exI [of _ "s # ss"]) (simp add: starts_with_str_bytes)
qed simp

text \<open>What a successful read of the catalog returns: the stored schemas in the order of their names.\<close>

definition catalog_read :: "snap_env \<Rightarrow> contents \<Rightarrow> table_schema list \<Rightarrow> bool" where
  "catalog_read se m schemas \<longleftrightarrow>
     sorted_wrt (\<lambda>a b. se_lower se (schema_name a) < se_lower se (schema_name b)) schemas \<and>
     (\<forall>name. map_of (map (\<lambda>s. (se_lower se (schema_name s), s)) schemas) name = stored_catalog (se_json se) m name) \<and>
     list_all (\<lambda>s. \<exists>v. schema_of_json (se_json se) v = Inr s) schemas \<and>
     list_all (\<lambda>s. \<not> starts_with (se_lower se (schema_name s)) INDEX_SENTINEL_PREFIX) schemas"

lemma read_catalog_schemas:
  assumes "finite (dom (m CF_CATALOG))" "read_catalog se spec_rocks m = Inr schemas"
  shows "catalog_read se m schemas"
proof -
  let ?e = "\<lambda>s. (se_lower se (schema_name s), s)"
  define ks where "ks = sorted_list_of_set (dom (m CF_CATALOG))"
  define kvs where "kvs = map (\<lambda>k. (k, the (m CF_CATALOG k))) ks"
  have kvs: "pairs_from (m CF_CATALOG) [] = kvs" by (simp add: pairs_from_def kvs_def ks_def)
  from assms(2) obtain out where out: "catalog_loop se kvs [] = Inr out" "schemas = map snd out"
    by (auto simp: read_catalog_def kvs result_simps)
  from catalog_loop_fold [OF out(1)] obtain ss where ss: "out = foldl (\<lambda>m (k, v). bt_insert k v m) [] (map ?e ss)"
    "list_all2 (\<lambda>(k, v) s. schema_of_json (se_json se) v = Inr s \<and> k = str_bytes (se_lower se (schema_name s)) \<and>
       \<not> starts_with (se_lower se (schema_name s)) INDEX_SENTINEL_PREFIX) kvs ss" by blast
  have inv: "bt_inv out" using ss(1) by simp
  have keys: "map (\<lambda>s. str_bytes (se_lower se (schema_name s))) ss = ks"
    using ss(2) by (intro nth_equalityI) (auto simp: list_all2_conv_all_nth kvs_def)
  have "distinct ks" by (simp add: ks_def)
  then have d: "distinct (map fst (map ?e ss))"
    using keys by (auto simp: distinct_map inj_on_def comp_def)
  have out_map: "map_of out = map_of (map ?e ss)"
    using bt_of_list_distinct [OF d] ss(1) by (simp add: bt_of_list_def)
  have sets: "set out = set (map ?e ss)"
    using map_of_inject_set [of out "map ?e ss"] bt_inv_distinct [OF inv] d out_map by blast
  then have names: "map ?e schemas = out"
    unfolding out(2) map_map by (intro map_idI) auto
  have elem: "\<exists>v. schema_of_json (se_json se) v = Inr s \<and> m CF_CATALOG (str_bytes (se_lower se (schema_name s))) = Some v \<and>
      \<not> starts_with (se_lower se (schema_name s)) INDEX_SENTINEL_PREFIX" if "s \<in> set ss" for s
  proof -
    from that obtain n where n: "n < length ss" "s = ss ! n" by (auto simp: in_set_conv_nth)
    with ss(2) have len: "n < length kvs" by (simp add: list_all2_lengthD)
    then have "ks ! n \<in> dom (m CF_CATALOG)"
      using assms(1) nth_mem [of n ks] by (simp add: kvs_def ks_def)
    then show ?thesis
      using list_all2_nthD [OF ss(2) len] n len by (auto simp: kvs_def)
  qed
  have "map_of (map ?e ss) name = stored_catalog (se_json se) m name" for name
  proof (cases "map_of (map ?e ss) name")
    case (Some s)
    then have "s \<in> set ss" "name = se_lower se (schema_name s)" by (auto dest: map_of_SomeD)
    with elem [of s] Some show ?thesis by (auto simp: stored_catalog_def)
  next
    case None
    then have "name \<notin> (\<lambda>s. se_lower se (schema_name s)) ` set ss"
      by (auto simp: map_of_eq_None_iff image_image)
    then have "str_bytes name \<notin> set ks" using keys by (auto simp: str_bytes_inj simp flip: keys)
    then have "m CF_CATALOG (str_bytes name) = None" using assms(1) by (auto simp: ks_def)
    with None show ?thesis by (simp add: stored_catalog_def)
  qed
  moreover have "set schemas = set ss"
    using sets by (auto simp: out(2) image_image)
  moreover have "sorted_wrt (\<lambda>a b. se_lower se (schema_name a) < se_lower se (schema_name b)) schemas"
  proof -
    have "sorted_wrt (<) (map fst (map ?e schemas))" using inv names by (simp add: bt_inv_def)
    then show ?thesis by (simp add: sorted_wrt_map)
  qed
  moreover have "list_all (\<lambda>s. \<exists>v. schema_of_json (se_json se) v = Inr s) ss"
    "list_all (\<lambda>s. \<not> starts_with (se_lower se (schema_name s)) INDEX_SENTINEL_PREFIX) ss"
    using elem unfolding list_all_iff by blast+
  ultimately show ?thesis
    using out_map names by (simp add: catalog_read_def list_all_iff)
qed

section \<open>What an export contains\<close>

text \<open>The identity part of a snapshot against the stored registry.\<close>

fun extension_of :: "contents \<Rightarrow> identity_extension \<Rightarrow> bool" where
  "extension_of m Uninitialized \<longleftrightarrow> m CF_META REPLICATED_IDENTITY_STATE_KEY = None"
| "extension_of m (Initialized st) \<longleftrightarrow>
     (\<exists>bs. m CF_META REPLICATED_IDENTITY_STATE_KEY = Some bs \<and> state_decode bs = Inr st)"

lemma extension_roundtrip:
  assumes "extension_encode x = Inr bs" "extension_of m x"
  shows "bs \<noteq> []" "extension_decode bs = Inr x"
proof -
  note defs = extension_encode_def extension_decode_def NBIX_MAGIC_def IDENTITY_SNAPSHOT_EXTENSION_VERSION_def
    FLAG_UNINITIALIZED_def FLAG_INITIALIZED_def
  show "bs \<noteq> []" using assms(1)
    by (cases x) (auto simp: defs result_simps Let_def str_bytes_def split: if_splits)
  show "extension_decode bs = Inr x"
  proof (cases x)
    case Uninitialized
    with assms(1) show ?thesis
      by (auto simp: defs str_bytes_def rd_take_def rd_u8_def require_def)
  next
    case (Initialized st)
    with assms(2) obtain raw where raw: "state_decode raw = Inr st" by auto
    with state_decode_inv(2) [OF raw] assms(1) Initialized show ?thesis
      by (auto simp: defs str_bytes_def rd_take_def rd_u8_def require_def rd_u32_def wr_u32_def Let_def
          result_simps unat_of_nat split: if_splits)
  qed
qed

text \<open>The snapshot \<open>s\<close> describes the contents \<open>m\<close>.\<close>

definition describes :: "snap_env \<Rightarrow> contents \<Rightarrow> sql_snapshot \<Rightarrow> bool" where
  "describes se m s \<longleftrightarrow>
     load_state spec_rocks m = Inr \<lparr>last_applied_index = unat (latest_sql_apply_index (sn_metadata s)),
        last_commit_ts = latest_commit_ts (sn_metadata s)\<rparr> \<and>
     (\<exists>x. extension_encode x = Inr (metadata_extension s) \<and> extension_of m x) \<and>
     catalog_read se m (map sn_schema (sn_tables s)) \<and>
     list_all (table_exported m) (sn_tables s) \<and> distinct (map sn_table_id (sn_tables s))"

lemma durable_apply_state_spec:
  assumes "durable_apply_state spec_rocks m = Inr st"
  shows "load_state spec_rocks m = Inr st" "last_applied_index st < 2 ^ 64"
proof -
  from assms show "load_state spec_rocks m = Inr st"
    by (auto simp: durable_apply_state_def load_state_def result_simps split: option.splits)
  have "be_value (take 8 bs) < 2 ^ 64" for bs
    using be_value_less [of "take 8 bs"] power_increasing [of "length (take 8 bs)" 8 "256 :: nat"]
    by simp
  with assms show "last_applied_index st < 2 ^ 64"
    by (auto simp: durable_apply_state_def apply_state_decode_def result_simps split: option.splits if_splits)
qed

lemma export_describes:
  assumes "finite (dom (m CF_DATA))" "finite (dom (m CF_CATALOG))" "data_below m ts"
    and "export_value se spec_rocks i t m = Inr s"
  shows "describes se m s" "last_included_index (sn_metadata s) = i" "last_included_term (sn_metadata s) = t"
proof -
  from assms(4) obtain st ext schemas tables where e: "durable_apply_state spec_rocks m = Inr st"
      "export_identity spec_rocks m = Inr ext" "read_catalog se spec_rocks m = Inr schemas"
      "export_tables spec_rocks m (last_commit_ts st) Map.empty schemas = Inr tables"
      "s = \<lparr>sn_metadata = \<lparr>last_included_index = i, last_included_term = t,
            latest_sql_apply_index = of_nat (last_applied_index st), latest_commit_ts = last_commit_ts st\<rparr>,
          sn_tables = tables, metadata_extension = ext\<rparr>"
    by (auto simp: export_value_def result_simps)
  from e(2) have "\<exists>x. extension_encode x = Inr ext \<and> extension_of m x"
    by (fastforce simp: export_identity_def result_simps split: option.splits)
  then show "describes se m s"
    using e(5) durable_apply_state_spec [OF e(1)] read_catalog_schemas [OF assms(2) e(3)]
      export_tables_exported [of m, OF assms(1,3) e(4)]
    by (simp add: describes_def unat_of_nat)
  show "last_included_index (sn_metadata s) = i" "last_included_term (sn_metadata s) = t"
    using e(5) by simp_all
qed

lemma describes_canonical:
  assumes "describes se m s"
  shows "canonical_snapshot (se_lower se) s = s"
proof -
  have "sort_key sr_primary_key (sn_rows t) = sn_rows t" if "t \<in> set (sn_tables s)" for t
  proof (rule strict_sort_key_id)
    show "sorted_wrt (\<lambda>a b. sr_primary_key a < sr_primary_key b) (sn_rows t)"
      using assms that by (auto simp: describes_def list_all_iff table_exported_def)
  qed
  then have "map (\<lambda>t. t\<lparr>sn_rows := sort_key sr_primary_key (sn_rows t)\<rparr>) (sn_tables s) = sn_tables s"
    by (intro map_idI) simp
  moreover have "sort_key (\<lambda>t. se_lower se (schema_name (sn_schema t))) (sn_tables s) = sn_tables s"
    by (rule strict_sort_key_id) (use assms in \<open>auto simp: describes_def catalog_read_def sorted_wrt_map\<close>)
  ultimately show ?thesis by (simp add: canonical_snapshot_def)
qed

lemma describes_rust:
  assumes "describes se m s" "schema_json_ok (se_json se)"
  shows "rust_snapshot s"
  unfolding rust_snapshot_def list_all_iff [of _ "sn_tables s"]
proof
  fix t assume "t \<in> set (sn_tables s)"
  then obtain v where "schema_of_json (se_json se) v = Inr (sn_schema t)"
    using assms(1) by (auto simp: describes_def catalog_read_def list_all_iff)
  then show "rust_string (schema_name (sn_schema t)) \<and>
      list_all (\<lambda>c. rust_string (col_name c) \<and> rust_string (col_data_type c)) (schema_columns (sn_schema t))"
    using assms(2) by (auto simp: schema_json_ok_def)
qed

section \<open>What a restore writes\<close>

definition table_writes :: "snapshot_table \<Rightarrow> (u32 \<times> bytes \<times> bytes) list" where
  "table_writes t = map (\<lambda>w. (sn_table_id t, sr_primary_key w, sr_value w)) (sn_rows t)"

definition catalog_entry :: "snap_env \<Rightarrow> snapshot_table \<Rightarrow> bytes \<times> bytes" where
  "catalog_entry se t =
     (str_bytes (se_lower se (schema_name (sn_schema t))), projr (json_of_schema (se_json se) (sn_schema t)))"

lemma restore_rows_batch:
  "restore_rows ts t ws = Inr ops \<Longrightarrow>
   ops = commit_batch (from_u64 ts) (map (\<lambda>w. (sn_table_id t, sr_primary_key w, sr_value w)) ws)"
  by (induction ts t ws arbitrary: ops rule: restore_rows.induct)
    (auto simp: commit_batch_def result_simps split: if_splits)

lemma restore_tables_effect:
  assumes "restore_tables se ts tables = Inr ops"
  shows "fold apply_op ops m =
      (fold apply_op (commit_batch (from_u64 ts) (concat (map table_writes tables))) m)
        (CF_CATALOG := m CF_CATALOG ++ map_of (rev (map (catalog_entry se) tables)))"
    and "list_all (\<lambda>t. \<exists>v. json_of_schema (se_json se) (sn_schema t) = Inr v) tables"
proof -
  have "fold apply_op ops m = (fold apply_op (commit_batch (from_u64 ts) (concat (map table_writes tables))) m)
        (CF_CATALOG := m CF_CATALOG ++ map_of (rev (map (catalog_entry se) tables))) \<and>
      list_all (\<lambda>t. \<exists>v. json_of_schema (se_json se) (sn_schema t) = Inr v) tables"
    using assms
  proof (induction tables arbitrary: ops m)
    case (Cons t tables)
    from Cons.prems obtain v rows rest where r: "json_of_schema (se_json se) (sn_schema t) = Inr v"
        "restore_rows ts t (sn_rows t) = Inr rows" "restore_tables se ts tables = Inr rest"
        "\<not> (sn_rows t \<noteq> [] \<and> ts = 0)"
        "ops = Put CF_CATALOG (str_bytes (se_lower se (schema_name (sn_schema t)))) v # rows @ rest"
      by (auto simp: result_simps split: if_splits)
    let ?m = "fold apply_op rows (apply_op (Put CF_CATALOG (str_bytes (se_lower se (schema_name (sn_schema t)))) v) m)"
    have IH: "fold apply_op rest ?m =
        (fold apply_op (commit_batch (from_u64 ts) (concat (map table_writes tables))) ?m)
          (CF_CATALOG := ?m CF_CATALOG ++ map_of (rev (map (catalog_entry se) tables))) \<and>
        list_all (\<lambda>t. \<exists>v. json_of_schema (se_json se) (sn_schema t) = Inr v) tables"
      using Cons.IH [OF r(3)] .
    have rows: "rows = commit_batch (from_u64 ts) (table_writes t)"
      using restore_rows_batch [OF r(2)] by (simp add: table_writes_def)
    have "catalog_entry se t = (str_bytes (se_lower se (schema_name (sn_schema t))), v)"
      using r(1) by (simp add: catalog_entry_def)
    with IH r(1,5) rows show ?case
      by (simp add: commit_batch_effect) (rule ext, simp)
  qed (simp add: commit_batch_def)
  then show "fold apply_op ops m = (fold apply_op (commit_batch (from_u64 ts) (concat (map table_writes tables))) m)
        (CF_CATALOG := m CF_CATALOG ++ map_of (rev (map (catalog_entry se) tables)))"
    "list_all (\<lambda>t. \<exists>v. json_of_schema (se_json se) (sn_schema t) = Inr v) tables" by simp_all
qed

lemma delete_all_effect:
  assumes "finite (dom (d cf))"
  shows "fold apply_op (delete_all_cf_keys spec_rocks d cf) m = m(cf := (m cf) |` (- dom (d cf)))"
  unfolding delete_all_cf_keys_def deletes_fold using assms by (simp add: pairs_from_def image_image)

lemma restrict_all [simp]: "m |` (- dom m) = Map.empty"
  by (auto simp: restrict_map_def fun_eq_iff)

lemma write_map_tables:
  assumes "distinct (map sn_table_id tables)" "list_all (\<lambda>t. distinct (map sr_primary_key (sn_rows t))) tables"
  shows "write_map (concat (map table_writes tables)) (i, pk) =
    (case find (\<lambda>t. sn_table_id t = i) tables of
       None \<Rightarrow> None | Some t \<Rightarrow> map_of (map (\<lambda>w. (sr_primary_key w, sr_value w)) (sn_rows t)) pk)"
proof -
  have flat: "write_map ws (i, pk) = map_of (map snd (filter (\<lambda>(t, _, _). t = i) (rev ws))) pk" for ws
  proof -
    have "map_of (map (\<lambda>(t, pk, v). ((t, pk), v)) ws) (i, pk) =
        map_of (map snd (filter (\<lambda>(t, _, _). t = i) ws)) pk" for ws :: "(u32 \<times> bytes \<times> bytes) list"
      by (induction ws) auto
    then show ?thesis by (simp add: write_map_def)
  qed
  have "map snd (filter (\<lambda>(t, _, _). t = i) (concat (map table_writes tables))) =
      (case find (\<lambda>t. sn_table_id t = i) tables of
         None \<Rightarrow> [] | Some t \<Rightarrow> map (\<lambda>w. (sr_primary_key w, sr_value w)) (sn_rows t))"
    using assms(1)
  proof (induction tables)
    case (Cons t tables)
    have none: "find (\<lambda>t. sn_table_id t = i) tables = None" if "sn_table_id t = i"
      unfolding find_None_iff using Cons.prems that by (metis distinct.simps(2) image_eqI list.set_map list.simps(9))
    have f: "filter (\<lambda>(t, _, _). t = i) (table_writes t) = (if sn_table_id t = i then table_writes t else [])"
      by (auto simp: table_writes_def filter_map comp_def)
    show ?case using Cons none f by (auto simp: table_writes_def)
  qed simp
  moreover have "map_of (rev kvs) = map_of kvs" if "distinct (map fst kvs)" for kvs :: "(bytes \<times> bytes) list"
    using that map_of_inject_set [of "rev kvs" kvs] by (simp add: rev_map [symmetric])
  moreover have "distinct (map fst (map (\<lambda>w. (sr_primary_key w, sr_value w)) (sn_rows t)))"
    if "find (\<lambda>t. sn_table_id t = i) tables = Some t" for t
    using that assms(2) by (auto simp: comp_def list_all_iff find_Some_iff)
  ultimately show ?thesis
    unfolding flat by (auto simp: rev_filter [symmetric] rev_map [symmetric] split: option.split)
qed

lemma restored_catalog:
  assumes "catalog_read se m (map sn_schema tables)" "schema_json_ok (se_json se)"
    and "list_all (\<lambda>t. \<exists>v. json_of_schema (se_json se) (sn_schema t) = Inr v) tables"
    and "m' CF_CATALOG = map_of (rev (map (catalog_entry se) tables))"
  shows "stored_catalog (se_json se) m' = stored_catalog (se_json se) m"
proof
  fix name
  let ?e = "\<lambda>s. (se_lower se (schema_name s), s)"
  have "sorted_wrt (\<lambda>a b. se_lower se (schema_name (sn_schema a)) < se_lower se (schema_name (sn_schema b))) tables"
    using assms(1) by (simp add: catalog_read_def sorted_wrt_map)
  then have "distinct (map (\<lambda>t. se_lower se (schema_name (sn_schema t))) tables)"
    using strict_sorted_iff [of "map (\<lambda>t. se_lower se (schema_name (sn_schema t))) tables"] by (simp add: sorted_wrt_map)
  then have d: "distinct (map fst (map (catalog_entry se) tables))"
    by (auto simp: distinct_map inj_on_def comp_def catalog_entry_def str_bytes_inj)
  then have "m' CF_CATALOG = map_of (map (catalog_entry se) tables)"
    using assms(4) map_of_inject_set [of "rev (map (catalog_entry se) tables)" "map (catalog_entry se) tables"]
    by (simp add: rev_map [symmetric])
  moreover have "map_of (map (catalog_entry se) tables) (str_bytes name) =
      map_option (\<lambda>s. projr (json_of_schema (se_json se) s)) (map_of (map ?e (map sn_schema tables)) name)"
    by (induction tables) (auto simp: catalog_entry_def str_bytes_inj)
  ultimately have m': "m' CF_CATALOG (str_bytes name) =
      map_option (\<lambda>s. projr (json_of_schema (se_json se) s)) (map_of (map ?e (map sn_schema tables)) name)" by simp
  have read: "map_of (map ?e (map sn_schema tables)) name = stored_catalog (se_json se) m name"
    using assms(1) by (simp add: catalog_read_def)
  show "stored_catalog (se_json se) m' name = stored_catalog (se_json se) m name"
  proof (cases "stored_catalog (se_json se) m name")
    case None
    then show ?thesis using m' read by (simp add: stored_catalog_def)
  next
    case (Some s)
    then have "(name, s) \<in> set (map ?e (map sn_schema tables))" using read by (metis map_of_SomeD)
    then have "s \<in> sn_schema ` set tables" by auto
    then obtain v where "json_of_schema (se_json se) s = Inr v" using assms(3) by (auto simp: list_all_iff)
    moreover from this have "schema_of_json (se_json se) v = Inr s" using assms(2) by (simp add: schema_json_ok_def)
    moreover have "\<not> starts_with name INDEX_SENTINEL_PREFIX"
      using Some by (auto simp: stored_catalog_def split: if_splits)
    ultimately show ?thesis using m' read Some by (simp add: stored_catalog_def)
  qed
qed

lemma exported_rows:
  assumes "describes se m s" "no_orphans (se_json se) m"
  shows "write_map (concat (map table_writes (sn_tables s))) (t, pk) = live_row m t pk"
proof -
  have tabs: "list_all (table_exported m) (sn_tables s)" "distinct (map sn_table_id (sn_tables s))"
    using assms(1) by (simp_all add: describes_def)
  have "distinct (map sr_primary_key rows)"
    if "sorted_wrt (\<lambda>a b. sr_primary_key a < sr_primary_key b) rows" for rows
    using that strict_sorted_iff [of "map sr_primary_key rows"] by (simp add: sorted_wrt_map)
  then have d: "list_all (\<lambda>t. distinct (map sr_primary_key (sn_rows t))) (sn_tables s)"
    using tabs(1) by (auto simp: list_all_iff table_exported_def)
  show ?thesis
  proof (cases "find (\<lambda>x. sn_table_id x = t) (sn_tables s)")
    case (Some x)
    then have "x \<in> set (sn_tables s)" "sn_table_id x = t" by (auto simp: find_Some_iff)
    with tabs(1) Some show ?thesis
      unfolding write_map_tables [OF tabs(2) d] by (auto simp: list_all_iff table_exported_def)
  next
    case None
    have "versions m t pk = {}"
    proof (rule ccontr)
      assume "versions m t pk \<noteq> {}"
      then obtain u where "m CF_DATA (encode_versioned_key t pk u) \<noteq> None" by (auto simp: versions_def)
      with assms(2) obtain name sch where "stored_catalog (se_json se) m name = Some sch"
        "table_id_for (schema_name sch) = t" unfolding no_orphans_def by blast
      with assms(1) obtain x where "x \<in> set (sn_tables s)" "sn_schema x = sch"
        by (fastforce simp: describes_def catalog_read_def dest!: map_of_SomeD
            elim!: allE [of _ name])
      with tabs(1) \<open>table_id_for (schema_name sch) = t\<close> None show False
        by (auto simp: list_all_iff table_exported_def find_None_iff)
    qed
    then show ?thesis
      unfolding write_map_tables [OF tabs(2) d] using None by (simp add: live_row_def visible_def)
  qed
qed

lemma restore_batch_cases:
  assumes "restore_batch se spec_rocks s m0 = Inr ops" "describes se m s"
  obtains x table_ops id_ops where
    "extension_of m x" "identity_ops x = Inr id_ops"
    "restore_tables se (latest_commit_ts (sn_metadata s)) (sn_tables s) = Inr table_ops"
    "ops = (delete_all_cf_keys spec_rocks m0 CF_DATA @ delete_all_cf_keys spec_rocks m0 CF_CATALOG @ table_ops @ id_ops) @
      [cursor_op (unat (latest_sql_apply_index (sn_metadata s))) (latest_commit_ts (sn_metadata s))]"
proof -
  from assms(2) obtain x where x: "extension_encode x = Inr (metadata_extension s)" "extension_of m x"
    by (auto simp: describes_def)
  from assms(1) extension_roundtrip [OF x] x(2) that show thesis
    by (auto simp: restore_batch_def result_simps cursor_op_def)
qed

lemma identity_ops_effect:
  assumes "identity_ops x = Inr ops" "extension_of m x"
  shows "fold apply_op ops m0 =
    m0(CF_META := (m0 CF_META)(REPLICATED_IDENTITY_STATE_KEY := m CF_META REPLICATED_IDENTITY_STATE_KEY))"
  using assms
proof (cases x)
  case (Initialized st)
  with assms(2) obtain bs where bs: "m CF_META REPLICATED_IDENTITY_STATE_KEY = Some bs" "state_decode bs = Inr st" by auto
  from state_decode_inv(2) [OF bs(2)] assms(1) Initialized bs(1) show ?thesis
    by (auto simp: identity_ops_def)
qed (auto simp: identity_ops_def)

lemma restore_same:
  assumes "describes se m s" "schema_json_ok (se_json se)" "no_orphans (se_json se) m"
    and "finite (dom (m0 CF_DATA))" "finite (dom (m0 CF_CATALOG))" "restore_batch se spec_rocks s m0 = Inr ops"
  shows "same_state (se_json se) m (fold apply_op ops m0)" "replica_ok (fold apply_op ops m0)"
proof -
  let ?ts = "latest_commit_ts (sn_metadata s)" and ?i = "unat (latest_sql_apply_index (sn_metadata s))"
  let ?ws = "concat (map table_writes (sn_tables s))"
  obtain x table_ops id_ops where b: "extension_of m x" "identity_ops x = Inr id_ops"
    "restore_tables se ?ts (sn_tables s) = Inr table_ops"
    "ops = (delete_all_cf_keys spec_rocks m0 CF_DATA @ delete_all_cf_keys spec_rocks m0 CF_CATALOG @ table_ops @ id_ops) @
      [cursor_op ?i ?ts]" by (rule restore_batch_cases [OF assms(6,1)])
  define e where "e = m0(CF_DATA := Map.empty, CF_CATALOG := Map.empty)"
  define m' where "m' = fold apply_op ops m0"
  have "fold apply_op (delete_all_cf_keys spec_rocks m0 CF_CATALOG) (fold apply_op (delete_all_cf_keys spec_rocks m0 CF_DATA) m0) = e"
    using assms(4,5) by (simp add: delete_all_effect e_def)
  then have m': "m' = apply_op (cursor_op ?i ?ts) (fold apply_op id_ops (fold apply_op table_ops e))"
    by (simp add: m'_def b(4))
  note t = restore_tables_effect [OF b(3)]
  have data: "m' CF_DATA = fold apply_op (commit_batch (from_u64 ?ts) ?ws) e CF_DATA"
    and cat: "m' CF_CATALOG = map_of (rev (map (catalog_entry se) (sn_tables s)))"
    and ident: "m' CF_META REPLICATED_IDENTITY_STATE_KEY = m CF_META REPLICATED_IDENTITY_STATE_KEY"
    by (simp_all add: m' identity_ops_effect [OF b(2,1)] t(1) cursor_effect) (simp add: e_def)
  let ?c = "fold apply_op (commit_batch (from_u64 ?ts) ?ws) e"
  have c: "committed_at (from_u64 ?ts) ?ws e ?c" by (rule committed_at_batch) simp
  have e: "finite (dom (e CF_DATA))" "\<And>t pk. versions e t pk = {}" "data_below e 0"
    by (simp_all add: e_def versions_def data_below_def)
  have live: "live_row m' t pk = live_row m t pk" for t pk
  proof -
    have "live_row m' t pk = live_row ?c t pk" using data by (rule live_row_depends)
    also have "\<dots> = (case write_map ?ws (t, pk) of Some v \<Rightarrow> if v = [] then None else Some v | None \<Rightarrow> live_row e t pk)"
      by (rule live_row_written [where m = e, OF c e(1)]) (simp_all add: e(2))
    also have "\<dots> = live_row m t pk"
      unfolding exported_rows [OF assms(1,3)]
      by (auto simp: live_row_def visible_def [of e] e(2) split: option.splits)
    finally show ?thesis .
  qed
  have load: "load_state spec_rocks m' = Inr \<lparr>last_applied_index = ?i, last_commit_ts = ?ts\<rparr>"
    unfolding m'_def b(4) by (rule load_after_cursor) (use unat_less_2p [of "latest_sql_apply_index (sn_metadata s)"] in simp)
  have "stored_catalog (se_json se) m' = stored_catalog (se_json se) m"
    by (rule restored_catalog [where m' = m', OF _ assms(2) t(2) cat]) (use assms(1) in \<open>simp add: describes_def\<close>)
  then show "same_state (se_json se) m (fold apply_op ops m0)"
    using load ident live assms(1) by (simp add: same_state_def describes_def m'_def)
  have "data_below m' ?ts" "finite (dom (m' CF_DATA))"
    using data_below_committed [OF c e(3)] data
    by (simp_all add: data_below_def) (simp add: commit_batch_effect e_def finite_dom_map_of)
  then show "replica_ok (fold apply_op ops m0)" using load by (simp add: replica_ok_def m'_def)
qed

section \<open>Over a real store\<close>

context rocks_store begin

lemma durable_apply_state_refines:
  "durable_apply_state r d = Inr st \<Longrightarrow> durable_apply_state spec_rocks (view d) = Inr st"
  by (auto simp: durable_apply_state_def result_simps dest!: get_view)

lemma export_tables_refines:
  "export_tables r d floor_ts ids schemas = export_tables spec_rocks (view d) floor_ts ids schemas"
  by (induction schemas arbitrary: ids)
    (simp_all add: read_logical_rows_def seek_view Let_def split: option.split)

lemma export_value_refines:
  "export_value se r i t d = Inr s \<Longrightarrow> export_value se spec_rocks i t (view d) = Inr s"
  by (auto simp: export_value_def export_identity_def read_catalog_def export_tables_refines seek_view
      result_simps dest!: durable_apply_state_refines get_view)

lemma restore_batch_refines:
  "restore_batch se r s d = Inr ops \<Longrightarrow> restore_batch se spec_rocks s (view d) = Inr ops"
  by (auto simp: restore_batch_def list_index_cfs_def delete_all_cf_keys_def seek_view
      result_simps dest!: durable_apply_state_refines)

lemma exported_bytes:
  assumes "snap_env_ok se" "replica_ok (view (sm_engine a))" "snapshot_export se r i t a = Inr bs"
  obtains s where "describes se (view (sm_engine a)) s" "snapshot_decode (se_lower se) (se_sha256 se) bs = Inr s"
    "last_included_index (sn_metadata s) = i" "last_included_term (sn_metadata s) = t"
proof -
  from assms(3) obtain s where s: "export_value se r i t (sm_engine a) = Inr s"
    "snapshot_encode (se_lower se) (se_sha256 se) s = Inr bs"
    by (auto simp: snapshot_export_def result_simps)
  from assms(2) obtain ts where "data_below (view (sm_engine a)) ts" by (auto simp: replica_ok_def)
  from export_describes [of "view (sm_engine a)", OF finite_view finite_view this export_value_refines [OF s(1)]]
  have d: "describes se (view (sm_engine a)) s" "last_included_index (sn_metadata s) = i"
    "last_included_term (sn_metadata s) = t" by simp_all
  have "snapshot_decode (se_lower se) (se_sha256 se) bs = Inr s"
    using assms(1) s(2) describes_canonical [OF d(1)] describes_rust [OF d(1)]
    by (simp add: snapshot_decode_iff snap_env_ok_def)
  with d that show thesis by blast
qed

lemma restored_state:
  assumes "describes se m s" "snap_env_ok se" "no_orphans (se_json se) m"
    and "snapshot_decode (se_lower se) (se_sha256 se) bs = Inr s" "snapshot_restore se r bs b = (b', Inr md)"
  shows "same_state (se_json se) m (view (sm_engine b'))" "replica_ok (view (sm_engine b'))"
proof -
  from assms(4,5) obtain ops d where "restore_batch se r s (sm_engine b) = Inr ops"
      "write_batch r ops (sm_engine b) = Inr d" "sm_engine b' = d"
    by (auto simp: snapshot_restore_def restore_decoded_def result_simps split: sum.splits)
  with write_batch_refines restore_batch_refines
  have "view (sm_engine b') = fold apply_op ops (view (sm_engine b))"
    "restore_batch se spec_rocks s (view (sm_engine b)) = Inr ops" by simp_all
  with restore_same [of se m s "view (sm_engine b)"] assms(1-3) finite_view
  show "same_state (se_json se) m (view (sm_engine b'))" "replica_ok (view (sm_engine b'))"
    by (simp_all add: snap_env_ok_def)
qed

lemma hook_restored:
  assumes "hook_restore_snapshot se r i t bs b = (b', Inr ())" "load_state spec_rocks (view (sm_engine b)) = Inr st"
    and "last_applied_index st \<le> unat i"
  obtains md where "snapshot_restore se r bs b = (b', Inr md)"
proof -
  from assms(1) obtain current where c: "hook_apply_state r (sm_engine b) = Inr current"
    by (auto simp: hook_restore_snapshot_def result_simps split: sum.splits)
  then have "load_state spec_rocks (view (sm_engine b)) = Inr current"
    by (auto simp: hook_apply_state_def load_state_def result_simps dest!: get_view split: option.splits)
  with assms that c show thesis
    by (auto simp: hook_restore_snapshot_def result_simps split: sum.splits prod.splits)
qed

end

lemma restored_follows:
  assumes "rocks_store r1 v1" "rocks_store r2 v2" "snap_env_ok se"
    and "replica_ok (v1 (sm_engine a))" "no_orphans (se_json se) (v1 (sm_engine a))"
    and "hook_create_snapshot se r1 i t a = Inr bs" "hook_restore_snapshot se r2 i t bs b = (b', Inr ())"
    and "load_state spec_rocks (v2 (sm_engine b)) = Inr st" "last_applied_index st \<le> unat i"
  shows "same_state (se_json se) (v1 (sm_engine a)) (v2 (sm_engine b'))" "replica_ok (v2 (sm_engine b'))"
proof -
  from assms(6) have "snapshot_export se r1 i t a = Inr bs" by (simp add: hook_create_snapshot_def result_simps)
  from rocks_store.exported_bytes [OF assms(1,3,4) this] obtain s where
    s: "describes se (v1 (sm_engine a)) s" "snapshot_decode (se_lower se) (se_sha256 se) bs = Inr s" by blast
  from rocks_store.hook_restored [OF assms(2,7-9)] obtain md where "snapshot_restore se r2 bs b = (b', Inr md)" .
  from rocks_store.restored_state [OF assms(2) s(1) assms(3,5) s(2) this]
  show "same_state (se_json se) (v1 (sm_engine a)) (v2 (sm_engine b'))" "replica_ok (v2 (sm_engine b'))" .
qed


section \<open>Where orphaned rows come from\<close>

definition catalog_tidy :: "schema_json \<Rightarrow> contents \<Rightarrow> bool" where
  "catalog_tidy j m \<longleftrightarrow> no_orphans j m \<and>
     (\<forall>name s. stored_catalog j m name = Some s \<longrightarrow> schema_name s = name)"

text \<open>Statements spelled as in the catalog, on tables that exist.\<close>

definition well_named :: "sm_env \<Rightarrow> schema_json \<Rightarrow> contents \<Rightarrow> replicated_mutation \<Rightarrow> bool" where
  "well_named env j m mut =
     (case mut of
        CreateTable schema \<Rightarrow> to_lowercase env (schema_name schema) = schema_name schema
      | DropTable table _ \<Rightarrow> to_lowercase env table = table
      | InsertRows table _ _ _ \<Rightarrow> stored_catalog j m table \<noteq> None
      | UpdateRows table _ _ _ \<Rightarrow> stored_catalog j m table \<noteq> None
      | DeleteRows table _ _ _ \<Rightarrow> stored_catalog j m table \<noteq> None)"

lemma mutation_writes_table:
  assumes "mut_commit_ts mut = Some ts" "validate_table_id mut = Inr ()" "well_named env j m mut" "catalog_tidy j m"
    and "(t, pk, v) \<in> set (mutation_writes mut)"
  shows "\<exists>name s. stored_catalog j m name = Some s \<and> table_id_for (schema_name s) = t"
proof (cases mut)
  case (InsertRows table tid cts rows)
  with assms show ?thesis
    by (fastforce simp: mutation_writes_def well_named_def validate_table_id_def catalog_tidy_def split: if_splits)
next
  case (UpdateRows table tid cts rows)
  with assms show ?thesis
    by (fastforce simp: mutation_writes_def well_named_def validate_table_id_def catalog_tidy_def split: if_splits)
next
  case (DeleteRows table tid cts rows)
  with assms show ?thesis
    by (fastforce simp: mutation_writes_def well_named_def validate_table_id_def catalog_tidy_def split: if_splits)
qed (use assms in \<open>auto simp: mut_commit_ts_def\<close>)

lemma catalog_tidy_depends:
  assumes "a CF_DATA = b CF_DATA" "a CF_CATALOG = b CF_CATALOG"
  shows "catalog_tidy j a = catalog_tidy j b"
  using assms stored_catalog_depends [of a b j] by (simp add: catalog_tidy_def no_orphans_def)

lemma cursor_tidy: "catalog_tidy j (apply_op (cursor_op i ts) m) = catalog_tidy j m"
  by (rule catalog_tidy_depends) (simp_all add: cursor_effect)

lemma dml_tidy:
  assumes "catalog_tidy j m" "well_named env j m mut" "mut_commit_ts mut = Some ts" "validate_table_id mut = Inr ()"
  shows "catalog_tidy j (fold apply_op (commit_batch (from_u64 ts) (mutation_writes mut)) m)" (is "catalog_tidy j ?m")
proof -
  have c: "committed_at (from_u64 ts) (mutation_writes mut) m ?m" by (rule committed_at_batch) simp
  have cat: "stored_catalog j ?m = stored_catalog j m"
    by (rule stored_catalog_depends) (simp add: commit_batch_effect)
  have "\<exists>name s. stored_catalog j m name = Some s \<and> table_id_for (schema_name s) = t"
    if "?m CF_DATA (encode_versioned_key t pk u) \<noteq> None" for t pk u
  proof (cases "m CF_DATA (encode_versioned_key t pk u) = None")
    case False
    with assms(1) show ?thesis unfolding catalog_tidy_def no_orphans_def by blast
  next
    case True
    from that have "encode_versioned_key t pk u \<in> dom (?m CF_DATA)" by (simp add: domIff)
    with c True obtain t' pk' v where w: "(t', pk', v) \<in> set (mutation_writes mut)"
        "encode_versioned_key t pk u = encode_versioned_key t' pk' (from_u64 ts)"
      unfolding committed_at_def by blast
    from arg_cong [OF w(2), of "take 4"] have "t' = t" by (simp add: u32_bytes_eq_iff)
    with mutation_writes_table [OF assms(3,4,2,1)] w(1) show ?thesis by blast
  qed
  with cat assms(1) show ?thesis by (auto simp: catalog_tidy_def no_orphans_def)
qed

lemma create_tidy:
  assumes "catalog_tidy j m" "to_lowercase env (schema_name schema) = schema_name schema"
    and "schema_of_json j v = Inr schema"
  shows "catalog_tidy j (apply_op (Put CF_CATALOG (str_bytes (to_lowercase env (schema_name schema))) v) m)"
    (is "catalog_tidy j ?m")
proof -
  let ?n = "schema_name schema"
  have cat: "stored_catalog j ?m name =
      (if name = ?n \<and> \<not> starts_with name INDEX_SENTINEL_PREFIX then Some schema else stored_catalog j m name)" for name
    using assms(2,3) by (auto simp: stored_catalog_def str_bytes_inj)
  have named: "schema_name s = name" if "stored_catalog j m name = Some s" for name s
    using assms(1) that by (simp add: catalog_tidy_def)
  have "\<exists>name s. stored_catalog j ?m name = Some s \<and> table_id_for (schema_name s) = t"
    if r: "m CF_DATA (encode_versioned_key t pk u) \<noteq> None" for t pk u
  proof -
    from r assms(1) obtain name s where s: "stored_catalog j m name = Some s" "table_id_for (schema_name s) = t"
      unfolding catalog_tidy_def no_orphans_def by blast
    show ?thesis
    proof (cases "name = ?n \<and> \<not> starts_with name INDEX_SENTINEL_PREFIX")
      case True
      then have "stored_catalog j ?m name = Some schema" "table_id_for (schema_name schema) = t"
        using named [OF s(1)] s(2) by (auto simp: cat simp del: apply_op.simps)
      then show ?thesis by blast
    next
      case False
      then have "stored_catalog j ?m name = Some s" using s(1) by (auto simp: cat simp del: apply_op.simps)
      with s(2) show ?thesis by blast
    qed
  qed
  moreover have "?m CF_DATA = m CF_DATA" by simp
  ultimately show ?thesis
    unfolding catalog_tidy_def no_orphans_def using named cat by (auto simp del: apply_op.simps split: if_splits)
qed

lemma drop_tidy:
  assumes "catalog_tidy j m"
  shows "catalog_tidy j (m(CF_CATALOG := (m CF_CATALOG)(str_bytes table := None),
    CF_DATA := (m CF_DATA) |` (- table_keys m (table_id_for table))))" (is "catalog_tidy j ?m")
proof -
  have cat: "stored_catalog j ?m name = (if name = table then None else stored_catalog j m name)" for name
    by (auto simp: stored_catalog_def str_bytes_inj)
  have named: "schema_name s = name" if "stored_catalog j m name = Some s" for name s
    using assms that by (simp add: catalog_tidy_def)
  have "\<exists>name s. stored_catalog j ?m name = Some s \<and> table_id_for (schema_name s) = t"
    if r: "?m CF_DATA (encode_versioned_key t pk u) \<noteq> None" for t pk u
  proof -
    from r have k: "m CF_DATA (encode_versioned_key t pk u) \<noteq> None"
        "encode_versioned_key t pk u \<notin> table_keys m (table_id_for table)"
      by (auto simp: restrict_map_def split: if_splits)
    then have "t \<noteq> table_id_for table" by (auto simp: table_keys_def in_table_def)
    moreover from k(1) assms obtain name s where "stored_catalog j m name = Some s" "table_id_for (schema_name s) = t"
      unfolding catalog_tidy_def no_orphans_def by blast
    ultimately show ?thesis using cat named by (metis (full_types))
  qed
  then show ?thesis
    using named by (auto simp: catalog_tidy_def no_orphans_def cat simp del: fun_upd_apply split: if_splits)
qed

lemma sql_tidy:
  assumes "catalog_tidy j (sm_engine a)" "replica_ok (sm_engine a)" "well_named env j (sm_engine a) mut"
    and "schema_json_ok j" "schema_to_json env = json_of_schema j"
    and "apply_sql env spec_rocks i mut s a = (a', ra)"
  shows "catalog_tidy j (sm_engine a')"
proof (cases "rbind (check_commit_ts mut s) (\<lambda>_. validate_table_id mut)")
  case (Inl e)
  then show ?thesis using assms by (auto simp: apply_sql_def rbind_def split: sum.splits)
next
  case (Inr u)
  then have ok: "check_commit_ts mut s = Inr ()" "validate_table_id mut = Inr ()" by (auto simp: result_simps)
  show ?thesis
  proof (cases "mut_commit_ts mut")
    case (Some ts)
    with assms(6) ok dml_tidy [OF assms(1,3) Some ok(2)] show ?thesis
      by (auto simp: apply_sql_def dml_batch [OF Some] cursor_tidy)
  next
    case None
    then consider (create) schema where "mut = CreateTable schema" | (drop) table t where "mut = DropTable table t"
      by (cases mut) (auto simp: mut_commit_ts_def)
    then show ?thesis
    proof cases
      case create
      with assms(3) have low: "to_lowercase env (schema_name schema) = schema_name schema" by (simp add: well_named_def)
      show ?thesis
      proof (cases "schema_to_json env schema")
        case (Inr v)
        then have "schema_of_json j v = Inr schema" using assms(4,5) by (simp add: schema_json_ok_def)
        from create_tidy [OF assms(1) low this] show ?thesis
          using assms(6) ok create Inr None
          by (auto simp: apply_sql_def mutation_batch_def cursor_tidy simp del: apply_op.simps)
      qed (use assms(1,6) ok create None in \<open>auto simp: apply_sql_def mutation_batch_def\<close>)
    next
      case drop
      with assms(3) ok(2) have t: "to_lowercase env table = table" "t = table_id_for table"
        by (auto simp: well_named_def validate_table_id_def split: if_splits)
      obtain ops where "mutation_batch env spec_rocks mut (sm_engine a) = Inr ops"
        "fold apply_op ops (sm_engine a) = (sm_engine a)(CF_CATALOG := (sm_engine a CF_CATALOG)(str_bytes table := None),
          CF_DATA := (sm_engine a CF_DATA) |` (- table_keys (sm_engine a) t))"
        using drop_mutation_batch [OF assms(2), of env table t] drop t(1) by metis
      with drop_tidy [OF assms(1), of table] t(2) assms(6) ok None show ?thesis
        by (auto simp: apply_sql_def cursor_tidy simp del: fun_upd_apply)
    qed
  qed
qed

lemma entry_tidy:
  assumes "catalog_tidy j (sm_engine a)" "replica_ok (sm_engine a)"
    and "\<And>mut. decode_mutation (le_command e) = Inr mut \<Longrightarrow> well_named env j (sm_engine a) mut"
    and "schema_json_ok j" "schema_to_json env = json_of_schema j"
    and "apply_log_entry env spec_rocks e a = (a', ra)"
  shows "catalog_tidy j (sm_engine a')"
proof -
  have id: "catalog_tidy j (sm_engine a')" if "apply_identity spec_rocks i mut s a = (a', ra)" for i mut s
  proof (cases "sm_engine a' = sm_engine a")
    case False
    with that obtain bs where "sm_engine a' =
        apply_op (cursor_op i (last_commit_ts s)) (apply_op (Put CF_META REPLICATED_IDENTITY_STATE_KEY bs) (sm_engine a))"
      by (auto simp: apply_identity_def split: sum.splits)
    moreover have "catalog_tidy j (apply_op (Put CF_META k bs) m) = catalog_tidy j m" for k bs m
      by (rule catalog_tidy_depends) simp_all
    ultimately show ?thesis using assms(1) by (simp only: cursor_tidy)
  qed (use assms(1) in simp)
  have ctl: "catalog_tidy j (sm_engine a')" if "advance_control_apply spec_rocks i s a = (a', rc)" for i s rc
    using that assms(1) by (auto simp: advance_control_apply_def cursor_tidy)
  show ?thesis
    using assms(1,6) id ctl sql_tidy [OF assms(1,2,3,4,5)]
    by (auto simp: apply_log_entry_def split: sum.splits if_splits prod.splits)
qed

lemma same_state_refl [simp]: "same_state j m m"
  by (simp add: same_state_def)

text \<open>C18. Statements spelled as in the catalog leave no orphaned row: applying an entry whose
  statement names its table as the catalog does, and for row changes a table that exists, keeps
  every stored row attached to a catalogued table, and keeps all stored keys versioned and not
  younger than the durable timestamp. So the snapshots of a node that only sees such statements
  lose nothing.\<close>

theorem well_named_entries_leave_no_orphans:
  assumes "rocks_store r view" "schema_json_ok j" "schema_to_json env = json_of_schema j"
    and "catalog_tidy j (view (sm_engine a))" "replica_ok (view (sm_engine a))" "le_index e < 2 ^ 64"
    and "\<And>mut. decode_mutation (le_command e) = Inr mut \<Longrightarrow> well_named env j (view (sm_engine a)) mut"
    and "apply_log_entry env r e a = (a', res)"
  shows "catalog_tidy j (view (sm_engine a')) \<and> replica_ok (view (sm_engine a'))"
proof (cases "store_error res")
  case True
  with rocks_store.apply_refines [OF assms(1,8)] assms(4,5) show ?thesis by simp
next
  case False
  with rocks_store.apply_refines [OF assms(1,8)]
  have spec: "apply_log_entry env spec_rocks e (abs_sm view a) = (abs_sm view a', res)" by simp
  have "catalog_tidy j (sm_engine (abs_sm view a'))"
    using entry_tidy [OF _ _ _ assms(2,3) spec] assms(4,5,7) by simp
  moreover have "replica_ok (sm_engine (abs_sm view a'))"
    using entry_same [OF same_state_refl [of j] _ _ assms(6) spec spec] assms(5) by simp
  ultimately show ?thesis by simp
qed

text \<open>C40. \<open>DROP TABLE\<close> with another spelling keeps the rows: when the spelling in the statement
  hashes to another table identifier than the catalog name, the table leaves the catalog but
  all its rows stay live in the store. (The binder lower-cases the names of created tables and
  keeps the spelling of dropped ones.)\<close>

theorem drop_table_other_spelling_keeps_rows:
  assumes "rocks_store r view" "replica_ok (view (sm_engine a))"
    and "apply_sql env r i (DropTable table (table_id_for table)) s a = (a', Inr out)"
    and "table_id_for table \<noteq> table_id_for (to_lowercase env table)"
  shows "stored_catalog j (view (sm_engine a')) (to_lowercase env table) = None \<and>
    live_row (view (sm_engine a')) (table_id_for (to_lowercase env table)) pk =
      live_row (view (sm_engine a)) (table_id_for (to_lowercase env table)) pk"
proof -
  let ?t = "table_id_for table" and ?m = "view (sm_engine a)" and ?m' = "view (sm_engine a')"
  from assms(2) have fin: "finite (dom (?m CF_DATA))" by (simp add: replica_ok_def)
  have spec: "apply_sql env spec_rocks i (DropTable table ?t) s (abs_sm view a) = (abs_sm view a', Inr out)"
    using rocks_store.apply_sql_refines [OF assms(1,3)] by simp
  have m': "?m' CF_DATA = (?m CF_DATA) |` (- table_keys ?m ?t)"
    "?m' CF_CATALOG = (?m CF_CATALOG)(str_bytes (to_lowercase env table) := None)"
  proof -
    obtain ops where ops: "mutation_batch env spec_rocks (DropTable table ?t) ?m = Inr ops"
      "fold apply_op ops ?m = ?m(CF_CATALOG := (?m CF_CATALOG)(str_bytes (to_lowercase env table) := None),
        CF_DATA := (?m CF_DATA) |` (- table_keys ?m ?t))"
      using drop_mutation_batch [OF assms(2)] by blast
    with arg_cong [OF spec, of "\<lambda>p. sm_engine (fst p)"]
    have "?m' = apply_op (cursor_op i (last_commit_ts s)) (fold apply_op ops ?m)"
      by (simp add: apply_sql_def mut_commit_ts_def check_commit_ts_def validate_table_id_def)
    with ops(2) show "?m' CF_DATA = (?m CF_DATA) |` (- table_keys ?m ?t)"
      "?m' CF_CATALOG = (?m CF_CATALOG)(str_bytes (to_lowercase env table) := None)"
      by (simp_all add: cursor_effect)
  qed
  show ?thesis
    using live_row_dropped [of ?m ?m', OF fin m'(1)] assms(4) by (simp add: stored_catalog_def m'(2))
qed

section \<open>Witnesses\<close>

definition sample_schema :: table_schema where
  "sample_schema = \<lparr>schema_name = ''t'', schema_columns = [\<lparr>col_name = ''k'', col_data_type = ''int''\<rparr>]\<rparr>"

definition sample_json :: schema_json where
  "sample_json =
     \<lparr>json_of_schema = (\<lambda>s. if s = sample_schema then Inr [1] else Inl []),
      schema_of_json = (\<lambda>b. if b = [1] then Inr sample_schema else Inl [])\<rparr>"

definition sample_snap_env :: snap_env where
  "sample_snap_env = \<lparr>se_lower = (\<lambda>s. s), se_json = sample_json, se_sha256 = (\<lambda>_. replicate 32 0)\<rparr>"

definition sample_exporter :: "mem_db state_machine" where
  "sample_exporter =
     \<lparr>sm_engine =
        mem_put CF_META APPLY_STATE_KEY (apply_state_encode \<lparr>last_applied_index = 3, last_commit_ts = 5\<rparr>)
        (mem_put CF_DATA (encode_versioned_key (table_id_for ''t'') [7] (from_u64 5)) [9]
        (mem_put CF_DATA (encode_versioned_key (table_id_for ''t'') [7] (from_u64 4)) [8]
        (mem_put CF_CATALOG (str_bytes ''t'') [1] mem_open))),
      sm_catalog = (\<lambda>_. None), sm_clock = hlc_new 500\<rparr>"

definition sample_bytes :: bytes where
  "sample_bytes =
     [78, 66, 83, 78, 1, 0, 0, 0, 0, 0, 0, 0, 0, 3, 0, 0, 0, 0, 0, 0, 0, 1, 0,
      0, 0, 0, 0, 0, 0, 3, 0, 0, 0, 0, 0, 0, 0, 5, 0, 0, 0, 1, 241, 12, 61, 163,
      0, 0, 0, 1, 116, 0, 0, 0, 1, 0, 0, 0, 1, 107, 0, 0, 0, 3, 105, 110, 116,
      0, 0, 0, 1, 0, 0, 0, 1, 7, 0, 0, 0, 1, 9, 0, 0, 0, 6, 78, 66, 73, 88, 1, 0] @ replicate 32 0"

lemma sample_export: "hook_create_snapshot sample_snap_env mem_rocks 3 1 sample_exporter = Inr sample_bytes"
  by code_simp

definition sample_target :: "mem_db state_machine" where
  "sample_target = \<lparr>sm_engine = mem_open, sm_catalog = (\<lambda>_. None), sm_clock = hlc_new 500\<rparr>"

definition sample_restored :: "mem_db state_machine" where
  "sample_restored = fst (hook_restore_snapshot sample_snap_env mem_rocks 3 1 sample_bytes sample_target)"

definition sample_lower :: "string \<Rightarrow> string" where
  "sample_lower s = (if s = ''T'' then ''t'' else s)"

definition sample_lower_env :: sm_env where
  "sample_lower_env = \<lparr>to_lowercase = sample_lower, schema_to_json = json_of_schema sample_json\<rparr>"

definition sample_more :: replicated_mutation where
  "sample_more = InsertRows ''t'' (table_id_for ''t'') 6 [\<lparr>primary_key = [8], row_value = [1]\<rparr>]"

definition sample_rest :: log_entry where
  "sample_rest = \<lparr>le_term = 1, le_index = 4, le_command = projr (encode_mutation sample_more)\<rparr>"

lemma sample_restore:
  "hook_restore_snapshot sample_snap_env mem_rocks 3 1 sample_bytes sample_target = (sample_restored, Inr ())"
proof -
  have "is_ok (snd (hook_restore_snapshot sample_snap_env mem_rocks 3 1 sample_bytes sample_target))" by code_simp
  then show ?thesis by (auto simp: sample_restored_def is_ok_iff prod_eq_iff)
qed

lemma sample_answers:
  "list_all is_ok (snd (apply_task sample_lower_env mem_rocks [sample_rest] sample_exporter))"
  "list_all is_ok (snd (apply_task sample_lower_env mem_rocks [sample_rest] sample_restored))"
  by code_simp+

lemma sample_decodes: "decode_mutation (le_command sample_rest) = Inr sample_more"
  by code_simp

lemma sample_snap_env_ok: "snap_env_ok sample_snap_env"
proof -
  have "rust_string ''t''" "rust_string ''k''" "rust_string ''int''" by (simp_all add: ascii_rust_string)
  then show ?thesis
    by (auto simp: snap_env_ok_def sample_snap_env_def schema_json_ok_def sample_json_def sample_schema_def
        split: if_splits)
qed

lemma sample_exporter_view:
  "mem_view (sm_engine sample_exporter) CF_DATA =
     [encode_versioned_key (table_id_for ''t'') [7] (from_u64 4) \<mapsto> [8],
      encode_versioned_key (table_id_for ''t'') [7] (from_u64 5) \<mapsto> [9]]"
  "mem_view (sm_engine sample_exporter) CF_CATALOG = [str_bytes ''t'' \<mapsto> [1]]"
  by (simp_all add: sample_exporter_def mem_view_put mem_view_open)

lemma sample_exporter_ok: "replica_ok (mem_view (sm_engine sample_exporter))"
proof -
  have "load_state spec_rocks (mem_view (sm_engine sample_exporter)) =
      Inr \<lparr>last_applied_index = 3, last_commit_ts = 5\<rparr>"
    by (simp add: load_state_def sample_exporter_def mem_view_put apply_state_roundtrip)
  moreover have "data_below (mem_view (sm_engine sample_exporter)) 5"
    unfolding data_below_def
  proof
    fix k assume "k \<in> dom (mem_view (sm_engine sample_exporter) CF_DATA)"
    then have "\<exists>u. (u = 4 \<or> u = 5) \<and> k = encode_versioned_key (table_id_for ''t'') [7] (from_u64 u)"
      by (auto simp: sample_exporter_view)
    then obtain u :: u64 where "u = 4 \<or> u = 5" "k = encode_versioned_key (table_id_for ''t'') [7] (from_u64 u)" by blast
    moreover from this(1) have "u \<le> 5" by auto
    ultimately show "\<exists>t pk u. encodable u \<and> k = encode_versioned_key t pk u \<and> to_u64 u \<le> 5"
      using encodable_from_u64 [of u] to_from_u64 [of u] by metis
  qed
  ultimately show ?thesis by (simp add: replica_ok_def sample_exporter_view)
qed

lemma sample_exporter_tidy: "catalog_tidy sample_json (mem_view (sm_engine sample_exporter))"
proof -
  have cat: "stored_catalog sample_json (mem_view (sm_engine sample_exporter)) name =
      (if name = ''t'' then Some sample_schema else None)" for name
    by (simp add: stored_catalog_def sample_exporter_view str_bytes_inj sample_json_def INDEX_SENTINEL_PREFIX_def
        starts_with_def)
  moreover have "t = table_id_for ''t''"
    if "mem_view (sm_engine sample_exporter) CF_DATA (encode_versioned_key t pk u) \<noteq> None" for t pk u
  proof -
    from that obtain u' where "encode_versioned_key t pk u = encode_versioned_key (table_id_for ''t'') [7] u'"
      by (auto simp: sample_exporter_view split: if_splits)
    from arg_cong [OF this, of "take 4"] show ?thesis by (simp add: u32_bytes_eq_iff)
  qed
  ultimately show ?thesis
    unfolding catalog_tidy_def no_orphans_def
    by (intro conjI allI impI exI [of _ "''t''"] exI [of _ sample_schema]) (auto simp: sample_schema_def split: if_splits)
qed


theorem well_named_entries_leave_no_orphans_witness:
  "catalog_tidy sample_json
     (mem_view (sm_engine (fst (apply_log_entry sample_lower_env mem_rocks sample_rest sample_exporter)))) \<and>
   replica_ok (mem_view (sm_engine (fst (apply_log_entry sample_lower_env mem_rocks sample_rest sample_exporter))))"
proof -
  have j: "schema_json_ok sample_json"
    using sample_snap_env_ok by (simp add: snap_env_ok_def sample_snap_env_def)
  have "stored_catalog sample_json (mem_view (sm_engine sample_exporter)) ''t'' = Some sample_schema"
    by (simp add: stored_catalog_def sample_exporter_view sample_json_def INDEX_SENTINEL_PREFIX_def starts_with_def)
  then have w: "well_named sample_lower_env sample_json (mem_view (sm_engine sample_exporter)) mut"
    if "decode_mutation (le_command sample_rest) = Inr mut" for mut
    using that sample_decodes by (auto simp: well_named_def sample_more_def)
  show ?thesis
    by (rule well_named_entries_leave_no_orphans [OF mem_store_laws.rocks_store_axioms j _ sample_exporter_tidy
        sample_exporter_ok _ w prod.collapse [symmetric]]) (simp_all add: sample_lower_env_def sample_rest_def)
qed

theorem drop_table_other_spelling_keeps_rows_witness:
  "stored_catalog sample_json (mem_view (sm_engine (fst (apply_sql sample_lower_env mem_rocks 4
       (DropTable ''T'' (table_id_for ''T'')) \<lparr>last_applied_index = 3, last_commit_ts = 5\<rparr> sample_exporter)))) ''t'' = None \<and>
   live_row (mem_view (sm_engine (fst (apply_sql sample_lower_env mem_rocks 4
       (DropTable ''T'' (table_id_for ''T'')) \<lparr>last_applied_index = 3, last_commit_ts = 5\<rparr> sample_exporter))))
     (table_id_for ''t'') [7] = live_row (mem_view (sm_engine sample_exporter)) (table_id_for ''t'') [7]"
proof -
  let ?run = "apply_sql sample_lower_env mem_rocks 4
    (DropTable ''T'' (table_id_for ''T'')) \<lparr>last_applied_index = 3, last_commit_ts = 5\<rparr> sample_exporter"
  have "is_ok (snd ?run)"
    by (simp add: apply_sql_def check_commit_ts_def mut_commit_ts_def validate_table_id_def mutation_batch_def
        raw_scan_table_versions_def write_batch_def mem_rocks_def Let_def)
  then obtain out where r: "?run = (fst ?run, Inr out)" by (auto simp: is_ok_iff prod_eq_iff)
  have t: "to_lowercase sample_lower_env ''T'' = ''t''" by (simp add: sample_lower_env_def sample_lower_def)
  have "table_id_for ''T'' \<noteq> table_id_for ''t''" by code_simp
  with drop_table_other_spelling_keeps_rows [OF mem_store_laws.rocks_store_axioms sample_exporter_ok r] t
  show ?thesis by simp
qed

end
