(* ===== verification/Spec2Isabelle.thy ===== *)
theory Spec2Isabelle
  imports Nb_Prelude Membership Raft_Log Snapshot_Payload Raft_Types Raft_Node Raft_Loop
    Raft_Vote Raft_Cluster Raft_Apply Raft_Commit Utf8 Hlc Storage Mvcc Txn_System Wire Replicated_Sql Replicated_Identity
    State_Machine Replication Raft_Persistence Vectorized Scheduler Query_Exec Batch_Codec
    Btree_Map Catalog Sql_Snapshot Snapshot_Manager Snapshot_Transfer Snapshot_Install
begin

text \<open>
  A verification development for NeuralBase, a replicated SQL database written in Rust.
\<close>

end
